(* ===== verification/Prelude.thy ===== *)
theory Prelude
  imports Main "HOL-Library.Word" "HOL-Library.Char_ord" "HOL-Library.List_Lexorder"
    "HOL-Library.Monad_Syntax"
begin

text \<open>
  The prelude of the development: the result type that stands for C++ code that may throw,
  ordered dictionaries that stand for \<open>std::map\<close> (sorted association lists, so that the
  iteration order is the one of the program), their interface as a locale, and the lemmas on
  lists, options and sums that the component theories share.
\<close>

section \<open>Machine integers\<close>

type_synonym u8 = "8 word"
type_synonym u16 = "16 word"
type_synonym u32 = "32 word"
type_synonym u64 = "64 word"

section \<open>Results\<close>

text \<open>
  A computation that may throw returns \<open>Inl e\<close> for the exception and \<open>Inr v\<close> for the
  value. \<open>ebind\<close> is sequential composition, \<open>efold\<close> a loop whose body may throw, and
  \<open>emap\<close> a loop that collects one value for each element.
\<close>

named_theorems res_simps

definition ebind :: "'e + 'a \<Rightarrow> ('a \<Rightarrow> 'e + 'b) \<Rightarrow> 'e + 'b" where
  "ebind m f = (case m of Inl e \<Rightarrow> Inl e | Inr v \<Rightarrow> f v)"

definition ensure :: "bool \<Rightarrow> 'e \<Rightarrow> 'e + unit" where
  "ensure b e = (if b then Inr () else Inl e)"

fun efold :: "('s \<Rightarrow> 'a \<Rightarrow> 'e + 's) \<Rightarrow> 's \<Rightarrow> 'a list \<Rightarrow> 'e + 's" where
  "efold f s [] = Inr s"
| "efold f s (x # xs) = ebind (f s x) (\<lambda>s'. efold f s' xs)"

fun emap :: "('a \<Rightarrow> 'e + 'b) \<Rightarrow> 'a list \<Rightarrow> 'e + 'b list" where
  "emap f [] = Inr []"
| "emap f (x # xs) = ebind (f x) (\<lambda>y. ebind (emap f xs) (\<lambda>ys. Inr (y # ys)))"

definition of_opt :: "'e \<Rightarrow> 'a option \<Rightarrow> 'e + 'a" where
  "of_opt e v = (case v of None \<Rightarrow> Inl e | Some x \<Rightarrow> Inr x)"

section \<open>Ordered dictionaries\<close>

type_synonym ('k, 'v) omap = "('k \<times> 'v) list"

definition omap_wf :: "('k::linorder, 'v) omap \<Rightarrow> bool" where
  "omap_wf m \<longleftrightarrow> sorted_wrt (<) (map fst m)"

text \<open>\<open>emplace\<close> of \<open>std::map\<close>: an existing entry is kept.\<close>

fun omap_emplace :: "'k::linorder \<Rightarrow> 'v \<Rightarrow> ('k, 'v) omap \<Rightarrow> ('k, 'v) omap" where
  "omap_emplace k v [] = [(k, v)]"
| "omap_emplace k v ((k', v') # m) =
     (if k < k' then (k, v) # (k', v') # m
      else if k = k' then (k', v') # m
      else (k', v') # omap_emplace k v m)"

text \<open>Assignment through \<open>operator[]\<close>: an existing entry is replaced.\<close>

fun omap_assign :: "'k::linorder \<Rightarrow> 'v \<Rightarrow> ('k, 'v) omap \<Rightarrow> ('k, 'v) omap" where
  "omap_assign k v [] = [(k, v)]"
| "omap_assign k v ((k', v') # m) =
     (if k < k' then (k, v) # (k', v') # m
      else if k = k' then (k, v) # m
      else (k', v') # omap_assign k v m)"

definition omap_erase :: "'k::linorder \<Rightarrow> ('k, 'v) omap \<Rightarrow> ('k, 'v) omap" where
  "omap_erase k m = filter (\<lambda>e. fst e \<noteq> k) m"

abbreviation omap_find :: "('k, 'v) omap \<Rightarrow> 'k \<Rightarrow> 'v option" where
  "omap_find \<equiv> map_of"

section \<open>Lemmas on results\<close>

lemma ebind_simps [simp]:
  "ebind (Inl e) f = Inl e"
  "ebind (Inr v) f = f v"
  by (simp_all add: ebind_def)

lemma ebind_eq_Inr [res_simps]:
  "ebind m f = Inr y \<longleftrightarrow> (\<exists>x. m = Inr x \<and> f x = Inr y)"
  by (cases m) (auto simp: ebind_def)

lemma ebind_eq_Inl [res_simps]:
  "ebind m f = Inl e \<longleftrightarrow> m = Inl e \<or> (\<exists>x. m = Inr x \<and> f x = Inl e)"
  by (cases m) (auto simp: ebind_def)

lemma ensure_eq_Inr [res_simps]: "ensure b e = Inr u \<longleftrightarrow> b"
  by (simp add: ensure_def)

lemma ensure_eq_Inl [res_simps]: "ensure b e = Inl e' \<longleftrightarrow> \<not> b \<and> e' = e"
  by (auto simp: ensure_def)

lemma ensure_simps [simp]:
  "ensure True e = Inr ()"
  "ensure False e = Inl e"
  by (simp_all add: ensure_def)

lemma of_opt_eq_Inr [res_simps]: "of_opt e v = Inr x \<longleftrightarrow> v = Some x"
  by (auto simp: of_opt_def split: option.splits)

lemma of_opt_simps [simp]:
  "of_opt e None = Inl e"
  "of_opt e (Some x) = Inr x"
  by (simp_all add: of_opt_def)

lemma efold_append:
  "efold f s (xs @ ys) = ebind (efold f s xs) (\<lambda>s'. efold f s' ys)"
  by (induction xs arbitrary: s) (auto simp: ebind_def split: sum.splits)

text \<open>The loop rule: an invariant that the body keeps holds after a loop that returns.\<close>

lemma efold_invariant:
  assumes "efold f s xs = Inr s'"
    and "P s"
    and "\<And>s x s'. P s \<Longrightarrow> x \<in> set xs \<Longrightarrow> f s x = Inr s' \<Longrightarrow> P s'"
  shows "P s'"
  using assms
proof (induction xs arbitrary: s)
  case Nil
  then show ?case by simp
next
  case (Cons x xs)
  from Cons.prems(1) obtain t where t: "f s x = Inr t" "efold f t xs = Inr s'"
    by (auto simp: res_simps)
  have "P t"
    using Cons.prems(2,3) t(1) by (meson list.set_intros(1))
  then show ?case
    using Cons.IH [OF t(2)] Cons.prems(3) by (meson list.set_intros(2))
qed

lemma emap_length: "emap f xs = Inr ys \<Longrightarrow> length ys = length xs"
  by (induction xs arbitrary: ys) (auto simp: res_simps)

lemma emap_nth: "emap f xs = Inr ys \<Longrightarrow> i < length xs \<Longrightarrow> f (xs ! i) = Inr (ys ! i)"
proof (induction xs arbitrary: ys i)
  case Nil
  then show ?case by simp
next
  case (Cons x xs)
  then show ?case
    by (cases i) (auto simp: res_simps)
qed

lemma emap_set: "emap f xs = Inr ys \<Longrightarrow> y \<in> set ys \<Longrightarrow> \<exists>x \<in> set xs. f x = Inr y"
  by (induction xs arbitrary: ys) (auto simp: res_simps)

section \<open>Lemmas on ordered dictionaries\<close>

named_theorems omap_simps

lemma omap_wf_Nil [simp]: "omap_wf []"
  by (simp add: omap_wf_def)

lemma omap_wf_distinct: "omap_wf m \<Longrightarrow> distinct (map fst m)"
  unfolding omap_wf_def using strict_sorted_iff by blast

lemma set_keys_emplace: "fst ` set (omap_emplace k v m) = insert k (fst ` set m)"
  by (induction m) force+

lemma set_keys_assign: "fst ` set (omap_assign k v m) = insert k (fst ` set m)"
  by (induction m) force+

lemma omap_wf_emplace: "omap_wf m \<Longrightarrow> omap_wf (omap_emplace k v m)"
proof (induction m)
  case Nil
  then show ?case by (simp add: omap_wf_def)
next
  case (Cons e m)
  obtain k' v' where e: "e = (k', v')" by fastforce
  have rest: "omap_wf m" "\<forall>x \<in> fst ` set m. k' < x"
    using Cons.prems by (auto simp: omap_wf_def e)
  show ?case
  proof (cases "k' < k")
    case True
    have "\<forall>x \<in> fst ` set (omap_emplace k v m). k' < x"
      using rest(2) True by (simp add: set_keys_emplace)
    with True Cons.IH [OF rest(1)] show ?thesis
      by (auto simp: omap_wf_def e)
  next
    case False
    with Cons.prems show ?thesis
      by (fastforce simp: omap_wf_def e)
  qed
qed

lemma omap_wf_assign: "omap_wf m \<Longrightarrow> omap_wf (omap_assign k v m)"
proof (induction m)
  case Nil
  then show ?case by (simp add: omap_wf_def)
next
  case (Cons e m)
  obtain k' v' where e: "e = (k', v')" by fastforce
  have rest: "omap_wf m" "\<forall>x \<in> fst ` set m. k' < x"
    using Cons.prems by (auto simp: omap_wf_def e)
  show ?case
  proof (cases "k' < k")
    case True
    have "\<forall>x \<in> fst ` set (omap_assign k v m). k' < x"
      using rest(2) True by (simp add: set_keys_assign)
    with True Cons.IH [OF rest(1)] show ?thesis
      by (auto simp: omap_wf_def e)
  next
    case False
    with Cons.prems show ?thesis
      by (fastforce simp: omap_wf_def e)
  qed
qed

lemma omap_wf_erase: "omap_wf m \<Longrightarrow> omap_wf (omap_erase k m)"
  unfolding omap_wf_def omap_erase_def
  by (induction m) auto

lemma omap_find_fresh: "\<forall>x \<in> fst ` set m. k < x \<Longrightarrow> omap_find m (k::'a::linorder) = None"
  by (auto simp: map_of_eq_None_iff)

lemma omap_find_emplace:
  assumes "omap_wf m"
  shows "omap_find (omap_emplace k v m) =
    (case omap_find m k of None \<Rightarrow> (omap_find m)(k \<mapsto> v) | Some _ \<Rightarrow> omap_find m)"
  using assms
proof (induction m)
  case Nil
  then show ?case by (simp add: fun_eq_iff)
next
  case (Cons e m)
  obtain k' v' where e: "e = (k', v')" by fastforce
  have rest: "omap_wf m" "\<forall>x \<in> fst ` set m. k' < x"
    using Cons.prems by (auto simp: omap_wf_def e)
  have "k < k' \<Longrightarrow> omap_find m k = None"
    using rest(2) by (force intro: omap_find_fresh)
  with Cons.IH [OF rest(1)] show ?case
    by (auto simp: e fun_eq_iff split: option.splits)
qed

lemma omap_find_assign:
  assumes "omap_wf m"
  shows "omap_find (omap_assign k v m) = (omap_find m)(k \<mapsto> v)"
  using assms
proof (induction m)
  case Nil
  then show ?case by (simp add: fun_eq_iff)
next
  case (Cons e m)
  obtain k' v' where e: "e = (k', v')" by fastforce
  have rest: "omap_wf m" "\<forall>x \<in> fst ` set m. k' < x"
    using Cons.prems by (auto simp: omap_wf_def e)
  with Cons.IH [OF rest(1)] show ?case
    by (auto simp: e fun_eq_iff)
qed

lemma omap_find_erase: "omap_find (omap_erase k m) = (omap_find m)(k := None)"
  by (induction m) (auto simp: omap_erase_def fun_eq_iff)

text \<open>Erasing the entry an insertion made restores the dictionary.\<close>

lemma omap_emplace_present: "omap_wf m \<Longrightarrow> k \<in> fst ` set m \<Longrightarrow> omap_emplace k v m = m"
proof (induction m)
  case Nil
  then show ?case by simp
next
  case (Cons e m)
  then show ?case by (cases e) (force simp: omap_wf_def)
qed

lemma length_omap_emplace:
  "omap_wf m \<Longrightarrow> length (omap_emplace k v m) = (if k \<in> fst ` set m then length m else Suc (length m))"
proof (induction m)
  case Nil
  then show ?case by simp
next
  case (Cons e m)
  then show ?case by (cases e) (force simp: omap_wf_def)
qed

section \<open>The dictionary interface\<close>

text \<open>
  What the components rely on when they use a \<open>std::map\<close>: lookup after each update, and the
  representation invariant. The registries prove their lemmas from these laws.
\<close>

locale dictionary =
  fixes wf :: "'m \<Rightarrow> bool"
    and void :: "'m"
    and find :: "'m \<Rightarrow> 'k \<Rightarrow> 'v option"
    and emplace :: "'k \<Rightarrow> 'v \<Rightarrow> 'm \<Rightarrow> 'm"
    and assign :: "'k \<Rightarrow> 'v \<Rightarrow> 'm \<Rightarrow> 'm"
    and erase :: "'k \<Rightarrow> 'm \<Rightarrow> 'm"
  assumes wf_void: "wf void"
    and wf_emplace: "wf m \<Longrightarrow> wf (emplace k v m)"
    and wf_assign: "wf m \<Longrightarrow> wf (assign k v m)"
    and wf_erase: "wf m \<Longrightarrow> wf (erase k m)"
    and find_void: "find void k = None"
    and find_emplace: "wf m \<Longrightarrow> find (emplace k v m) k' =
      (if k' = k \<and> find m k = None then Some v else find m k')"
    and find_assign: "wf m \<Longrightarrow> find (assign k v m) k' = (if k' = k then Some v else find m k')"
    and find_erase: "wf m \<Longrightarrow> find (erase k m) k' = (if k' = k then None else find m k')"
begin

lemma emplace_keeps: "wf m \<Longrightarrow> find m k' = Some v' \<Longrightarrow> find (emplace k v m) k' = Some v'"
  by (auto simp: find_emplace)

lemma emplace_fresh: "wf m \<Longrightarrow> find m k = None \<Longrightarrow> find (emplace k v m) k = Some v"
  by (simp add: find_emplace)

text \<open>A batch of insertions keeps every earlier entry and covers every key of the batch.\<close>

lemma fold_emplace:
  assumes "wf m"
  shows "wf (fold (\<lambda>(k, v). emplace k v) kvs m)"
    and "find m k' = Some v' \<Longrightarrow> find (fold (\<lambda>(k, v). emplace k v) kvs m) k' = Some v'"
  using assms
  by (induction kvs arbitrary: m) (auto simp: wf_emplace emplace_keeps)

lemma fold_emplace_dom:
  assumes "wf m"
  shows "find (fold (\<lambda>(k, v). emplace k v) kvs m) k' \<noteq> None \<longleftrightarrow>
    find m k' \<noteq> None \<or> k' \<in> fst ` set kvs"
  using assms
proof (induction kvs arbitrary: m)
  case Nil
  then show ?case by simp
next
  case (Cons e kvs)
  obtain k v where e: "e = (k, v)" by fastforce
  have "find (emplace k v m) k' \<noteq> None \<longleftrightarrow> find m k' \<noteq> None \<or> k' = k"
    using Cons.prems by (auto simp: find_emplace)
  with Cons.IH [OF wf_emplace [OF Cons.prems]] show ?case
    by (auto simp: e)
qed

text \<open>
  A loop that inserts each element under a key of its own and stops at the first element that is
  not acceptable or whose key is taken: when it succeeds, and what it has built.
\<close>

lemma unique_insertions:
  assumes step: "\<And>m x. wf m \<Longrightarrow> (\<exists>m'. f m x = Inr m') \<longleftrightarrow> ok x \<and> find m (key x) = None"
    and made: "\<And>m x m'. wf m \<Longrightarrow> f m x = Inr m' \<Longrightarrow> m' = emplace (key x) (val x) m"
    and "wf m"
  shows "(\<exists>m'. efold f m xs = Inr m') \<longleftrightarrow>
      list_all ok xs \<and> distinct (map key xs) \<and> (\<forall>x \<in> set xs. find m (key x) = None)"
    and "efold f m xs = Inr m' \<Longrightarrow> wf m' \<and> (\<forall>k. find m' k =
      (case map_of (map (\<lambda>x. (key x, val x)) xs) k of None \<Rightarrow> find m k | Some v \<Rightarrow> Some v))"
  using \<open>wf m\<close>
proof (induction xs arbitrary: m)
  case (Cons x xs)
  {
    case 1
    show ?case
    proof (cases "\<exists>m1. f m x = Inr m1")
      case True
      then obtain m1 where m1: "f m x = Inr m1" by blast
      then have e: "m1 = emplace (key x) (val x) m" "find m (key x) = None" "ok x"
        using made[OF 1] step[OF 1] by auto
      show ?thesis using Cons.IH(1)[OF wf_emplace[OF 1, of "key x" "val x"]] e m1
        by (auto simp: find_emplace[OF 1] image_iff split: if_splits)
    next
      case False
      then show ?thesis using step[OF 1, of x] by (auto simp: ebind_eq_Inr)
    qed
  next
    case 2
    then obtain m1 where m1: "f m x = Inr m1" "efold f m1 xs = Inr m'" by (auto simp: ebind_eq_Inr)
    then have e: "m1 = emplace (key x) (val x) m" "find m (key x) = None"
      using made[OF 2(2)] step[OF 2(2)] by auto
    have "\<forall>y \<in> set xs. find m1 (key y) = None"
      using Cons.IH(1)[OF wf_emplace[OF 2(2), of "key x" "val x"]] m1(2) e(1) by auto
    then have "key x \<notin> key ` set xs" using e find_emplace[OF 2(2)] by force
    then have "map_of (map (\<lambda>x. (key x, val x)) xs) (key x) = None"
      by (auto simp: map_of_eq_None_iff image_image)
    then show ?case
      using Cons.IH(2)[OF m1(2)] wf_emplace[OF 2(2), of "key x" "val x"] e
      by (auto simp: find_emplace[OF 2(2)] split: option.splits)
  }
qed auto

end

interpretation om: dictionary omap_wf "[]" omap_find omap_emplace omap_assign omap_erase
proof unfold_locales
  fix m :: "('a::linorder, 'b) omap" and k k' :: 'a and v :: 'b
  show "omap_wf ([] :: ('a, 'b) omap)" by simp
  show "omap_find ([] :: ('a, 'b) omap) k = None" by simp
  assume wf: "omap_wf m"
  show "omap_wf (omap_emplace k v m)" by (rule omap_wf_emplace [OF wf])
  show "omap_wf (omap_assign k v m)" by (rule omap_wf_assign [OF wf])
  show "omap_wf (omap_erase k m)" by (rule omap_wf_erase [OF wf])
  show "omap_find (omap_emplace k v m) k' =
      (if k' = k \<and> omap_find m k = None then Some v else omap_find m k')"
    by (simp add: omap_find_emplace [OF wf] split: option.splits)
  show "omap_find (omap_assign k v m) k' = (if k' = k then Some v else omap_find m k')"
    by (simp add: omap_find_assign [OF wf])
  show "omap_find (omap_erase k m) k' = (if k' = k then None else omap_find m k')"
    by (simp add: omap_find_erase)
qed

declare om.wf_emplace [omap_simps] om.wf_assign [omap_simps] om.wf_erase [omap_simps]
  om.find_emplace [omap_simps] om.find_assign [omap_simps] om.find_erase [omap_simps]

section \<open>Lemmas on lists and sums\<close>

lemma sum_fun_upd_new:
  assumes "finite A" "a \<notin> A"
  shows "sum (\<lambda>x. f (if x = a then v else g x)) (insert a A) = f v + sum (\<lambda>x. f (g x)) A"
proof -
  have "sum (\<lambda>x. f (if x = a then v else g x)) A = sum (\<lambda>x. f (g x)) A"
    using assms(2) by (intro sum.cong) auto
  with assms show ?thesis by simp
qed

lemma distinct_map_snd_filter: "distinct (map snd xs) \<Longrightarrow> distinct (map snd (filter P xs))"
  by (induction xs) auto

lemma sorted_map_filter: "sorted (map f xs) \<Longrightarrow> sorted (map f (filter P xs))"
  by (induction xs) auto

lemma sorted_wrt_remove1: "sorted_wrt R xs \<Longrightarrow> sorted_wrt R (remove1 x xs)"
  by (induction xs) (auto dest: notin_set_remove1)

lemma filter_eq_distinct: "distinct xs \<Longrightarrow> filter (\<lambda>j. j = i) xs = (if i \<in> set xs then [i] else [])"
  by (induction xs) auto

lemma unat_word_of_nat: "n < 2 ^ LENGTH('a) \<Longrightarrow> unat (word_of_nat n :: 'a::len word) = n"
  by (simp add: unsigned_of_nat take_bit_nat_eq_self)

section \<open>Decimal numerals\<close>

text \<open>\<open>std::to_string\<close> of an unsigned number.\<close>

fun to_string :: "nat \<Rightarrow> string" where
  "to_string n = (if n < 10 then [char_of (48 + n)] else to_string (n div 10) @ [char_of (48 + n mod 10)])"

declare to_string.simps [simp del]

text \<open>The value of a string of decimal digits.\<close>

definition digits_value :: "string \<Rightarrow> nat" where
  "digits_value s = fold (\<lambda>c v. 10 * v + (of_char c - 48)) s 0"

lemma digits_value_snoc: "digits_value (s @ [c]) = 10 * digits_value s + (of_char c - 48)"
  by (simp add: digits_value_def)

lemma to_string_value [simp]: "digits_value (to_string n) = n"
proof (induction n rule: to_string.induct)
  case (1 n)
  show ?case
  proof (cases "n < 10")
    case True
    then show ?thesis by (subst to_string.simps) (simp add: digits_value_def of_char_of take_bit_eq_mod)
  next
    case False
    then show ?thesis using 1 by (subst to_string.simps)
        (simp add: digits_value_snoc of_char_of take_bit_eq_mod)
  qed
qed

lemma to_string_inj [simp]: "to_string m = to_string n \<longleftrightarrow> m = n"
  by (metis to_string_value)

definition is_digit :: "char \<Rightarrow> bool" where
  "is_digit c = (48 \<le> (of_char c :: nat) \<and> (of_char c :: nat) \<le> 57)"

lemma is_digit_char: "n < 10 \<Longrightarrow> is_digit (char_of (48 + n :: nat))"
  by (simp add: is_digit_def of_char_of take_bit_eq_mod)

lemma to_string_digits: "to_string n \<noteq> [] \<and> list_all is_digit (to_string n)"
proof (induction n rule: to_string.induct)
  case (1 n)
  then show ?case
    by (subst (1 2) to_string.simps) (auto simp: is_digit_char)
qed

text \<open>Elements separated by a text.\<close>

fun join :: "string \<Rightarrow> string list \<Rightarrow> string" where
  "join sep [] = []"
| "join sep [x] = x"
| "join sep (x # y # xs) = x @ sep @ join sep (y # xs)"

end
