(* ===== verification/Operation_Queue.thy ===== *)
theory Operation_Queue
  imports Prelude
begin

text \<open>
  The bounded operation queue of \<open>src/src/operation_queue.cpp\<close>. Each critical section of the
  source (a region that holds \<open>mutex\<close>) is one step: \<open>submit\<close>, the two sections of a
  worker (\<open>worker_take\<close>, \<open>worker_finish\<close>), one iteration of the timer (\<open>expire\<close>),
  \<open>cancel\<close>, and the two sections of \<open>stop\<close>. Time is a natural number handed to the
  step that reads the clock. Ids, byte counts and counters are natural numbers: the admission
  test keeps the byte counts below the configured limit, so no subtraction can wrap.

  \<open>q_held\<close> lists the tasks that worker threads hold between their two sections, and
  \<open>q_log\<close> is a history of the callbacks made (it is never read by an operation).
\<close>

section \<open>State\<close>

datatype OperationFailure = Overload | Deadline | Cancelled | Stopped | Exception

record OperationQueueLimits =
  lim_workers :: nat
  lim_queuedPerKey :: nat
  lim_residentBytes :: nat

record OperationQueueStats =
  st_accepted :: nat
  st_completed :: nat
  st_overloaded :: nat
  st_expired :: nat
  st_cancelled :: nat
  st_queued :: nat
  st_running :: nat
  st_residentBytes :: nat
  st_peakBytes :: nat

record Work =
  w_key :: string
  w_bytes :: nat
  w_deadline :: nat

record Lane =
  l_active :: bool
  l_ready :: bool
  l_queue :: "nat list"

text \<open>\<open>t_timed\<close> stands for \<open>expiry != deadlines.end()\<close>.\<close>

record Task =
  t_id :: nat
  t_work :: Work
  t_charge :: nat
  t_active :: bool
  t_failed :: bool
  t_timed :: bool

text \<open>A callback made on a submission: \<open>run\<close> or \<open>fail\<close>. Rejected submissions have id 0.\<close>

datatype callback = Ran nat string | Failed nat OperationFailure string

record Queue =
  q_limits :: OperationQueueLimits
  q_stopped :: bool
  q_nextId :: nat
  q_counts :: OperationQueueStats
  q_lanes :: "string \<rightharpoonup> Lane"
  q_tasks :: "nat \<rightharpoonup> Task"
  q_deadlines :: "(nat \<times> nat) list"
  q_runnable :: "string list"
  q_held :: "nat list"
  q_log :: "callback list"

section \<open>Operations\<close>

definition zero_stats :: OperationQueueStats where
  "zero_stats = \<lparr>st_accepted = 0, st_completed = 0, st_overloaded = 0, st_expired = 0,
     st_cancelled = 0, st_queued = 0, st_running = 0, st_residentBytes = 0, st_peakBytes = 0\<rparr>"

definition empty_lane :: Lane where
  "empty_lane = \<lparr>l_active = False, l_ready = False, l_queue = []\<rparr>"

text \<open>The constructor; \<open>None\<close> is the \<open>std::invalid_argument\<close> it throws.\<close>

definition make_queue :: "OperationQueueLimits \<Rightarrow> Queue option" where
  "make_queue limits =
     (if lim_workers limits = 0 \<or> lim_queuedPerKey limits = 0 \<or> lim_residentBytes limits < 256
      then None
      else Some \<lparr>q_limits = limits, q_stopped = False, q_nextId = 0, q_counts = zero_stats,
        q_lanes = Map.empty, q_tasks = Map.empty, q_deadlines = [], q_runnable = [],
        q_held = [], q_log = []\<rparr>)"

text \<open>\<open>multimap::emplace\<close>: after the entries with an equal key.\<close>

fun deadline_emplace :: "nat \<Rightarrow> nat \<Rightarrow> (nat \<times> nat) list \<Rightarrow> (nat \<times> nat) list" where
  "deadline_emplace d i [] = [(d, i)]"
| "deadline_emplace d i ((d', i') # ds) =
     (if d' \<le> d then (d', i') # deadline_emplace d i ds else (d, i) # (d', i') # ds)"

definition deadline_erase :: "nat \<Rightarrow> (nat \<times> nat) list \<Rightarrow> (nat \<times> nat) list" where
  "deadline_erase i ds = filter (\<lambda>e. snd e \<noteq> i) ds"

text \<open>The lane is a reference into \<open>lanes\<close>: it is written back.\<close>

definition ready :: "string \<Rightarrow> Lane \<Rightarrow> Queue \<Rightarrow> Queue" where
  "ready key lane q =
     (if \<not> l_active lane \<and> \<not> l_ready lane \<and> l_queue lane \<noteq> []
      then q\<lparr>q_runnable := q_runnable q @ [key],
             q_lanes := (q_lanes q)(key \<mapsto> lane\<lparr>l_ready := True\<rparr>)\<rparr>
      else q\<lparr>q_lanes := (q_lanes q)(key \<mapsto> lane)\<rparr>)"

text \<open>\<open>None\<close> is the \<open>std::out_of_range\<close> of \<open>lanes.at\<close>.\<close>

definition releaseQueued :: "Task \<Rightarrow> Queue \<Rightarrow> Queue option" where
  "releaseQueued task q =
     (case q_lanes q (w_key (t_work task)) of
        None \<Rightarrow> None
      | Some lane \<Rightarrow>
          let lane' = lane\<lparr>l_queue := remove1 (t_id task) (l_queue lane)\<rparr>;
              counts = q_counts q
          in Some (q\<lparr>
            q_counts := counts\<lparr>st_queued := st_queued counts - 1,
              st_residentBytes := st_residentBytes counts - t_charge task\<rparr>,
            q_tasks := (q_tasks q)(t_id task := None),
            q_lanes := (q_lanes q)(w_key (t_work task) :=
              (if \<not> l_active lane' \<and> \<not> l_ready lane' \<and> l_queue lane' = []
               then None else Some lane'))\<rparr>))"

text \<open>
  The first section of a worker. It returns the task taken, if any; a task past its deadline is
  failed instead of run.
\<close>

definition worker_take :: "nat \<Rightarrow> Queue \<Rightarrow> Queue option" where
  "worker_take now q =
     (if q_stopped q then Some q
      else case q_runnable q of
        [] \<Rightarrow> Some q
      | key # rest \<Rightarrow>
          (case q_lanes q key of
            None \<Rightarrow> Some (q\<lparr>q_runnable := rest\<rparr>)
          | Some lane \<Rightarrow>
              (case l_queue lane of
                [] \<Rightarrow> Some (q\<lparr>q_runnable := rest,
                        q_lanes := (q_lanes q)(key :=
                          (if l_active lane then Some (lane\<lparr>l_ready := False\<rparr>) else None))\<rparr>)
              | i # ids \<Rightarrow>
                  (case q_tasks q i of
                    None \<Rightarrow> None
                  | Some task \<Rightarrow>
                      let past = (w_deadline (t_work task) \<le> now);
                          counts = q_counts q
                      in Some (q\<lparr>
                        q_runnable := rest,
                        q_lanes := (q_lanes q)(key \<mapsto>
                          lane\<lparr>l_ready := False, l_active := True, l_queue := ids\<rparr>),
                        q_tasks := (q_tasks q)(i \<mapsto>
                          task\<lparr>t_active := True, t_failed := t_failed task \<or> past\<rparr>),
                        q_counts := counts\<lparr>st_queued := st_queued counts - 1,
                          st_running := st_running counts + 1,
                          st_expired := st_expired counts + (if past then 1 else 0)\<rparr>,
                        q_held := q_held q @ [i],
                        q_log := q_log q @
                          [if past then Failed i Deadline
                             ''total operation deadline exceeded before dispatch''
                           else Ran i key]\<rparr>)))))"

text \<open>
  The second section of a worker that holds task \<open>i\<close>; \<open>thrown\<close> is the message of the
  exception that \<open>run\<close> threw, if any (its \<open>fail\<close> callback precedes the section).
\<close>

definition worker_finish :: "nat \<Rightarrow> string option \<Rightarrow> Queue \<Rightarrow> Queue option" where
  "worker_finish i thrown q =
     (case q_tasks q i of
        None \<Rightarrow> None
      | Some task \<Rightarrow>
          (case q_lanes q (w_key (t_work task)) of
            None \<Rightarrow> None
          | Some lane \<Rightarrow>
              let counts = q_counts q;
                  key = w_key (t_work task);
                  lane' = lane\<lparr>l_active := False\<rparr>;
                  q' = q\<lparr>
                    q_deadlines := (if t_timed task then deadline_erase i (q_deadlines q)
                                    else q_deadlines q),
                    q_tasks := (q_tasks q)(i := None),
                    q_counts := counts\<lparr>st_running := st_running counts - 1,
                      st_residentBytes := st_residentBytes counts - t_charge task,
                      st_completed := st_completed counts + 1\<rparr>,
                    q_held := remove1 i (q_held q),
                    q_log := q_log q @
                      (case thrown of None \<Rightarrow> [] | Some m \<Rightarrow> [Failed i Exception m])\<rparr>
              in Some (if l_queue lane' = []
                       then q'\<lparr>q_lanes := (q_lanes q')(key := None)\<rparr>
                       else ready key lane' q')))"

text \<open>One iteration of the timer loop; a wait leaves the state alone.\<close>

definition expire :: "nat \<Rightarrow> Queue \<Rightarrow> Queue option" where
  "expire now q =
     (if q_stopped q then Some q
      else case q_deadlines q of
        [] \<Rightarrow> Some q
      | (deadline, i) # rest \<Rightarrow>
          if now < deadline then Some q
          else (case q_tasks q i of
            None \<Rightarrow> None
          | Some task \<Rightarrow>
              if t_failed task
              then Some (q\<lparr>q_deadlines := rest,
                     q_tasks := (q_tasks q)(i \<mapsto> task\<lparr>t_timed := False\<rparr>)\<rparr>)
              else
                let counts = q_counts q;
                    task' = task\<lparr>t_failed := True, t_timed := False\<rparr>;
                    q' = q\<lparr>q_deadlines := rest,
                      q_tasks := (q_tasks q)(i \<mapsto> task'),
                      q_counts := counts\<lparr>st_expired := st_expired counts + 1\<rparr>,
                      q_log := q_log q @ [Failed i Deadline
                        ''total operation deadline exceeded; not retried'']\<rparr>
                in if t_active task then Some q' else releaseQueued task' q'))"

definition stop_mark :: "Queue \<Rightarrow> Queue" where
  "stop_mark q =
     (if q_stopped q then q
      else q\<lparr>q_stopped := True,
        q_tasks := (\<lambda>i. map_option (\<lambda>t. t\<lparr>t_failed := True\<rparr>) (q_tasks q i)),
        q_log := q_log q @
          map (\<lambda>i. Failed i Stopped ''operation queue stopped'')
            (filter (\<lambda>i. case q_tasks q i of None \<Rightarrow> False | Some t \<Rightarrow> \<not> t_failed t)
              [1..<Suc (q_nextId q)])\<rparr>)"

text \<open>The last section of \<open>stop\<close>, after every thread has been joined.\<close>

definition stop_clear :: "Queue \<Rightarrow> Queue" where
  "stop_clear q =
     q\<lparr>q_tasks := Map.empty, q_lanes := Map.empty, q_deadlines := [], q_runnable := [],
       q_counts := (q_counts q)\<lparr>st_queued := 0, st_running := 0, st_residentBytes := 0\<rparr>\<rparr>"

definition fresh_task :: "nat \<Rightarrow> Work \<Rightarrow> Task" where
  "fresh_task i work = \<lparr>t_id = i, t_work = work, t_charge = max (w_bytes work) 256,
     t_active = False, t_failed = False, t_timed = True\<rparr>"

definition lane_length :: "Queue \<Rightarrow> string \<Rightarrow> nat" where
  "lane_length q key = (case q_lanes q key of None \<Rightarrow> 0 | Some lane \<Rightarrow> length (l_queue lane))"

text \<open>\<open>submit\<close> returns the id; zero means rejected.\<close>

definition submit :: "nat \<Rightarrow> Work \<Rightarrow> Queue \<Rightarrow> nat \<times> Queue" where
  "submit now work q =
     (let charge = max (w_bytes work) 256; counts = q_counts q; key = w_key work in
      if q_stopped q then
        (0, q\<lparr>q_log := q_log q @ [Failed 0 Stopped ''operation queue stopped'']\<rparr>)
      else if w_deadline work \<le> now then
        (0, q\<lparr>q_counts := counts\<lparr>st_expired := st_expired counts + 1\<rparr>,
              q_log := q_log q @ [Failed 0 Deadline
                ''total operation deadline exceeded before dispatch'']\<rparr>)
      else if lane_length q key < lim_queuedPerKey (q_limits q)
           \<and> charge \<le> lim_residentBytes (q_limits q) - st_residentBytes counts then
        let i = q_nextId q + 1;
            lane = (case q_lanes q key of None \<Rightarrow> empty_lane | Some lane \<Rightarrow> lane);
            lane' = lane\<lparr>l_queue := l_queue lane @ [i]\<rparr>;
            q' = ready key lane' (q\<lparr>
              q_nextId := i,
              q_deadlines := deadline_emplace (w_deadline work) i (q_deadlines q),
              q_tasks := (q_tasks q)(i \<mapsto> fresh_task i work)\<rparr>)
        in (i, q'\<lparr>q_counts := counts\<lparr>st_accepted := st_accepted counts + 1,
              st_queued := st_queued counts + 1,
              st_residentBytes := st_residentBytes counts + charge,
              st_peakBytes := max (st_peakBytes counts) (st_residentBytes counts + charge)\<rparr>\<rparr>)
      else
        (0, q\<lparr>q_counts := counts\<lparr>st_overloaded := st_overloaded counts + 1\<rparr>,
              q_log := q_log q @ [Failed 0 Overload ''operation queue overloaded'']\<rparr>))"

definition cancel :: "nat \<Rightarrow> Queue \<Rightarrow> Queue option" where
  "cancel i q =
     (case q_tasks q i of
        None \<Rightarrow> Some q
      | Some task \<Rightarrow>
          if t_failed task then Some q
          else
            let counts = q_counts q;
                task' = task\<lparr>t_failed := True, t_timed := False\<rparr>;
                q' = q\<lparr>q_deadlines := deadline_erase i (q_deadlines q),
                  q_tasks := (q_tasks q)(i \<mapsto> task'),
                  q_counts := counts\<lparr>st_cancelled := st_cancelled counts + 1\<rparr>,
                  q_log := q_log q @ [Failed i Cancelled ''operation cancelled; not retried'']\<rparr>
            in if t_active task then Some q' else releaseQueued task' q')"

definition stats :: "Queue \<Rightarrow> OperationQueueStats" where
  "stats q = q_counts q"

section \<open>Interleavings\<close>

text \<open>
  The threads interleave their critical sections freely. A worker enters its first section only
  when it is idle, finishes only a task it holds, and \<open>stop_clear\<close> runs once every worker
  has been joined.
\<close>

datatype action =
    Submit nat Work
  | Take nat
  | Finish nat "string option"
  | Expire nat
  | Cancel nat
  | StopMark
  | StopClear

fun enabled :: "Queue \<Rightarrow> action \<Rightarrow> bool" where
  "enabled q (Submit now w) = True"
| "enabled q (Take now) = (length (q_held q) < lim_workers (q_limits q))"
| "enabled q (Finish i m) =
     (i \<in> set (q_held q) \<and> (m \<noteq> None \<longrightarrow>
        list_ex (\<lambda>e. case e of Ran j _ \<Rightarrow> j = i | Failed _ _ _ \<Rightarrow> False) (q_log q)))"
| "enabled q (Expire now) = True"
| "enabled q (Cancel i) = True"
| "enabled q StopMark = True"
| "enabled q StopClear = (q_stopped q \<and> q_held q = [])"

fun act :: "action \<Rightarrow> Queue \<Rightarrow> Queue option" where
  "act (Submit now w) q = Some (snd (submit now w q))"
| "act (Take now) q = worker_take now q"
| "act (Finish i m) q = worker_finish i m q"
| "act (Expire now) q = expire now q"
| "act (Cancel i) q = cancel i q"
| "act StopMark q = Some (stop_mark q)"
| "act StopClear q = Some (stop_clear q)"

inductive reachable :: "OperationQueueLimits \<Rightarrow> Queue \<Rightarrow> bool" for limits where
  initial: "make_queue limits = Some q \<Longrightarrow> reachable limits q"
| step: "reachable limits q \<Longrightarrow> enabled q a \<Longrightarrow> act a q = Some q' \<Longrightarrow> reachable limits q'"

text \<open>A schedule of steps from the initial state; \<open>None\<close> when a step is not enabled.\<close>

fun run_actions :: "action list \<Rightarrow> Queue \<Rightarrow> Queue option" where
  "run_actions [] q = Some q"
| "run_actions (a # as) q =
     (if enabled q a then case act a q of None \<Rightarrow> None | Some q' \<Rightarrow> run_actions as q' else None)"

text \<open>
  One worker thread left alone: it finishes what is held, then takes the next runnable lane, for
  at most the given number of sections.
\<close>

fun drive :: "nat \<Rightarrow> nat \<Rightarrow> Queue \<Rightarrow> Queue option" where
  "drive 0 now q = Some q"
| "drive (Suc fuel) now q =
     (case q_held q of
        i # _ \<Rightarrow> (case worker_finish i None q of None \<Rightarrow> None | Some q' \<Rightarrow> drive fuel now q')
      | [] \<Rightarrow> if q_runnable q = [] then Some q
              else (case worker_take now q of None \<Rightarrow> None | Some q' \<Rightarrow> drive fuel now q'))"

section \<open>Invariant\<close>

text \<open>The sum of a weight over the tasks indexed by the queue.\<close>

definition total :: "nat \<Rightarrow> (nat \<rightharpoonup> Task) \<Rightarrow> (Task \<Rightarrow> nat) \<Rightarrow> nat" where
  "total n ts f = (\<Sum>i = 1..n. case ts i of None \<Rightarrow> 0 | Some t \<Rightarrow> f t)"

definition handled :: "callback list \<Rightarrow> nat \<Rightarrow> bool" where
  "handled log i \<longleftrightarrow> (\<exists>e \<in> set log. case e of Ran j _ \<Rightarrow> j = i | Failed j _ _ \<Rightarrow> j = i)"

text \<open>The failures of task \<open>i\<close> other than an exception of its own \<open>run\<close>.\<close>

definition refusals :: "callback list \<Rightarrow> nat \<Rightarrow> callback list" where
  "refusals log i =
     filter (\<lambda>e. case e of Ran _ _ \<Rightarrow> False | Failed j r _ \<Rightarrow> j = i \<and> r \<noteq> Exception) log"

text \<open>The ids that were run for a key, in order.\<close>

definition runs :: "callback list \<Rightarrow> string \<Rightarrow> nat list" where
  "runs log key = concat (map (\<lambda>e. case e of Ran i k \<Rightarrow> (if k = key then [i] else []) | _ \<Rightarrow> []) log)"

definition task_ok :: "Queue \<Rightarrow> nat \<Rightarrow> Task \<Rightarrow> bool" where
  "task_ok q i t \<longleftrightarrow>
     t_id t = i \<and> 1 \<le> i \<and> i \<le> q_nextId q \<and> t_charge t = max (w_bytes (t_work t)) 256
     \<and> (t_active t \<longleftrightarrow> i \<in> set (q_held q))
     \<and> (\<exists>lane. q_lanes q (w_key (t_work t)) = Some lane
          \<and> (t_active t \<longrightarrow> l_active lane) \<and> (\<not> t_active t \<longrightarrow> i \<in> set (l_queue lane)))
     \<and> (\<not> t_failed t \<longrightarrow> t_timed t)
     \<and> (t_timed t \<longrightarrow> (w_deadline (t_work t), i) \<in> set (q_deadlines q))
     \<and> (\<not> t_active t \<and> t_failed t \<longrightarrow> q_stopped q)
     \<and> (q_stopped q \<longrightarrow> t_failed t)"

definition lane_ok :: "Queue \<Rightarrow> string \<Rightarrow> Lane \<Rightarrow> bool" where
  "lane_ok q key lane \<longleftrightarrow>
     (\<forall>i \<in> set (l_queue lane). \<exists>t. q_tasks q i = Some t \<and> \<not> t_active t \<and> w_key (t_work t) = key)
     \<and> sorted_wrt (<) (l_queue lane)
     \<and> length (l_queue lane) \<le> lim_queuedPerKey (q_limits q)
     \<and> (l_active lane \<longrightarrow> (\<exists>i t. q_tasks q i = Some t \<and> t_active t \<and> w_key (t_work t) = key))
     \<and> (l_ready lane \<longleftrightarrow> \<not> l_active lane)"

definition exclusive :: "Queue \<Rightarrow> bool" where
  "exclusive q \<longleftrightarrow> (\<forall>i j t u. q_tasks q i = Some t \<longrightarrow> q_tasks q j = Some u \<longrightarrow>
     t_active t \<longrightarrow> t_active u \<longrightarrow> w_key (t_work t) = w_key (t_work u) \<longrightarrow> i = j)"

definition runnable_ok :: "Queue \<Rightarrow> bool" where
  "runnable_ok q \<longleftrightarrow> distinct (q_runnable q)
     \<and> (\<forall>key. key \<in> set (q_runnable q) \<longleftrightarrow> (\<exists>lane. q_lanes q key = Some lane \<and> l_ready lane))"

definition deadlines_ok :: "Queue \<Rightarrow> bool" where
  "deadlines_ok q \<longleftrightarrow> sorted (map fst (q_deadlines q)) \<and> distinct (map snd (q_deadlines q))
     \<and> (\<forall>(d, i) \<in> set (q_deadlines q).
          \<exists>t. q_tasks q i = Some t \<and> t_timed t \<and> w_deadline (t_work t) = d)"

definition held_ok :: "Queue \<Rightarrow> bool" where
  "held_ok q \<longleftrightarrow> distinct (q_held q) \<and> length (q_held q) \<le> lim_workers (q_limits q)
     \<and> (\<forall>i \<in> set (q_held q). q_tasks q i \<noteq> None)"

definition counts_ok :: "Queue \<Rightarrow> bool" where
  "counts_ok q \<longleftrightarrow> (let c = q_counts q; n = q_nextId q; ts = q_tasks q in
     st_queued c = total n ts (\<lambda>t. of_bool (\<not> t_active t))
     \<and> st_running c = length (q_held q)
     \<and> st_running c = total n ts (\<lambda>t. of_bool (t_active t))
     \<and> st_residentBytes c = total n ts t_charge
     \<and> st_residentBytes c \<le> st_peakBytes c
     \<and> st_peakBytes c \<le> lim_residentBytes (q_limits q)
     \<and> st_accepted c = n
     \<and> st_completed c + st_queued c + st_running c \<le> n)"

definition history_ok :: "Queue \<Rightarrow> bool" where
  "history_ok q \<longleftrightarrow>
     (\<forall>i. 1 \<le> i \<longrightarrow> i \<le> q_nextId q \<longrightarrow> \<not> handled (q_log q) i \<longrightarrow>
        (\<exists>t. q_tasks q i = Some t \<and> \<not> t_active t \<and> \<not> t_failed t))
     \<and> (\<forall>i. q_nextId q < i \<longrightarrow> \<not> handled (q_log q) i)
     \<and> (\<forall>i t. q_tasks q i = Some t \<longrightarrow> \<not> t_failed t \<longrightarrow> refusals (q_log q) i = [])
     \<and> (\<forall>i. 1 \<le> i \<longrightarrow> length (refusals (q_log q) i) \<le> 1)
     \<and> (\<forall>i t key. q_tasks q i = Some t \<longrightarrow> \<not> t_active t \<longrightarrow> i \<notin> set (runs (q_log q) key))
     \<and> (\<forall>i t j. q_tasks q i = Some t \<longrightarrow> \<not> t_active t \<longrightarrow>
          j \<in> set (runs (q_log q) (w_key (t_work t))) \<longrightarrow> j < i)
     \<and> (\<forall>key. sorted_wrt (<) (runs (q_log q) key))"

definition queue_inv :: "Queue \<Rightarrow> bool" where
  "queue_inv q \<longleftrightarrow> (\<forall>i t. q_tasks q i = Some t \<longrightarrow> task_ok q i t)
     \<and> (\<forall>key lane. q_lanes q key = Some lane \<longrightarrow> lane_ok q key lane)
     \<and> exclusive q \<and> runnable_ok q \<and> deadlines_ok q \<and> held_ok q \<and> counts_ok q \<and> history_ok q"

definition weigh :: "(Task \<Rightarrow> nat) \<Rightarrow> Task option \<Rightarrow> nat" where
  "weigh f x = (case x of None \<Rightarrow> 0 | Some t \<Rightarrow> f t)"

text \<open>The number of sections \<open>drive\<close> needs.\<close>

definition drain_measure :: "Queue \<Rightarrow> nat" where
  "drain_measure q = 3 * st_queued (q_counts q) + 2 * length (q_held q) + length (q_runnable q)"

section \<open>A concrete schedule\<close>

text \<open>
  Two keys, one task of each held by a worker, one task waiting, one task cancelled while it runs.
\<close>

definition demo_limits :: OperationQueueLimits where
  "demo_limits = \<lparr>lim_workers = 2, lim_queuedPerKey = 2, lim_residentBytes = 2048\<rparr>"

definition demo_work :: "string \<Rightarrow> nat \<Rightarrow> nat \<Rightarrow> Work" where
  "demo_work key bytes deadline = \<lparr>w_key = key, w_bytes = bytes, w_deadline = deadline\<rparr>"

definition demo_actions :: "action list" where
  "demo_actions = [Submit 0 (demo_work ''a'' 300 10), Submit 0 (demo_work ''a'' 10 20),
     Submit 0 (demo_work ''b'' 0 5), Take 1, Take 1, Submit 2 (demo_work ''a'' 0 9), Cancel 1]"

definition demo_queue :: Queue where
  "demo_queue = the (case make_queue demo_limits of None \<Rightarrow> None | Some q \<Rightarrow> run_actions demo_actions q)"

end
