(* ===== verification/Operation_Queue_Correct.thy ===== *)
theory Operation_Queue_Correct
  imports Operation_Queue
begin

text \<open>
  The invariant of the operation queue is kept by every critical section, so it holds in every
  interleaving; the contract of \<open>operation_queue.h\<close> (one active task per key, bounded
  admission, exact accounting, no lost or repeated answer, no lost wake-up) follows from it.
\<close>

section \<open>Preservation\<close>

named_theorems log_simps

lemma handled_simps [log_simps]:
  "handled [] i = False"
  "handled (a @ b) i \<longleftrightarrow> handled a i \<or> handled b i"
  "handled [Ran j k] i \<longleftrightarrow> j = i"
  "handled [Failed j r m] i \<longleftrightarrow> j = i"
  by (auto simp: handled_def)

lemma refusals_simps [log_simps]:
  "refusals [] i = []"
  "refusals (a @ b) i = refusals a i @ refusals b i"
  "refusals [Ran j k] i = []"
  "refusals [Failed j r m] i = (if j = i \<and> r \<noteq> Exception then [Failed j r m] else [])"
  by (auto simp: refusals_def)

lemma runs_simps [log_simps]:
  "runs [] key = []"
  "runs (a @ b) key = runs a key @ runs b key"
  "runs [Ran j k] key = (if k = key then [j] else [])"
  "runs [Failed j r m] key = []"
  by (auto simp: runs_def)

lemma set_deadline_emplace [simp]: "set (deadline_emplace d i ds) = insert (d, i) (set ds)"
  by (induction d i ds rule: deadline_emplace.induct) auto

lemma sorted_deadline_emplace:
  "sorted (map fst ds) \<Longrightarrow> sorted (map fst (deadline_emplace d i ds))"
  by (induction d i ds rule: deadline_emplace.induct) auto

lemma distinct_deadline_emplace:
  "distinct (map snd ds) \<Longrightarrow> i \<notin> snd ` set ds \<Longrightarrow> distinct (map snd (deadline_emplace d i ds))"
  by (induction d i ds rule: deadline_emplace.induct) auto

lemma weigh_simps [simp]: "weigh f None = 0" "weigh f (Some t) = f t"
  by (simp_all add: weigh_def)

lemma total_upd:
  assumes "1 \<le> i" "i \<le> n"
  shows "total n (ts(i := x)) f + weigh f (ts i) = total n ts f + weigh f x"
proof -
  have i: "i \<in> {1..n}" using assms by simp
  have "total n ts f = weigh f (ts i) + (\<Sum>j \<in> {1..n} - {i}. weigh f (ts j))" for ts
    unfolding total_def weigh_def using i by (simp add: sum.remove)
  note this[of ts] this[of "ts(i := x)"]
  moreover have "(\<Sum>j \<in> {1..n} - {i}. weigh f ((ts(i := x)) j)) = (\<Sum>j \<in> {1..n} - {i}. weigh f (ts j))"
    by (rule sum.cong) auto
  ultimately show ?thesis by simp
qed

lemma total_new: "total (Suc n) (ts(Suc n := Some t)) f = total n ts f + f t"
proof -
  have "(\<Sum>i = 1..n. case (ts(Suc n := Some t)) i of None \<Rightarrow> 0 | Some t \<Rightarrow> f t)
      = (\<Sum>i = 1..n. case ts i of None \<Rightarrow> 0 | Some t \<Rightarrow> f t)"
    by (rule sum.cong) auto
  then show ?thesis by (simp add: total_def)
qed

lemma total_cong:
  "(\<And>i. weigh f (ts i) = weigh g (us i)) \<Longrightarrow> total n ts f = total n us g"
  unfolding total_def weigh_def by (rule sum.cong) auto

lemma total_ge: 
  assumes "1 \<le> i" "i \<le> n" "ts i = Some t"
  shows "f t \<le> total n ts f"
  using total_upd[OF assms(1,2), of ts None f] assms(3) by simp

text \<open>The parts of the invariant as rules.\<close>

lemma queue_invI:
  assumes "\<And>i t. q_tasks q i = Some t \<Longrightarrow> task_ok q i t"
    and "\<And>key lane. q_lanes q key = Some lane \<Longrightarrow> lane_ok q key lane"
    and "exclusive q" "runnable_ok q" "deadlines_ok q" "held_ok q" "counts_ok q" "history_ok q"
  shows "queue_inv q"
  using assms by (simp add: queue_inv_def)

lemma queue_invD:
  assumes "queue_inv q"
  shows "q_tasks q i = Some t \<Longrightarrow> task_ok q i t"
    and "q_lanes q key = Some lane \<Longrightarrow> lane_ok q key lane"
    and "exclusive q" "runnable_ok q" "deadlines_ok q" "held_ok q" "counts_ok q" "history_ok q"
  using assms by (simp_all add: queue_inv_def)

lemma historyI:
  assumes "\<And>i. 1 \<le> i \<Longrightarrow> i \<le> q_nextId q \<Longrightarrow> \<not> handled (q_log q) i \<Longrightarrow>
      \<exists>t. q_tasks q i = Some t \<and> \<not> t_active t \<and> \<not> t_failed t"
    and "\<And>i. q_nextId q < i \<Longrightarrow> \<not> handled (q_log q) i"
    and "\<And>i t. q_tasks q i = Some t \<Longrightarrow> \<not> t_failed t \<Longrightarrow> refusals (q_log q) i = []"
    and "\<And>i. 1 \<le> i \<Longrightarrow> length (refusals (q_log q) i) \<le> 1"
    and "\<And>i t key. q_tasks q i = Some t \<Longrightarrow> \<not> t_active t \<Longrightarrow> i \<notin> set (runs (q_log q) key)"
    and "\<And>i t j. q_tasks q i = Some t \<Longrightarrow> \<not> t_active t \<Longrightarrow>
      j \<in> set (runs (q_log q) (w_key (t_work t))) \<Longrightarrow> j < i"
    and "\<And>key. sorted_wrt (<) (runs (q_log q) key)"
  shows "history_ok q"
  using assms unfolding history_ok_def by blast

lemma historyD:
  assumes "history_ok q"
  shows "1 \<le> i \<Longrightarrow> i \<le> q_nextId q \<Longrightarrow> \<not> handled (q_log q) i \<Longrightarrow>
      \<exists>t. q_tasks q i = Some t \<and> \<not> t_active t \<and> \<not> t_failed t"
    and "q_nextId q < i \<Longrightarrow> \<not> handled (q_log q) i"
    and "q_tasks q i = Some t \<Longrightarrow> \<not> t_failed t \<Longrightarrow> refusals (q_log q) i = []"
    and "1 \<le> i \<Longrightarrow> length (refusals (q_log q) i) \<le> 1"
    and "q_tasks q i = Some t \<Longrightarrow> \<not> t_active t \<Longrightarrow> i \<notin> set (runs (q_log q) key)"
    and "q_tasks q i = Some t \<Longrightarrow> \<not> t_active t \<Longrightarrow>
      j \<in> set (runs (q_log q) (w_key (t_work t))) \<Longrightarrow> j < i"
    and "sorted_wrt (<) (runs (q_log q) key)"
  using assms unfolding history_ok_def by blast+

lemma lane_ok_frame:
  assumes "lane_ok q key lane" "q_limits q' = q_limits q"
    and keep: "\<And>i t. q_tasks q i = Some t \<Longrightarrow> w_key (t_work t) = key \<Longrightarrow>
      \<exists>t'. q_tasks q' i = Some t' \<and> t_active t' = t_active t \<and> w_key (t_work t') = key"
  shows "lane_ok q' key lane"
proof -
  have "\<exists>i t. q_tasks q' i = Some t \<and> t_active t \<and> w_key (t_work t) = key"
    if "q_tasks q i = Some t" "t_active t" "w_key (t_work t) = key" for i t
    using keep[OF that(1,3)] that(2) by auto
  moreover have "\<exists>t. q_tasks q' i = Some t \<and> \<not> t_active t \<and> w_key (t_work t) = key"
    if "q_tasks q i = Some t" "\<not> t_active t" "w_key (t_work t) = key" for i t
    using keep[OF that(1,3)] that(2) by auto
  ultimately show ?thesis using assms(1,2) unfolding lane_ok_def by metis
qed

lemma history_refuse:
  assumes hist: "history_ok q" and task: "q_tasks q i = Some t" "\<not> t_failed t"
    and i: "1 \<le> i" "i \<le> q_nextId q"
    and log: "q_log q' = q_log q @ [Failed i r m]" and n: "q_nextId q' = q_nextId q"
    and other: "\<And>j. j \<noteq> i \<Longrightarrow> q_tasks q' j = q_tasks q j"
    and self: "\<And>u. q_tasks q' i = Some u \<Longrightarrow> t_failed u \<and> (t_active u \<or>
      \<not> t_active t \<and> w_key (t_work u) = w_key (t_work t))"
  shows "history_ok q'"
proof (rule historyI)
  note h = historyD[OF hist]
  fix j key
  show "1 \<le> j \<Longrightarrow> length (refusals (q_log q') j) \<le> 1"
    using h(3)[OF task] h(4)[of j] by (auto simp: log log_simps)
  show "sorted_wrt (<) (runs (q_log q') key)"
    using h(7)[of key] by (auto simp: log log_simps)
  show "q_nextId q' < j \<Longrightarrow> \<not> handled (q_log q') j"
    using h(2)[of j] i n by (auto simp: log log_simps)
  show "\<exists>t. q_tasks q' j = Some t \<and> \<not> t_active t \<and> \<not> t_failed t"
    if "1 \<le> j" "j \<le> q_nextId q'" "\<not> handled (q_log q') j"
    using h(1)[of j] that other n by (auto simp: log log_simps)
next
  note h = historyD[OF hist]
  fix j u assume a: "q_tasks q' j = Some u"
  show "refusals (q_log q') j = []" if "\<not> t_failed u"
    using h(3)[of j u] a that other[of j] self by (cases "j = i") (auto simp: log log_simps)
  assume n: "\<not> t_active u"
  show "j \<notin> set (runs (q_log q') key)" for key
    using h(5)[of j] a n other[of j] self task by (cases "j = i") (auto simp: log log_simps)
  show "k < j" if "k \<in> set (runs (q_log q') (w_key (t_work u)))" for k
    using h(6)[of j _ k] a n that other[of j] self task by (cases "j = i") (auto simp: log log_simps)
qed

lemma history_run:
  assumes hist: "history_ok q" and task: "q_tasks q i = Some t" "\<not> t_active t" "w_key (t_work t) = key"
    and i: "1 \<le> i" "i \<le> q_nextId q"
    and log: "q_log q' = q_log q @ [Ran i key]" and n: "q_nextId q' = q_nextId q"
    and other: "\<And>j. j \<noteq> i \<Longrightarrow> q_tasks q' j = q_tasks q j"
    and self: "\<And>u. q_tasks q' i = Some u \<Longrightarrow> t_active u \<and> t_failed u = t_failed t"
    and first: "\<And>j u. q_tasks q j = Some u \<Longrightarrow> w_key (t_work u) = key \<Longrightarrow> j \<noteq> i \<Longrightarrow> i < j"
  shows "history_ok q'"
proof (rule historyI)
  note h = historyD[OF hist]
  fix j key'
  show "1 \<le> j \<Longrightarrow> length (refusals (q_log q') j) \<le> 1"
    using h(4)[of j] by (auto simp: log log_simps)
  show "sorted_wrt (<) (runs (q_log q') key')"
    using h(7)[of key'] h(6)[OF task(1,2)] task by (auto simp: log log_simps sorted_wrt_append)
  show "q_nextId q' < j \<Longrightarrow> \<not> handled (q_log q') j"
    using h(2)[of j] i n by (auto simp: log log_simps)
  show "\<exists>t. q_tasks q' j = Some t \<and> \<not> t_active t \<and> \<not> t_failed t"
    if "1 \<le> j" "j \<le> q_nextId q'" "\<not> handled (q_log q') j"
    using h(1)[of j] that other n by (auto simp: log log_simps)
next
  note h = historyD[OF hist]
  fix j u assume a: "q_tasks q' j = Some u"
  show "refusals (q_log q') j = []" if "\<not> t_failed u"
    using h(3)[of j] a that other[of j] self task by (cases "j = i") (auto simp: log log_simps)
  assume "\<not> t_active u"
  then have "j \<noteq> i" using a self by blast
  with \<open>\<not> t_active u\<close> a other have j: "j \<noteq> i" "q_tasks q j = Some u" "\<not> t_active u" by simp_all
  show "j \<notin> set (runs (q_log q') key)" for key
    using h(5)[OF j(2,3)] j(1) by (auto simp: log log_simps)
  show "k < j" if "k \<in> set (runs (q_log q') (w_key (t_work u)))" for k
    using h(6)[OF j(2,3)] that first[OF j(2) _ j(1)] by (auto simp: log log_simps split: if_splits)
qed

lemma history_drop:
  assumes hist: "history_ok q" and task: "q_tasks q i = Some t" "t_active t"
    and i: "1 \<le> i" "i \<le> q_nextId q"
    and log: "q_log q' = q_log q @ (case thrown of None \<Rightarrow> [] | Some m \<Rightarrow> [Failed i Exception m])"
    and n: "q_nextId q' = q_nextId q"
    and tasks: "q_tasks q' = (q_tasks q)(i := None)"
  shows "history_ok q'"
  using i by (intro historyI; insert historyD[OF hist] task;
      fastforce simp: log n tasks log_simps split: option.splits if_splits)

lemma lane_ok_push:
  assumes lok: "lane_ok q key lane" and t: "\<not> t_active t" "w_key (t_work t) = key"
    and room: "length (l_queue lane) < lim_queuedPerKey (q_limits q)" and fresh: "q_tasks q n = None"
    and tasks: "q_tasks q' = (q_tasks q)(n \<mapsto> t)" and lim: "q_limits q' = q_limits q"
    and old: "\<And>j u. q_tasks q j = Some u \<Longrightarrow> j < n"
  shows "lane_ok q' key (lane\<lparr>l_queue := l_queue lane @ [n]\<rparr>)"
proof -
  have "lane_ok q' key lane"
    using lok lim by (rule lane_ok_frame) (use fresh in \<open>auto simp: tasks\<close>)
  moreover have "j < n" if "j \<in> set (l_queue lane)" for j
    using lok that old by (auto simp: lane_ok_def)
  ultimately show ?thesis using room t
    by (auto simp: lane_ok_def sorted_wrt_append lim tasks)
qed

lemma lane_ok_drop:
  assumes lok: "lane_ok q key lane" and t: "q_tasks q i = Some t" "\<not> t_active t"
    and tasks: "q_tasks q' = (q_tasks q)(i := None)" and lim: "q_limits q' = q_limits q"
  shows "lane_ok q' key (lane\<lparr>l_queue := remove1 i (l_queue lane)\<rparr>)"
proof -
  have "distinct (l_queue lane)" using lok by (simp add: lane_ok_def strict_sorted_iff)
  then have rest: "set (remove1 i (l_queue lane)) = set (l_queue lane) - {i}" by simp
  have "\<exists>j t. q_tasks q' j = Some t \<and> t_active t \<and> w_key (t_work t) = key" if act: "l_active lane"
  proof -
    obtain j u where "q_tasks q j = Some u" "t_active u" "w_key (t_work u) = key"
      using lok act unfolding lane_ok_def by blast
    with t show ?thesis by (intro exI[of _ j] exI[of _ u]) (auto simp: tasks)
  qed
  then show ?thesis using lok sorted_wrt_remove1[of "(<)" "l_queue lane" i]
    by (auto simp: lane_ok_def rest tasks lim length_remove1)
qed

lemma take_inv:
  assumes inv: "queue_inv q" and idle: "length (q_held q) < lim_workers (q_limits q)"
    and run: "q_runnable q = key # rest" and lane: "q_lanes q key = Some lane"
    and queue: "l_queue lane = i # ids" and task: "q_tasks q i = Some task"
    and past: "past = (w_deadline (t_work task) \<le> now)" and live: "\<not> q_stopped q"
    and q': "q' = q\<lparr> q_runnable := rest,
                        q_lanes := (q_lanes q)(key \<mapsto>
                          lane\<lparr>l_ready := False, l_active := True, l_queue := ids\<rparr>),
                        q_tasks := (q_tasks q)(i \<mapsto>
                          task\<lparr>t_active := True, t_failed := t_failed task \<or> past\<rparr>),
                        q_counts := (q_counts q)\<lparr>st_queued := st_queued (q_counts q) - 1,
                          st_running := st_running (q_counts q) + 1,
                          st_expired := st_expired (q_counts q) + (if past then 1 else 0)\<rparr>,
                        q_held := q_held q @ [i],
                        q_log := q_log q @
                          [if past then Failed i Deadline
                             ''total operation deadline exceeded before dispatch''
                           else Ran i key]\<rparr>"
  shows "queue_inv q'"
proof (rule queue_invI)
  have lok: "lane_ok q key lane" using inv lane by (rule queue_invD)
  have tok: "task_ok q i task" using inv task by (rule queue_invD)
  have dist: "distinct (i # ids)" using lok queue by (auto simp: lane_ok_def strict_sorted_iff)
  have fresh: "\<not> t_active task" "w_key (t_work task) = key" "\<not> t_failed task"
    using lok tok queue task live by (auto simp: lane_ok_def task_ok_def)
  have held: "i \<notin> set (q_held q)" using tok fresh by (simp add: task_ok_def)
  have "key \<in> set (q_runnable q)" using run by simp
  with queue_invD(4)[OF inv] lane have "l_ready lane" by (simp add: runnable_ok_def)
  with lok have ready: "l_ready lane" "\<not> l_active lane" by (simp_all add: lane_ok_def)
  have none: "\<not> t_active t" if "q_tasks q j = Some t" "w_key (t_work t) = key" for j t
    using queue_invD(1)[OF inv that(1)] that lane ready by (auto simp: task_ok_def)
  { fix j t assume a: "q_tasks q' j = Some t"
    show "task_ok q' j t"
    proof (cases "j = i")
      case True
      then show ?thesis using a tok fresh live by (auto simp: q' task_ok_def)
    next
      case False
      then have "q_tasks q j = Some t" using a by (simp add: q')
      then show ?thesis using False queue_invD(1)[OF inv, of j t] lane queue
        by (auto simp: q' task_ok_def)
    qed }
  { fix k l assume a: "q_lanes q' k = Some l"
    show "lane_ok q' k l"
    proof (cases "k = key")
      case True
      then show ?thesis using a lok queue fresh dist by (auto simp: q' lane_ok_def)
    next
      case False
      then have "q_lanes q k = Some l" using a by (simp add: q')
      from queue_invD(2)[OF inv this] show ?thesis
        by (rule lane_ok_frame) (use False task fresh in \<open>auto simp: q'\<close>)
    qed }
  show "exclusive q'" using queue_invD(3)[OF inv] none fresh
    by (auto simp: q' exclusive_def)
  show "runnable_ok q'" using queue_invD(4)[OF inv] run
    by (auto simp: q' runnable_ok_def)
  show "deadlines_ok q'" using queue_invD(5)[OF inv] task
    by (fastforce simp: q' deadlines_ok_def)
  show "held_ok q'" using queue_invD(6)[OF inv] held idle
    by (auto simp: q' held_ok_def)
  have b: "1 \<le> i" "i \<le> q_nextId q" using tok by (auto simp: task_ok_def)
  note u = total_upd[OF b, of "q_tasks q" "Some (task\<lparr>t_active := True, t_failed := t_failed task \<or> past\<rparr>)"]
  show "counts_ok q'" using queue_invD(7)[OF inv] task fresh u[of "\<lambda>t. of_bool (\<not> t_active t)"]
      u[of "\<lambda>t. of_bool (t_active t)"] u[of t_charge]
    by (simp add: q' counts_ok_def Let_def) 
  show "history_ok q'"
  proof (cases past)
    case True
    show ?thesis
      by (rule history_refuse[OF queue_invD(8)[OF inv] task fresh(3)])
        (use True b in \<open>auto simp: q'\<close>)
  next
    case False
    have "i < j" if "q_tasks q j = Some t" "w_key (t_work t) = key" "j \<noteq> i" for j t
      using queue_invD(1)[OF inv that(1)] none[OF that(1,2)] that lane lok queue
      by (auto simp: task_ok_def lane_ok_def)
    then show ?thesis
      by (intro history_run[OF queue_invD(8)[OF inv] task fresh(1) fresh(2)])
        (use False b in \<open>auto simp: q' fresh\<close>)
  qed
qed
lemma set_deadline_erase: "set (deadline_erase i ds) = {e \<in> set ds. snd e \<noteq> i}"
  by (auto simp: deadline_erase_def)

lemma deadlines_head:
  "deadlines_ok q \<Longrightarrow> q_deadlines q = (d, i) # rest \<Longrightarrow> rest = deadline_erase i (q_deadlines q)"
  unfolding deadlines_ok_def deadline_erase_def
  by (auto simp: image_iff intro!: filter_True[symmetric])

lemma deadlines_erase_ok:
  assumes "deadlines_ok q" "q_deadlines q' = deadline_erase i (q_deadlines q)"
    and "\<And>j. j \<noteq> i \<Longrightarrow> q_tasks q' j = q_tasks q j"
  shows "deadlines_ok q'"
  using assms unfolding deadlines_ok_def
  by (auto simp: set_deadline_erase deadline_erase_def distinct_map_snd_filter sorted_map_filter)

lemma task_ok_frame:
  assumes "task_ok q i t" "q_nextId q' = q_nextId q" "q_lanes q' = q_lanes q" "q_stopped q' = q_stopped q"
    and "i \<in> set (q_held q') \<longleftrightarrow> i \<in> set (q_held q)"
    and "\<And>d. (d, i) \<in> set (q_deadlines q) \<Longrightarrow> (d, i) \<in> set (q_deadlines q')"
  shows "task_ok q' i t"
  using assms by (auto simp: task_ok_def)

text \<open>A task a worker holds is marked failed or loses its timer.\<close>

lemma mark_active_inv:
  assumes inv: "queue_inv q" and task: "q_tasks q i = Some t" "t_active t"
    and t': "t' = t\<lparr>t_failed := True, t_timed := False\<rparr>"
    and q': "q' = q\<lparr>q_deadlines := deadline_erase i (q_deadlines q),
        q_tasks := (q_tasks q)(i \<mapsto> t'), q_counts := c', q_log := log'\<rparr>"
    and c': "\<exists>e x. c' = (q_counts q)\<lparr>st_expired := e, st_cancelled := x\<rparr>"
    and log': "t_failed t \<and> log' = q_log q \<or> \<not> t_failed t \<and> (\<exists>r m. log' = q_log q @ [Failed i r m])"
  shows "queue_inv q'"
proof (rule queue_invI)
  have tok: "task_ok q i t" using inv task(1) by (rule queue_invD)
  then have b: "1 \<le> i" "i \<le> q_nextId q" by (auto simp: task_ok_def)
  { fix j u assume a: "q_tasks q' j = Some u"
    show "task_ok q' j u"
    proof (cases "j = i")
      case True
      then show ?thesis using a tok task by (auto simp: q' t' task_ok_def)
    next
      case False
      then have "q_tasks q j = Some u" using a by (simp add: q')
      from queue_invD(1)[OF inv this] show ?thesis
        by (rule task_ok_frame) (use False in \<open>auto simp: q' set_deadline_erase\<close>)
    qed }
  { fix k l assume "q_lanes q' k = Some l"
    then have "q_lanes q k = Some l" by (simp add: q')
    from queue_invD(2)[OF inv this] show "lane_ok q' k l"
      by (rule lane_ok_frame) (use task in \<open>auto simp: q' t'\<close>) }
  show "exclusive q'" using queue_invD(3)[OF inv] task
    by (auto simp: q' t' exclusive_def)
  show "runnable_ok q'" using queue_invD(4)[OF inv] by (simp add: q' runnable_ok_def)
  show "deadlines_ok q'" by (rule deadlines_erase_ok[OF queue_invD(5)[OF inv]]) (auto simp: q')
  show "held_ok q'" using queue_invD(6)[OF inv] by (auto simp: q' held_ok_def)
  note u = total_upd[OF b, of "q_tasks q" "Some t'"]
  show "counts_ok q'" using queue_invD(7)[OF inv] task u[of "\<lambda>t. of_bool (\<not> t_active t)"]
      u[of "\<lambda>t. of_bool (t_active t)"] u[of t_charge] c'
    by (auto simp: q' t' counts_ok_def Let_def)
  show "history_ok q'" using log'
  proof (elim disjE conjE exE)
    assume "t_failed t" "log' = q_log q"
    then show ?thesis using historyD[OF queue_invD(8)[OF inv]] task
      by (intro historyI) (fastforce simp: q' t' split: if_splits)+
  next
    fix r m assume "\<not> t_failed t" "log' = q_log q @ [Failed i r m]"
    then show ?thesis by (intro history_refuse[OF queue_invD(8)[OF inv] task(1) _ b])
        (use task in \<open>auto simp: q' t'\<close>)
  qed
qed

text \<open>A queued task is refused and released.\<close>

lemma refuse_queued_inv:
  assumes inv: "queue_inv q" and task: "q_tasks q i = Some t" "\<not> t_active t" "\<not> t_failed t"
    and lane: "q_lanes q key = Some lane" and key: "key = w_key (t_work t)"
    and q': "q' = q\<lparr>q_deadlines := deadline_erase i (q_deadlines q),
        q_log := q_log q @ [Failed i r m],
        q_counts := (q_counts q)\<lparr>st_expired := e, st_cancelled := x,
          st_queued := st_queued (q_counts q) - 1,
          st_residentBytes := st_residentBytes (q_counts q) - t_charge t\<rparr>,
        q_tasks := (q_tasks q)(i := None),
        q_lanes := (q_lanes q)(key \<mapsto> lane\<lparr>l_queue := remove1 i (l_queue lane)\<rparr>)\<rparr>"
  shows "queue_inv q'"
proof (rule queue_invI)
  have tok: "task_ok q i t" using inv task(1) by (rule queue_invD)
  then have b: "1 \<le> i" "i \<le> q_nextId q" by (auto simp: task_ok_def)
  have lok: "lane_ok q key lane" using inv lane by (rule queue_invD)
  then have dist: "distinct (l_queue lane)" by (auto simp: lane_ok_def strict_sorted_iff)
  { fix j u assume a: "q_tasks q' j = Some u"
    then have j: "j \<noteq> i" "q_tasks q j = Some u" by (auto simp: q' split: if_splits)
    show "task_ok q' j u" using queue_invD(1)[OF inv j(2)] j(1) lane
      by (auto simp: q' task_ok_def set_deadline_erase) }
  { fix k l assume a: "q_lanes q' k = Some l"
    show "lane_ok q' k l"
    proof (cases "k = key")
      case True
      then show ?thesis using a lane_ok_drop[OF lok task(1,2), of q'] by (simp add: q')
    next
      case False
      then have "q_lanes q k = Some l" using a by (simp add: q')
      from queue_invD(2)[OF inv this] show ?thesis
        by (rule lane_ok_frame) (use False key task in \<open>auto simp: q'\<close>)
    qed }
  show "exclusive q'" using queue_invD(3)[OF inv] by (auto simp: q' exclusive_def)
  show "runnable_ok q'" using queue_invD(4)[OF inv] lane by (auto simp: q' runnable_ok_def)
  show "deadlines_ok q'" by (rule deadlines_erase_ok[OF queue_invD(5)[OF inv]]) (auto simp: q')
  show "held_ok q'" using queue_invD(6)[OF inv] tok task by (auto simp: q' held_ok_def task_ok_def)
  note u = total_upd[OF b, of "q_tasks q" None]
  show "counts_ok q'" using queue_invD(7)[OF inv] task u[of "\<lambda>t. of_bool (\<not> t_active t)"]
      u[of "\<lambda>t. of_bool (t_active t)"] u[of t_charge]
    by (auto simp: q' counts_ok_def Let_def)
  show "history_ok q'"
    by (rule history_refuse[OF queue_invD(8)[OF inv] task(1,3) b]) (auto simp: q')
qed

lemma finish_inv:
  assumes inv: "queue_inv q" and held: "i \<in> set (q_held q)"
    and fin: "worker_finish i thrown q = Some q'"
  shows "queue_inv q'"
proof -
  obtain t lane where task: "q_tasks q i = Some t" and lane: "q_lanes q (w_key (t_work t)) = Some lane"
    using fin by (auto simp: worker_finish_def split: option.splits)
  have tok: "task_ok q i t" using inv task(1) by (rule queue_invD)
  have lok: "lane_ok q (w_key (t_work t)) lane" using inv lane by (rule queue_invD)
  have act: "t_active t" using tok held by (simp add: task_ok_def)
  have la: "l_active lane" "\<not> l_ready lane" using tok lok lane act by (auto simp: task_ok_def lane_ok_def)
  have b: "1 \<le> i" "i \<le> q_nextId q" using tok by (auto simp: task_ok_def)
  have un: "i \<notin> snd ` set (q_deadlines q)" if "\<not> t_timed t"
    using that queue_invD(5)[OF inv] task by (fastforce simp: deadlines_ok_def)
  then have ds: "(if t_timed t then deadline_erase i (q_deadlines q) else q_deadlines q)
      = deadline_erase i (q_deadlines q)"
    unfolding deadline_erase_def by (auto simp: image_iff intro!: filter_True[symmetric])
  note q' = fin[unfolded worker_finish_def task option.case Let_def lane ds, simplified, symmetric]
  have d: "distinct (q_held q)" using queue_invD(6)[OF inv] by (simp add: held_ok_def)
  have mine: "j = i" if "q_tasks q j = Some u" "t_active u" "w_key (t_work u) = w_key (t_work t)" for j u
    using queue_invD(3)[OF inv] that task act unfolding exclusive_def by blast
  show ?thesis
  proof (rule queue_invI)
    { fix j u assume a: "q_tasks q' j = Some u"
      then have j: "j \<noteq> i" "q_tasks q j = Some u" 
         by (auto simp: q' ready_def split: if_splits)
      show "task_ok q' j u" using queue_invD(1)[OF inv j(2)] j lane mine[of j u] d
        by (auto simp: q' ready_def task_ok_def set_deadline_erase split: if_splits) }
    { fix k l assume a: "q_lanes q' k = Some l"
      show "lane_ok q' k l"
      proof (cases "k = w_key (t_work t)")
        case True
        then show ?thesis using a lok la act task
          by (fastforce simp: q' ready_def lane_ok_def split: if_splits)
      next
        case False
        then have "q_lanes q k = Some l" using a by (auto simp: q' ready_def split: if_splits)
        from queue_invD(2)[OF inv this] show ?thesis
          by (rule lane_ok_frame) (use False task in \<open>auto simp: q' ready_def\<close>)
      qed }
    show "exclusive q'" using queue_invD(3)[OF inv] by (auto simp: q' ready_def exclusive_def)
    show "runnable_ok q'" using queue_invD(4)[OF inv] lane la by (auto simp: q' ready_def runnable_ok_def)
    show "deadlines_ok q'" by (rule deadlines_erase_ok[OF queue_invD(5)[OF inv]]) (auto simp: q' ready_def)
    show "held_ok q'" using queue_invD(6)[OF inv] by (auto simp: q' ready_def held_ok_def length_remove1)
    note u = total_upd[OF b, of "q_tasks q" None]
    show "counts_ok q'" using queue_invD(7)[OF inv] task act held u[of "\<lambda>t. of_bool (\<not> t_active t)"]
        u[of "\<lambda>t. of_bool (t_active t)"] u[of t_charge]
      by (auto simp: q' la ready_def counts_ok_def Let_def length_remove1)
    show "history_ok q'"
      by (rule history_drop[OF queue_invD(8)[OF inv] task act b, where thrown = thrown])
        (auto simp: q' ready_def)
  qed
qed

lemma refusals_handled: "\<not> handled log i \<Longrightarrow> refusals log i = []"
  by (auto simp: handled_def refusals_def filter_empty_conv split: callback.splits)

lemma runs_handled: "i \<in> set (runs log key) \<Longrightarrow> handled log i"
  by (force simp: handled_def runs_def split: callback.splits if_splits)

lemma history_new:
  assumes hist: "history_ok q" and log: "q_log q' = q_log q" and n: "q_nextId q' = Suc (q_nextId q)"
    and tasks: "q_tasks q' = (q_tasks q)(Suc (q_nextId q) \<mapsto> t)"
    and t: "\<not> t_active t" "\<not> t_failed t"
  shows "history_ok q'"
proof (rule historyI)
  note h = historyD[OF hist]
  have new: "\<not> handled (q_log q) (Suc (q_nextId q))" using h(2) by simp
  fix i
  show "\<exists>t. q_tasks q' i = Some t \<and> \<not> t_active t \<and> \<not> t_failed t"
    if "1 \<le> i" "i \<le> q_nextId q'" "\<not> handled (q_log q') i"
    using h(1)[of i] that t by (cases "i = Suc (q_nextId q)") (auto simp: log n tasks)
  fix u assume u: "q_tasks q' i = Some u"
  show "refusals (q_log q') i = []" if "\<not> t_failed u"
    using h(3)[of i u] that u refusals_handled[OF new] by (auto simp: log tasks split: if_splits)
  assume a: "\<not> t_active u"
  show "i \<notin> set (runs (q_log q') key)" for key
    using h(5)[of i u] a u new runs_handled[of "Suc (q_nextId q)"]
    by (auto simp: log tasks split: if_splits)
  show "j < i" if j: "j \<in> set (runs (q_log q') (w_key (t_work u)))" for j
  proof (cases "i = Suc (q_nextId q)")
    case True
    have "j \<le> q_nextId q" using h(2)[of j] j runs_handled by (fastforce simp: log)
    then show ?thesis using True by simp
  next
    case False
    then show ?thesis using h(6)[of i u j] u a j by (simp add: log tasks)
  qed
qed (use historyD(2,4,7)[OF hist] in \<open>auto simp: log n\<close>)

text \<open>A callback for a rejected submission leaves the rest of the state alone.\<close>

lemma reject_inv:
  assumes inv: "queue_inv q"
    and q': "q' = q\<lparr>q_counts := (q_counts q)\<lparr>st_expired := e, st_overloaded := x\<rparr>,
      q_log := q_log q @ [Failed 0 r m]\<rparr>"
  shows "queue_inv q'"
proof (rule queue_invI)
  show "task_ok q' i t" if "q_tasks q' i = Some t" for i t
    using queue_invD(1)[OF inv, of i t] that by (auto simp: q' task_ok_def)
  show "lane_ok q' k l" if "q_lanes q' k = Some l" for k l
    using queue_invD(2)[OF inv, of k l] that by (auto simp: q' lane_ok_def)
  have pos: "1 \<le> i" if "q_tasks q i = Some t" for i t
    using queue_invD(1)[OF inv that] by (simp add: task_ok_def)
  note h = historyD[OF queue_invD(8)[OF inv]]
  show "history_ok q'"
  proof (rule historyI)
    show "refusals (q_log q') i = []" if "q_tasks q' i = Some t" "\<not> t_failed t" for i t
      using h(3)[of i t] pos[of i t] that by (simp add: q' log_simps)
    show "\<exists>t. q_tasks q' i = Some t \<and> \<not> t_active t \<and> \<not> t_failed t"
      if "1 \<le> i" "i \<le> q_nextId q'" "\<not> handled (q_log q') i" for i
      using h(1)[of i] that by (simp add: q' log_simps)
    show "j < i" if "q_tasks q' i = Some t" "\<not> t_active t"
      "j \<in> set (runs (q_log q') (w_key (t_work t)))" for i t j
      using h(6)[of i t j] that by (simp add: q' log_simps)
  qed (use h(2,4,5,7) in \<open>simp_all add: q' log_simps\<close>)
qed (use queue_invD[OF inv] in \<open>auto simp: q' exclusive_def runnable_ok_def deadlines_ok_def held_ok_def
      counts_ok_def Let_def\<close>)

lemma admit_inv:
  assumes inv: "queue_inv q" and live: "\<not> q_stopped q"
    and room: "lane_length q (w_key work) < lim_queuedPerKey (q_limits q)"
    and fits: "max (w_bytes work) 256 \<le> lim_residentBytes (q_limits q) - st_residentBytes (q_counts q)"
    and late: "now < w_deadline work"
  shows "queue_inv (snd (submit now work q))"
proof -
  define q' where "q' = snd (submit now work q)"
  define n where "n = Suc (q_nextId q)"
  define key where "key = w_key work"
  define lane where "lane = (case q_lanes q key of None \<Rightarrow> empty_lane | Some lane \<Rightarrow> lane)"
  define lane' where "lane' = lane\<lparr>l_ready := \<not> l_active lane, l_queue := l_queue lane @ [n]\<rparr>"
  have lok: "lane_ok q key lane" if "q_lanes q key \<noteq> None"
    using that queue_invD(2)[OF inv, of key] by (auto simp: lane_def)
  have ready: "l_ready lane \<longleftrightarrow> \<not> l_active lane \<and> q_lanes q key \<noteq> None"
    using lok by (cases "q_lanes q key") (auto simp: lane_ok_def lane_def empty_lane_def)
  have fresh: "q_tasks q n = None"
    using queue_invD(1)[OF inv, of n] by (cases "q_tasks q n") (auto simp: task_ok_def n_def)
  have old: "j < n" if "q_tasks q j = Some u" for j u
    using queue_invD(1)[OF inv that] by (auto simp: task_ok_def n_def)
  have q': "q' = q\<lparr>q_nextId := n,
      q_deadlines := deadline_emplace (w_deadline work) n (q_deadlines q),
      q_tasks := (q_tasks q)(n \<mapsto> fresh_task n work),
      q_runnable := q_runnable q @ (if \<not> l_active lane \<and> \<not> l_ready lane then [key] else []),
      q_lanes := (q_lanes q)(key \<mapsto> lane'),
      q_counts := (q_counts q)\<lparr>st_accepted := st_accepted (q_counts q) + 1,
        st_queued := st_queued (q_counts q) + 1,
        st_residentBytes := st_residentBytes (q_counts q) + max (w_bytes work) 256,
        st_peakBytes := max (st_peakBytes (q_counts q))
          (st_residentBytes (q_counts q) + max (w_bytes work) 256)\<rparr>\<rparr>"
  proof -
    have s: "q' = (ready key (lane\<lparr>l_queue := l_queue lane @ [n]\<rparr>) (q\<lparr>q_nextId := n,
      q_deadlines := deadline_emplace (w_deadline work) n (q_deadlines q),
      q_tasks := (q_tasks q)(n \<mapsto> fresh_task n work)\<rparr>))\<lparr>q_counts := (q_counts q)\<lparr>
        st_accepted := st_accepted (q_counts q) + 1,
        st_queued := st_queued (q_counts q) + 1,
        st_residentBytes := st_residentBytes (q_counts q) + max (w_bytes work) 256,
        st_peakBytes := max (st_peakBytes (q_counts q))
          (st_residentBytes (q_counts q) + max (w_bytes work) 256)\<rparr>\<rparr>"
      unfolding q'_def submit_def Let_def lane_def n_def key_def using live room fits late by simp
    show ?thesis
      by (cases lane; cases "l_active lane"; cases "l_ready lane")
        (use ready in \<open>simp_all add: s ready_def lane'_def\<close>)
  qed
  have "queue_inv q'"
  proof (rule queue_invI)
    { fix j u assume a: "q_tasks q' j = Some u"
      show "task_ok q' j u"
      proof (cases "j = n")
        case True
        moreover have "n \<notin> set (q_held q)" using fresh queue_invD(6)[OF inv] by (auto simp: held_ok_def)
        ultimately show ?thesis using a live by (auto simp: q' task_ok_def fresh_task_def lane'_def key_def n_def)
      next
        case False
        then have "q_tasks q j = Some u" using a by (simp add: q')
        from queue_invD(1)[OF inv this] show ?thesis
          by (auto simp: q' task_ok_def lane'_def lane_def n_def)
      qed }
    { fix k l assume a: "q_lanes q' k = Some l"
      show "lane_ok q' k l"
      proof (cases "k = key")
        case True
        have base: "lane_ok q key (lane\<lparr>l_ready := \<not> l_active lane\<rparr>)"
          using lok by (auto simp: lane_ok_def lane_def empty_lane_def split: option.splits)
        have "length (l_queue lane) < lim_queuedPerKey (q_limits q)"
          using room by (auto simp: lane_length_def lane_def key_def empty_lane_def split: option.splits)
        then have "lane_ok q' key lane'" unfolding lane'_def
          using lane_ok_push[OF base, of "fresh_task n work" n q'] fresh old
          by (simp add: q' fresh_task_def key_def)
        then show ?thesis using a True by (simp add: q')
      next
        case False
        then have "q_lanes q k = Some l" using a by (simp add: q')
        from queue_invD(2)[OF inv this] show ?thesis
          by (rule lane_ok_frame) (use fresh in \<open>auto simp: q'\<close>)
      qed }
    show "exclusive q'" using queue_invD(3)[OF inv] by (auto simp: q' exclusive_def fresh_task_def)
    show "runnable_ok q'" using queue_invD(4)[OF inv] ready
      by (cases "q_lanes q key") (auto simp: q' runnable_ok_def lane'_def lane_def empty_lane_def)
    show "deadlines_ok q'"
      using queue_invD(5)[OF inv] fresh unfolding deadlines_ok_def
      by (auto simp: q' sorted_deadline_emplace fresh_task_def intro!: distinct_deadline_emplace)
    show "held_ok q'" using queue_invD(6)[OF inv] by (auto simp: q' held_ok_def)
    show "counts_ok q'" using queue_invD(7)[OF inv] fits
      by (auto simp: q' n_def counts_ok_def Let_def total_new fresh_task_def)
    show "history_ok q'"
      by (rule history_new[OF queue_invD(8)[OF inv]]) (auto simp: q' n_def fresh_task_def)
  qed
  then show ?thesis by (simp add: q'_def)
qed

lemma failed_list [log_simps]:
  "handled (map (\<lambda>i. Failed i r m) xs) i \<longleftrightarrow> i \<in> set xs"
  "runs (map (\<lambda>i. Failed i r m) xs) key = []"
  by (auto simp: handled_def runs_def)

lemma refusals_list [log_simps]:
  assumes "distinct xs" "r \<noteq> Exception"
  shows "refusals (map (\<lambda>i. Failed i r m) xs) i = (if i \<in> set xs then [Failed i r m] else [])"
  using assms filter_eq_distinct[OF assms(1), of i]
  by (auto simp: refusals_def filter_map comp_def)

lemma stop_mark_inv:
  assumes inv: "queue_inv q"
  shows "queue_inv (stop_mark q)"
proof (cases "q_stopped q")
  case True
  then show ?thesis using inv by (simp add: stop_mark_def)
next
  case False
  define q' where "q' = stop_mark q"
  note q' = q'_def[unfolded stop_mark_def] False
  have tasks: "q_tasks q' i = map_option (\<lambda>t. t\<lparr>t_failed := True\<rparr>) (q_tasks q i)" for i
    by (simp add: q')
  have "queue_inv q'"
  proof (rule queue_invI)
    show "task_ok q' i t" if "q_tasks q' i = Some t" for i t
      using that queue_invD(1)[OF inv, of i] by (auto simp: q' task_ok_def)
    show "lane_ok q' k l" if "q_lanes q' k = Some l" for k l
    proof -
      have "lane_ok q k l" using that queue_invD(2)[OF inv] by (simp add: q')
      then show ?thesis by (rule lane_ok_frame) (auto simp: q')
    qed
    show "exclusive q'" using queue_invD(3)[OF inv] unfolding exclusive_def by (auto simp: tasks)
    show "runnable_ok q'" using queue_invD(4)[OF inv] by (simp add: q' runnable_ok_def)
    show "deadlines_ok q'" using queue_invD(5)[OF inv] unfolding deadlines_ok_def
      by (fastforce simp: q')
    show "held_ok q'" using queue_invD(6)[OF inv] by (simp add: q' held_ok_def)
    have "total n (q_tasks q') f = total n (q_tasks q) f" if "\<And>t. f (t\<lparr>t_failed := True\<rparr>) = f t" for n f
      by (rule total_cong) (simp add: tasks weigh_def that split: option.split)
    then show "counts_ok q'" using queue_invD(7)[OF inv] by (simp add: q' counts_ok_def Let_def)
    note h = historyD[OF queue_invD(8)[OF inv]]
    show "history_ok q'"
    proof (rule historyI)
      fix i
      let ?p = "case q_tasks q i of None \<Rightarrow> False | Some t \<Rightarrow> \<not> t_failed t"
      have r: "refusals (q_log q) i = []" if ?p using h(3) that by (auto split: option.splits)
      show "length (refusals (q_log q') i) \<le> 1" if "1 \<le> i"
        using h(4)[OF that] r by (auto simp: q' log_simps)
      show "\<exists>t. q_tasks q' i = Some t \<and> \<not> t_active t \<and> \<not> t_failed t"
        if "1 \<le> i" "i \<le> q_nextId q'" "\<not> handled (q_log q') i"
        using h(1)[of i] that by (auto simp: q' log_simps)
      show "\<not> handled (q_log q') i" if "q_nextId q' < i"
        using h(2)[of i] that by (auto simp: q' log_simps)
      fix t assume t: "q_tasks q' i = Some t"
      show "refusals (q_log q') i = []" if "\<not> t_failed t" using that t by (auto simp: tasks)
      obtain u where u: "q_tasks q i = Some u" "t = u\<lparr>t_failed := True\<rparr>" using t by (auto simp: tasks)
      assume a: "\<not> t_active t"
      show "i \<notin> set (runs (q_log q') key)" for key using h(5)[OF u(1)] a u(2) by (simp add: q' log_simps)
      show "j < i" if "j \<in> set (runs (q_log q') (w_key (t_work t)))" for j
        using h(6)[OF u(1)] a u(2) that by (simp add: q' log_simps)
    next
      show "sorted_wrt (<) (runs (q_log q') key)" for key using h(7) by (simp add: q' log_simps)
    qed
  qed
  then show ?thesis by (simp add: q'_def)
qed

lemma stop_clear_inv:
  assumes inv: "queue_inv q" and "q_stopped q" "q_held q = []"
  shows "queue_inv (stop_clear q)"
proof -
  have gone: "handled (q_log q) i" if "1 \<le> i" "i \<le> q_nextId q" for i
    using historyD(1)[OF queue_invD(8)[OF inv] that] queue_invD(1)[OF inv, of i] assms(2)
    by (auto simp: task_ok_def)
  have "history_ok (stop_clear q)"
    using historyD(2,4,7)[OF queue_invD(8)[OF inv]] gone
    by (intro historyI) (auto simp: stop_clear_def)
  then show ?thesis using assms queue_invD(7)[OF inv]
    by (auto simp: queue_inv_def stop_clear_def exclusive_def runnable_ok_def deadlines_ok_def
        held_ok_def counts_ok_def Let_def total_def)
qed

lemma submit_inv:
  assumes inv: "queue_inv q"
  shows "queue_inv (snd (submit now work q))"
proof -
  let ?c = "q_counts q"
  consider "q_stopped q" | "\<not> q_stopped q" "w_deadline work \<le> now"
    | "\<not> q_stopped q" "\<not> w_deadline work \<le> now"
      "lane_length q (w_key work) < lim_queuedPerKey (q_limits q)"
      "max (w_bytes work) 256 \<le> lim_residentBytes (q_limits q) - st_residentBytes ?c"
    | "\<not> q_stopped q" "\<not> w_deadline work \<le> now"
      "\<not> (lane_length q (w_key work) < lim_queuedPerKey (q_limits q)
         \<and> max (w_bytes work) 256 \<le> lim_residentBytes (q_limits q) - st_residentBytes ?c)"
    by blast
  then show ?thesis
  proof cases
    case 1
    then show ?thesis
      by (intro reject_inv[OF inv, where e = "st_expired ?c" and x = "st_overloaded ?c"])
        (simp add: submit_def Let_def)
  next
    case 2
    then show ?thesis
      by (intro reject_inv[OF inv, where e = "st_expired ?c + 1" and x = "st_overloaded ?c"])
        (simp add: submit_def Let_def)
  next
    case 3
    then show ?thesis by (intro admit_inv[OF inv]) simp_all
  next
    case 4
    then show ?thesis
      by (intro reject_inv[OF inv, where e = "st_expired ?c" and x = "st_overloaded ?c + 1"])
        (simp only: submit_def Let_def if_False snd_conv, simp)
  qed
qed

lemma take_total:
  assumes inv: "queue_inv q" and idle: "length (q_held q) < lim_workers (q_limits q)"
  shows "\<exists>q'. worker_take now q = Some q' \<and> queue_inv q'"
proof -
  consider "q_stopped q \<or> q_runnable q = []"
    | key rest where "\<not> q_stopped q" "q_runnable q = key # rest"
    by (cases "q_runnable q") auto
  then show ?thesis
  proof cases
    case 1
    then show ?thesis using inv by (auto simp: worker_take_def split: list.splits)
  next
    case 2
    then obtain lane where lane: "q_lanes q key = Some lane" "l_ready lane"
      using queue_invD(4)[OF inv] by (auto simp: runnable_ok_def)
    have lok: "lane_ok q key lane" using inv lane(1) by (rule queue_invD)
    show ?thesis
    proof (cases "l_queue lane")
      case Nil
      define q' where "q' = q\<lparr>q_runnable := rest, q_lanes := (q_lanes q)(key := None)\<rparr>"
      have none: "w_key (t_work t) \<noteq> key" if "q_tasks q i = Some t" for i t
        using queue_invD(1)[OF inv that] lane lok Nil by (auto simp: task_ok_def lane_ok_def)
      have "queue_inv q'"
      proof (rule queue_invI)
        show "task_ok q' i t" if "q_tasks q' i = Some t" for i t
          using queue_invD(1)[OF inv, of i t] none[of i t] that by (auto simp: q'_def task_ok_def)
        show "lane_ok q' k l" if "q_lanes q' k = Some l" for k l
          using queue_invD(2)[OF inv, of k l] that by (auto simp: q'_def lane_ok_def split: if_splits)
        show "runnable_ok q'" using queue_invD(4)[OF inv] 2 by (auto simp: q'_def runnable_ok_def)
        show "history_ok q'" using queue_invD(8)[OF inv] by (simp add: q'_def history_ok_def)
      qed (use queue_invD(3,5,6,7)[OF inv] in \<open>auto simp: q'_def exclusive_def deadlines_ok_def
          held_ok_def counts_ok_def Let_def\<close>)
      moreover have "worker_take now q = Some q'"
        using 2 lane Nil lok by (simp add: worker_take_def q'_def lane_ok_def)
      ultimately show ?thesis by blast
    next
      case (Cons i ids)
      then obtain t where "q_tasks q i = Some t" using lok by (auto simp: lane_ok_def)
      with take_inv[OF inv idle 2(2) lane(1) Cons this refl 2(1) refl]
      show ?thesis using 2 lane Cons by (simp add: worker_take_def Let_def)
    qed
  qed
qed

text \<open>A deadline or a cancellation of task \<open>i\<close>, with the release of a queued one.\<close>

lemma refuse_total:
  assumes inv: "queue_inv q" and task: "q_tasks q i = Some t" "\<not> t_failed t"
    and c': "c' = (q_counts q)\<lparr>st_expired := e, st_cancelled := x\<rparr>"
    and q1: "q1 = q\<lparr>q_deadlines := deadline_erase i (q_deadlines q),
        q_tasks := (q_tasks q)(i \<mapsto> t\<lparr>t_failed := True, t_timed := False\<rparr>),
        q_counts := c', q_log := q_log q @ [Failed i r m]\<rparr>"
  shows "\<exists>q'. (if t_active t then Some q1 else releaseQueued (t\<lparr>t_failed := True, t_timed := False\<rparr>) q1) = Some q'
    \<and> queue_inv q'"
proof (cases "t_active t")
  case True
  have "queue_inv q1" by (rule mark_active_inv[OF inv task(1) True refl q1]) (use c' task in auto)
  then show ?thesis using True by simp
next
  case False
  have tok: "task_ok q i t" using inv task(1) by (rule queue_invD)
  then obtain lane where lane: "q_lanes q (w_key (t_work t)) = Some lane" by (auto simp: task_ok_def)
  have "lane_ok q (w_key (t_work t)) lane" using inv lane by (rule queue_invD)
  then have "l_ready lane \<longleftrightarrow> \<not> l_active lane" by (simp add: lane_ok_def)
  moreover have "t_id t = i" using tok by (simp add: task_ok_def)
  ultimately show ?thesis using False lane
      refuse_queued_inv[OF inv task(1) False task(2) lane refl refl, where e = e and x = x and r = r and m = m]
    by (auto simp: releaseQueued_def Let_def q1 c')
qed

lemma expire_total:
  assumes inv: "queue_inv q"
  shows "\<exists>q'. expire now q = Some q' \<and> queue_inv q'"
proof -
  consider "q_stopped q" | "q_deadlines q = []" 
    | d i rest where "\<not> q_stopped q" "q_deadlines q = (d, i) # rest"
    by (cases "q_deadlines q") auto
  then show ?thesis
  proof cases
    case 3
    then obtain t where t: "q_tasks q i = Some t" using queue_invD(5)[OF inv] by (auto simp: deadlines_ok_def)
    have rest: "deadline_erase i ((d, i) # rest) = rest"
      using deadlines_head[OF queue_invD(5)[OF inv] 3(2)] 3(2) by simp
    have act: "t_failed t \<Longrightarrow> t_active t" using queue_invD(1)[OF inv t] 3(1) by (auto simp: task_ok_def)
    show ?thesis
    proof (cases "now < d")
      case True
      then show ?thesis using 3 inv by (simp add: expire_def)
    next
      case False
      show ?thesis
      proof (cases "t_failed t")
        case True
        have eq: "t\<lparr>t_failed := True, t_timed := False\<rparr> = t\<lparr>t_timed := False\<rparr>"
          using True by (cases t) simp
        have "\<exists>e x. q_counts q = (q_counts q)\<lparr>st_expired := e, st_cancelled := x\<rparr>"
          by (intro exI[of _ "st_expired (q_counts q)"] exI[of _ "st_cancelled (q_counts q)"]) simp
        from mark_active_inv[OF inv t act[OF True] refl refl this, of "q_log q", unfolded eq]
        show ?thesis using 3 False True t by (simp add: expire_def rest)
      next
        case nf: False
        have "expire now q = (if t_active t then Some q1
            else releaseQueued (t\<lparr>t_failed := True, t_timed := False\<rparr>) q1)"
          if "q1 = q\<lparr>q_deadlines := deadline_erase i (q_deadlines q),
        q_tasks := (q_tasks q)(i \<mapsto> t\<lparr>t_failed := True, t_timed := False\<rparr>),
        q_counts := (q_counts q)\<lparr>st_expired := st_expired (q_counts q) + 1, 
          st_cancelled := st_cancelled (q_counts q)\<rparr>, q_log := q_log q @ [Failed i Deadline
            ''total operation deadline exceeded; not retried'']\<rparr>" for q1
          unfolding that using 3 False t nf by (simp add: expire_def Let_def rest)
        from this[OF refl] refuse_total[OF inv t nf refl refl] show ?thesis by metis
      qed
    qed
  qed (use inv in \<open>simp_all add: expire_def\<close>)
qed

lemma cancel_total:
  assumes inv: "queue_inv q"
  shows "\<exists>q'. cancel i q = Some q' \<and> queue_inv q'"
proof (cases "q_tasks q i")
  case None
  then show ?thesis using inv by (simp add: cancel_def)
next
  case (Some t)
  show ?thesis
  proof (cases "t_failed t")
    case True
    then show ?thesis using inv Some by (simp add: cancel_def)
  next
    case False
    have "cancel i q = (if t_active t then Some q1
        else releaseQueued (t\<lparr>t_failed := True, t_timed := False\<rparr>) q1)"
      if "q1 = q\<lparr>q_deadlines := deadline_erase i (q_deadlines q),
        q_tasks := (q_tasks q)(i \<mapsto> t\<lparr>t_failed := True, t_timed := False\<rparr>),
        q_counts := (q_counts q)\<lparr>st_expired := st_expired (q_counts q),
          st_cancelled := st_cancelled (q_counts q) + 1\<rparr>,
        q_log := q_log q @ [Failed i Cancelled ''operation cancelled; not retried'']\<rparr>" for q1
      unfolding that using False Some by (simp add: cancel_def Let_def)
    from this[OF refl] refuse_total[OF inv Some False refl refl] show ?thesis by metis
  qed
qed

lemma finish_total:
  assumes inv: "queue_inv q" and held: "i \<in> set (q_held q)"
  shows "\<exists>q'. worker_finish i thrown q = Some q' \<and> queue_inv q'"
proof -
  obtain t where t: "q_tasks q i = Some t" using queue_invD(6)[OF inv] held by (auto simp: held_ok_def)
  with queue_invD(1)[OF inv t] obtain lane where "q_lanes q (w_key (t_work t)) = Some lane"
    by (auto simp: task_ok_def)
  then have "worker_finish i thrown q \<noteq> None" using t by (simp add: worker_finish_def Let_def)
  then show ?thesis using finish_inv[OF inv held] by blast
qed

lemma act_total: "queue_inv q \<Longrightarrow> enabled q a \<Longrightarrow> \<exists>q'. act a q = Some q' \<and> queue_inv q'"
  by (cases a) (simp_all add: submit_inv take_total finish_total expire_total cancel_total
      stop_mark_inv stop_clear_inv)

lemma initial_inv: "make_queue limits = Some q \<Longrightarrow> queue_inv q"
  by (auto simp: make_queue_def zero_stats_def queue_inv_def exclusive_def runnable_ok_def
      deadlines_ok_def held_ok_def counts_ok_def history_ok_def total_def log_simps split: if_splits)

lemma reachable_inv: "reachable limits q \<Longrightarrow> queue_inv q"
  by (induction rule: reachable.induct) (use initial_inv act_total in fastforce)+

section \<open>Consequences\<close>

lemma run_actions_reachable:
  "reachable limits q \<Longrightarrow> run_actions as q = Some q' \<Longrightarrow> reachable limits q'"
proof (induction as arbitrary: q)
  case (Cons a as)
  then show ?case by (auto split: if_splits option.splits intro: reachable.step)
qed simp

lemma act_limits: "act a q = Some q' \<Longrightarrow> q_limits q' = q_limits q"
  by (cases a) (auto simp: submit_def worker_take_def worker_finish_def expire_def cancel_def ready_def
      releaseQueued_def stop_mark_def stop_clear_def Let_def split: if_splits option.splits list.splits)

lemma reachable_limits:
  "reachable limits q \<Longrightarrow> q_limits q = limits \<and> 0 < lim_workers limits"
  by (induction rule: reachable.induct) (auto simp: make_queue_def act_limits split: if_splits)

lemmas step_eqs = worker_take_def worker_finish_def ready_def Let_def

lemma finish_measure:
  assumes inv: "queue_inv q" and "i \<in> set (q_held q)" and fin: "worker_finish i m q = Some q'"
  shows "drain_measure q' < drain_measure q" "q_stopped q' = q_stopped q" "q_nextId q' = q_nextId q"
proof -
  obtain k where "length (q_held q) = Suc k" using assms(2) by (cases "q_held q") auto
  then show "drain_measure q' < drain_measure q" "q_stopped q' = q_stopped q" "q_nextId q' = q_nextId q"
  using fin assms(2)
  by (auto simp: drain_measure_def step_eqs length_remove1 split: option.splits if_splits)
qed

lemma take_measure:
  assumes inv: "queue_inv q" and "\<not> q_stopped q" "q_runnable q \<noteq> []" and take: "worker_take now q = Some q'"
  shows "drain_measure q' < drain_measure q" "q_stopped q' = q_stopped q" "q_nextId q' = q_nextId q"
proof -
  have "0 < st_queued (q_counts q)" if "q_runnable q = key # rest" and lane: "q_lanes q key = Some lane"
    and queue: "l_queue lane = i # ids" for key rest lane i ids
  proof -
    obtain t where t: "q_tasks q i = Some t" "\<not> t_active t"
      using queue_invD(2)[OF inv lane] queue by (auto simp: lane_ok_def)
    have "1 \<le> i" "i \<le> q_nextId q" using queue_invD(1)[OF inv t(1)] by (simp_all add: task_ok_def)
    from total_ge[where f = "\<lambda>t. of_bool (\<not> t_active t)" and ts = "q_tasks q", OF this t(1)] t(2) queue_invD(7)[OF inv]
    show ?thesis by (simp add: counts_ok_def Let_def)
  qed
  then have "\<exists>n. st_queued (q_counts q) = Suc n" if "q_runnable q = key # rest"
    "q_lanes q key = Some lane" "l_queue lane = i # ids" for key rest lane i ids
    using that gr0_implies_Suc by blast
  with take assms(2,3)
  show "drain_measure q' < drain_measure q" "q_stopped q' = q_stopped q" "q_nextId q' = q_nextId q"
    by (fastforce simp: drain_measure_def worker_take_def Let_def split: option.splits if_splits list.splits)+
qed

lemma no_work_left:
  assumes inv: "queue_inv q" and "q_held q = []" "q_runnable q = []"
  shows "q_tasks q = Map.empty"
proof
  fix i
  show "q_tasks q i = None"
  proof (cases "q_tasks q i")
    case (Some t)
    obtain lane where lane: "q_lanes q (w_key (t_work t)) = Some lane" 
      using queue_invD(1)[OF inv Some] by (auto simp: task_ok_def)
    have "\<not> l_ready lane" using queue_invD(4)[OF inv] lane assms(3) by (auto simp: runnable_ok_def)
    then have "l_active lane" using queue_invD(2)[OF inv lane] by (simp add: lane_ok_def)
    then obtain j u where "q_tasks q j = Some u" "t_active u"
      using queue_invD(2)[OF inv lane] unfolding lane_ok_def by blast
    then show ?thesis using queue_invD(1)[OF inv, of j u] assms(2) by (simp add: task_ok_def)
  qed
qed

lemma drive_drains:
  assumes "queue_inv q" "\<not> q_stopped q" "0 < lim_workers (q_limits q)" "drain_measure q \<le> fuel"
  shows "\<exists>q'. drive fuel now q = Some q' \<and> queue_inv q' \<and> q_tasks q' = Map.empty
    \<and> q_held q' = [] \<and> q_runnable q' = [] \<and> q_nextId q' = q_nextId q"
  using assms
proof (induction fuel arbitrary: q)
  case 0
  then have "q_held q = []" "q_runnable q = []" by (auto simp: drain_measure_def)
  then show ?case using no_work_left[OF 0(1)] 0 by simp
next
  case (Suc fuel)
  show ?case
  proof (cases "q_held q")
    case (Cons i rest)
    then obtain q' where q': "worker_finish i None q = Some q'" "queue_inv q'"
      using finish_total[OF Suc.prems(1), of i None] by auto
    have "q_limits q' = q_limits q" using act_limits[of "Finish i None"] q' by simp
    then show ?thesis using Suc.IH[OF q'(2)] finish_measure[OF Suc.prems(1) _ q'(1)] Suc.prems Cons q'(1)
      by auto
  next
    case Nil
    show ?thesis
    proof (cases "q_runnable q = []")
      case True
      then show ?thesis using Nil no_work_left[OF Suc.prems(1)] Suc.prems by simp
    next
      case False
      obtain q' where q': "worker_take now q = Some q'" "queue_inv q'"
        using take_total[OF Suc.prems(1), of now] Nil Suc.prems by auto
      have "q_limits q' = q_limits q" using act_limits[of "Take now"] q' by simp
      then show ?thesis
        using Suc.IH[OF q'(2)] take_measure[OF Suc.prems(1,2) False q'(1)] Suc.prems Nil False q'(1)
        by auto
    qed
  qed
qed

lemma demo_reachable: "reachable demo_limits demo_queue"
proof -
  obtain q0 where q0: "make_queue demo_limits = Some q0" by (simp add: make_queue_def demo_limits_def)
  have "(case make_queue demo_limits of None \<Rightarrow> None | Some q \<Rightarrow> run_actions demo_actions q) \<noteq> None"
    by code_simp
  then obtain q where q: "run_actions demo_actions q0 = Some q" using q0 by auto
  show ?thesis using run_actions_reachable[OF reachable.initial[OF q0] q] q q0 by (simp add: demo_queue_def)
qed

section \<open>Properties\<close>

text \<open>
  C1: at most one task of a key is held by a worker at any time, including while that task is
  being cancelled or has timed out: two active tasks with the same key are the same task.
\<close>

theorem one_active_task_per_key:
  assumes "reachable limits q"
    and "q_tasks q i = Some t" "t_active t" "q_tasks q j = Some u" "t_active u"
    and "w_key (t_work t) = w_key (t_work u)"
  shows "i = j"
  using queue_invD(3)[OF reachable_inv[OF assms(1)]] assms(2-) unfolding exclusive_def by blast

theorem one_active_task_per_key_witness:
  "reachable demo_limits demo_queue
   \<and> (\<exists>t. q_tasks demo_queue 1 = Some t \<and> t_active t \<and> t_failed t \<and> w_key (t_work t) = ''a''
        \<and> (\<forall>j u. q_tasks demo_queue j = Some u \<longrightarrow> t_active u \<longrightarrow> w_key (t_work u) = ''a'' \<longrightarrow> 1 = j))"
proof -
  have "case q_tasks demo_queue 1 of None \<Rightarrow> False
      | Some t \<Rightarrow> t_active t \<and> t_failed t \<and> w_key (t_work t) = ''a''"
    by code_simp
  then obtain t where "q_tasks demo_queue 1 = Some t" "t_active t" "t_failed t" "w_key (t_work t) = ''a''"
    by (auto split: option.splits)
  then show ?thesis using demo_reachable one_active_task_per_key[OF demo_reachable, of 1 t] by metis
qed

text \<open>
  C2: for every key, tasks are dispatched in the order in which they were admitted, each at most
  once: the ids for which \<open>run\<close> was called are strictly increasing.
\<close>

theorem dispatch_in_admission_order:
  assumes "reachable limits q"
  shows "sorted_wrt (<) (runs (q_log q) key)"
  using historyD(7)[OF queue_invD(8)[OF reachable_inv[OF assms]]] .

theorem dispatch_in_admission_order_witness:
  "reachable demo_limits demo_queue \<and> runs (q_log demo_queue) ''b'' = [3]
   \<and> sorted_wrt (<) (runs (q_log demo_queue) ''b'')"
proof -
  have "runs (q_log demo_queue) ''b'' = [3]" by code_simp
  then show ?thesis using demo_reachable dispatch_in_admission_order[OF demo_reachable, of "''b''"] by blast
qed

text \<open>
  C3: no submission is lost and no refusal is repeated. Every accepted id that is no longer
  waiting in the queue has had its \<open>run\<close> or \<open>fail\<close> callback; after \<open>stop\<close> that is
  every accepted id; and an accepted id is refused (deadline, cancel, stop) at most once.
\<close>

theorem every_submission_answered:
  assumes "reachable limits q" "1 \<le> i" "i \<le> q_nextId q"
  shows "(q_stopped q \<or> q_tasks q i = None \<longrightarrow> handled (q_log q) i) \<and> length (refusals (q_log q) i) \<le> 1"
proof -
  note inv = reachable_inv[OF assms(1)]
  note h = historyD[OF queue_invD(8)[OF inv]]
  have "handled (q_log q) i" if "q_stopped q \<or> q_tasks q i = None"
    using h(1)[OF assms(2,3)] queue_invD(1)[OF inv, of i] that by (cases "handled (q_log q) i") (auto simp: task_ok_def)
  then show ?thesis using h(4)[OF assms(2)] by blast
qed

theorem every_submission_answered_witness:
  "q_stopped (stop_mark demo_queue) \<and> handled (q_log (stop_mark demo_queue)) 2
   \<and> length (refusals (q_log (stop_mark demo_queue)) 2) \<le> 1"
proof -
  have r: "reachable demo_limits (stop_mark demo_queue)"
    using reachable.step[OF demo_reachable, of StopMark] by simp
  have "q_stopped (stop_mark demo_queue)" "2 \<le> q_nextId (stop_mark demo_queue)" by code_simp+
  then show ?thesis using every_submission_answered[OF r, of 2] by simp
qed

text \<open>
  C4: the queue stays within its limits, and its byte count is exactly the sum of the charges of
  the tasks it indexes, so the unsigned subtractions of the source never wrap.
\<close>

theorem queue_within_limits:
  assumes "reachable limits q"
  shows "st_residentBytes (q_counts q) = total (q_nextId q) (q_tasks q) t_charge
    \<and> st_residentBytes (q_counts q) \<le> st_peakBytes (q_counts q)
    \<and> st_peakBytes (q_counts q) \<le> lim_residentBytes limits
    \<and> st_running (q_counts q) \<le> lim_workers limits
    \<and> (\<forall>key. lane_length q key \<le> lim_queuedPerKey limits)"
proof -
  note inv = reachable_inv[OF assms]
  have "lane_length q key \<le> lim_queuedPerKey limits" for key
    using queue_invD(2)[OF inv, of key] reachable_limits[OF assms]
    by (auto simp: lane_length_def lane_ok_def split: option.splits)
  then show ?thesis using queue_invD(6,7)[OF inv] reachable_limits[OF assms]
    by (auto simp: counts_ok_def held_ok_def Let_def)
qed

theorem queue_within_limits_witness:
  "reachable demo_limits demo_queue \<and> st_residentBytes (q_counts demo_queue) = 1068
   \<and> st_peakBytes (q_counts demo_queue) \<le> 2048"
proof -
  have "st_residentBytes (q_counts demo_queue) = 1068" by code_simp
  then show ?thesis using demo_reachable queue_within_limits[OF demo_reachable] by (simp add: demo_limits_def)
qed

text \<open>
  C6: no critical section of the queue throws: every \<open>lanes.at\<close> and \<open>tasks.at\<close> finds
  its entry in every reachable state, whatever the interleaving.
\<close>

theorem queue_never_throws:
  assumes "reachable limits q" "enabled q a"
  shows "act a q \<noteq> None"
  using act_total[OF reachable_inv[OF assms(1)] assms(2)] by auto

theorem queue_never_throws_witness:
  "enabled demo_queue (Finish 1 (Some ''lost connection'')) \<and> act (Finish 1 (Some ''lost connection'')) demo_queue \<noteq> None"
proof -
  have e: "enabled demo_queue (Finish 1 (Some ''lost connection''))" by code_simp
  then show ?thesis using queue_never_throws[OF demo_reachable e] by simp
qed




end
