(* ===== verification/Config_Types.thy ===== *)
theory Config_Types
  imports Prelude Complex_Main
begin

text \<open>
  The configuration data of \<open>include/redis_pvxs_ioc/config.h\<close> and the functions at the end of
  \<open>src/config.cpp\<close> that only look at it: type predicates, the spelling of enumerators, the
  comparisons a reload uses to decide what has changed, and the names of the served PVs.

  A \<open>double\<close> is \<open>fp\<close>: a finite value is the rational it denotes (the two zeros are one
  value, which no operation of the program tells apart), and \<open>fp_eq\<close> is the \<open>==\<close> of the
  language, under which NaN differs from itself. Unsigned fields keep their width as words;
  \<open>int\<close> fields are integers, \<open>std::map\<close> is the sorted association list of the prelude.
\<close>

section \<open>Data\<close>

datatype fp = NaN | PInf | NInf | Fin rat

fun fp_eq :: "fp \<Rightarrow> fp \<Rightarrow> bool" where
  "fp_eq NaN _ = False"
| "fp_eq _ NaN = False"
| "fp_eq x y = (x = y)"

fun fp_less :: "fp \<Rightarrow> fp \<Rightarrow> bool" where
  "fp_less NaN _ = False"
| "fp_less _ NaN = False"
| "fp_less PInf _ = False"
| "fp_less _ NInf = False"
| "fp_less NInf _ = True"
| "fp_less _ PInf = True"
| "fp_less (Fin x) (Fin y) = (x < y)"

definition fp_le :: "fp \<Rightarrow> fp \<Rightarrow> bool" where
  "fp_le x y = (fp_less x y \<or> fp_eq x y)"

definition fp_finite :: "fp \<Rightarrow> bool" where
  "fp_finite x = (case x of Fin _ \<Rightarrow> True | _ \<Rightarrow> False)"

text \<open>\<open>==\<close> on \<open>std::optional<double>\<close>.\<close>

fun opt_fp_eq :: "fp option \<Rightarrow> fp option \<Rightarrow> bool" where
  "opt_fp_eq None None = True"
| "opt_fp_eq (Some x) (Some y) = fp_eq x y"
| "opt_fp_eq _ _ = False"

datatype PrimitiveType =
    Boolean | Int8 | UInt8 | Int16 | UInt16 | Int32 | UInt32 | Int64 | UInt64
  | Float32 | Float64 | String

datatype Shape = Scalar | Array

datatype PVKind = Value | NTNDArray

datatype DisplayForm = DefaultForm | StringForm | BinaryForm | DecimalForm | HexForm
  | ExponentialForm | EngineeringForm

record RouteConfig =
  rt_backend :: string
  rt_key :: string

record ConfirmConfig =
  cf_backend :: string
  cf_key :: string
  cf_timeoutMs :: int

record LimitConfig =
  lc_low :: "fp option"
  lc_high :: "fp option"

record AlarmConfig =
  al_lowAlarm :: "fp option"
  al_lowWarning :: "fp option"
  al_highWarning :: "fp option"
  al_highAlarm :: "fp option"
  al_hysteresis :: fp

record MetadataConfig =
  md_description :: string
  md_units :: string
  md_precision :: "int option"
  md_form :: "DisplayForm option"
  md_display :: LimitConfig
  md_control :: LimitConfig
  md_minStep :: "fp option"

record LinearTransformConfig =
  tr_scale :: fp
  tr_offset :: fp

record SourceHealthConfig =
  sh_required :: bool
  sh_staleAfterMs :: u32

record AccessAssignment =
  aa_asg :: string
  aa_asl :: int

record AccessDefaultsConfig =
  ad_pv :: AccessAssignment
  ad_rpc :: AccessAssignment
  ad_adminRead :: AccessAssignment
  ad_adminWrite :: AccessAssignment

record AccessWatchConfig =
  aw_enabled :: bool
  aw_intervalMs :: u32
  aw_settleMs :: u32

record AccessConfig =
  ac_enabled :: bool
  ac_file :: string
  ac_macros :: "(string, string) omap"
  ac_watch :: AccessWatchConfig
  ac_defaults :: AccessDefaultsConfig

record RpcServiceConfig =
  rs_endpoint :: string
  rs_service :: string
  rs_suffix :: string
  rs_defaults :: "(string, string) omap"
  rs_methodDefaults :: "(string, (string, string) omap) omap"
  rs_optional :: bool
  rs_discoveryTimeoutMs :: u32
  rs_timeoutMs :: u32
  rs_retryIntervalMs :: u32
  rs_access :: "AccessAssignment option"

text \<open>The alternatives of the variant; signed alternatives hold the word their bits form.\<close>

datatype TypedValue =
    TVNone
  | TVBool bool | TVI8 u8 | TVU8 u8 | TVI16 u16 | TVU16 u16 | TVI32 u32 | TVU32 u32
  | TVI64 u64 | TVU64 u64 | TVF32 fp | TVF64 fp | TVString string
  | TVI8s "u8 list" | TVU8s "u8 list" | TVI16s "u16 list" | TVU16s "u16 list"
  | TVI32s "u32 list" | TVU32s "u32 list" | TVI64s "u64 list" | TVU64s "u64 list"
  | TVF32s "fp list" | TVF64s "fp list"

record PVConfig =
  pv_name :: string
  pv_aliases :: "string list"
  pv_kind :: PVKind
  pv_type :: PrimitiveType
  pv_shape :: Shape
  pv_read :: RouteConfig
  pv_write :: "RouteConfig option"
  pv_confirm :: "ConfirmConfig option"
  pv_metadata :: MetadataConfig
  pv_alarms :: AlarmConfig
  pv_transform :: "LinearTransformConfig option"
  pv_initialValue :: TypedValue
  pv_access :: "AccessAssignment option"
  pv_maxFrameBytes :: u64
  pv_maxFrameGap :: u32
  pv_sourceHealth :: SourceHealthConfig

record ServerConfig =
  sv_instance :: string
  sv_nameSpace :: string
  sv_interfaces :: "string list"
  sv_tcpPort :: "u16 option"
  sv_udpPort :: "u16 option"
  sv_autoBeacon :: bool

record RedisConfig =
  rd_baseKey :: string
  rd_host :: string
  rd_port :: u16
  rd_user :: string
  rd_password :: string
  rd_workers :: u16
  rd_readers :: u16
  rd_readerProbeMs :: u32

type_synonym RedisBackendConfigs = "(string, RedisConfig) omap"

record AlarmStreamConfig =
  as_backend :: string
  as_stream :: string

record ChannelFinderConfig =
  ch_url :: string
  ch_owner :: string
  ch_tags :: "string list"
  ch_properties :: "(string, string) omap"

record DiscoveryConfig =
  dc_enabled :: bool
  dc_bindAddress :: string
  dc_udpPort :: u16
  dc_timeoutMs :: u32
  dc_maxHoldoffMs :: u32
  dc_maxRecords :: u32
  dc_maxBytes :: u64

record OperationLimitsConfig =
  ol_writeWorkers :: u32
  ol_queuedWritesPerPV :: u32
  ol_queuedWriteBytes :: u64
  ol_rpcWorkers :: u32
  ol_queuedRpcPerMethod :: u32
  ol_queuedRpcBytes :: u64
  ol_maxPayloadBytes :: u64
  ol_operationTimeoutMs :: "u32 option"
  ol_alarmQueueEntries :: u32
  ol_alarmStateBytes :: u64

record AppConfig =
  cfg_schemaVersion :: u32
  cfg_legacyInput :: bool
  cfg_server :: ServerConfig
  cfg_access :: AccessConfig
  cfg_redisBackends :: RedisBackendConfigs
  cfg_alarms :: AlarmStreamConfig
  cfg_channelFinder :: ChannelFinderConfig
  cfg_discovery :: DiscoveryConfig
  cfg_limits :: OperationLimitsConfig
  cfg_pvs :: "PVConfig list"
  cfg_rpcServices :: "RpcServiceConfig list"

section \<open>Default member values\<close>

definition kDefaultRedisBackendAlias :: string where
  "kDefaultRedisBackendAlias = ''default''"

definition kAlarmQueueEntryBytes :: u64 where
  "kAlarmQueueEntryBytes = 1024"

definition kDefaultNDArrayMaxFrameGap :: u32 where
  "kDefaultNDArrayMaxFrameGap = 10000"

definition default_assignment :: AccessAssignment where
  "default_assignment = \<lparr>aa_asg = ''DEFAULT'', aa_asl = 0\<rparr>"

definition default_access :: AccessConfig where
  "default_access = \<lparr>ac_enabled = False, ac_file = [], ac_macros = [],
     ac_watch = \<lparr>aw_enabled = False, aw_intervalMs = 1000, aw_settleMs = 250\<rparr>,
     ac_defaults = \<lparr>ad_pv = default_assignment, ad_rpc = default_assignment,
       ad_adminRead = default_assignment, ad_adminWrite = default_assignment\<rparr>\<rparr>"

definition default_limit :: LimitConfig where
  "default_limit = \<lparr>lc_low = None, lc_high = None\<rparr>"

definition default_alarm :: AlarmConfig where
  "default_alarm = \<lparr>al_lowAlarm = None, al_lowWarning = None, al_highWarning = None,
     al_highAlarm = None, al_hysteresis = Fin 0\<rparr>"

definition default_metadata :: MetadataConfig where
  "default_metadata = \<lparr>md_description = [], md_units = [], md_precision = None, md_form = None,
     md_display = default_limit, md_control = default_limit, md_minStep = None\<rparr>"

definition default_source_health :: SourceHealthConfig where
  "default_source_health = \<lparr>sh_required = True, sh_staleAfterMs = 0\<rparr>"

definition default_redis :: RedisConfig where
  "default_redis = \<lparr>rd_baseKey = [], rd_host = ''127.0.0.1'', rd_port = 6379, rd_user = [],
     rd_password = [], rd_workers = 1, rd_readers = 1, rd_readerProbeMs = 1000\<rparr>"

definition default_channel_finder :: ChannelFinderConfig where
  "default_channel_finder = \<lparr>ch_url = [], ch_owner = ''redis-pvxs-ioc'', ch_tags = [],
     ch_properties = []\<rparr>"

definition default_discovery :: DiscoveryConfig where
  "default_discovery = \<lparr>dc_enabled = True, dc_bindAddress = ''0.0.0.0'', dc_udpPort = 5049,
     dc_timeoutMs = 20000, dc_maxHoldoffMs = 10000, dc_maxRecords = 100000,
     dc_maxBytes = 16 * 1024 * 1024\<rparr>"

definition default_limits :: OperationLimitsConfig where
  "default_limits = \<lparr>ol_writeWorkers = 4, ol_queuedWritesPerPV = 16,
     ol_queuedWriteBytes = 64 * 1024 * 1024, ol_rpcWorkers = 4, ol_queuedRpcPerMethod = 16,
     ol_queuedRpcBytes = 64 * 1024 * 1024, ol_maxPayloadBytes = 32 * 1024 * 1024,
     ol_operationTimeoutMs = None, ol_alarmQueueEntries = 1024,
     ol_alarmStateBytes = 64 * 1024 * 1024\<rparr>"

definition default_rpc_service :: RpcServiceConfig where
  "default_rpc_service = \<lparr>rs_endpoint = [], rs_service = [], rs_suffix = [], rs_defaults = [],
     rs_methodDefaults = [], rs_optional = False, rs_discoveryTimeoutMs = 3000,
     rs_timeoutMs = 10000, rs_retryIntervalMs = 5000, rs_access = None\<rparr>"

definition default_pv :: PVConfig where
  "default_pv = \<lparr>pv_name = [], pv_aliases = [], pv_kind = Value, pv_type = Float64,
     pv_shape = Scalar, pv_read = \<lparr>rt_backend = [], rt_key = []\<rparr>, pv_write = None,
     pv_confirm = None, pv_metadata = default_metadata, pv_alarms = default_alarm,
     pv_transform = None, pv_initialValue = TVNone, pv_access = None,
     pv_maxFrameBytes = 32 * 1024 * 1024, pv_maxFrameGap = kDefaultNDArrayMaxFrameGap,
     pv_sourceHealth = default_source_health\<rparr>"

definition default_server :: ServerConfig where
  "default_server = \<lparr>sv_instance = [], sv_nameSpace = [], sv_interfaces = [], sv_tcpPort = None,
     sv_udpPort = None, sv_autoBeacon = True\<rparr>"

definition default_app :: AppConfig where
  "default_app = \<lparr>cfg_schemaVersion = 1, cfg_legacyInput = True, cfg_server = default_server,
     cfg_access = default_access, cfg_redisBackends = [],
     cfg_alarms = \<lparr>as_backend = [], as_stream = ''acorn:alarms''\<rparr>,
     cfg_channelFinder = default_channel_finder, cfg_discovery = default_discovery,
     cfg_limits = default_limits, cfg_pvs = [], cfg_rpcServices = []\<rparr>"

section \<open>Type predicates and spellings\<close>

definition isNumericType :: "PrimitiveType \<Rightarrow> bool" where
  "isNumericType t = (t \<noteq> Boolean \<and> t \<noteq> String)"

definition isFloatingPointType :: "PrimitiveType \<Rightarrow> bool" where
  "isFloatingPointType t = (t = Float32 \<or> t = Float64)"

definition isArrayElementTypeSupported :: "PrimitiveType \<Rightarrow> bool" where
  "isArrayElementTypeSupported t = (t \<noteq> Boolean \<and> t \<noteq> String)"

fun toString_type :: "PrimitiveType \<Rightarrow> string" where
  "toString_type Boolean = ''bool''"
| "toString_type Int8 = ''int8''"
| "toString_type UInt8 = ''uint8''"
| "toString_type Int16 = ''int16''"
| "toString_type UInt16 = ''uint16''"
| "toString_type Int32 = ''int32''"
| "toString_type UInt32 = ''uint32''"
| "toString_type Int64 = ''int64''"
| "toString_type UInt64 = ''uint64''"
| "toString_type Float32 = ''float32''"
| "toString_type Float64 = ''float64''"
| "toString_type String = ''string''"

fun toString_shape :: "Shape \<Rightarrow> string" where
  "toString_shape Scalar = ''scalar''"
| "toString_shape Array = ''array''"

fun toString_kind :: "PVKind \<Rightarrow> string" where
  "toString_kind Value = ''value''"
| "toString_kind NTNDArray = ''ntndarray''"

fun toString_form :: "DisplayForm \<Rightarrow> string" where
  "toString_form DefaultForm = ''default''"
| "toString_form StringForm = ''string''"
| "toString_form BinaryForm = ''binary''"
| "toString_form DecimalForm = ''decimal''"
| "toString_form HexForm = ''hex''"
| "toString_form ExponentialForm = ''exponential''"
| "toString_form EngineeringForm = ''engineering''"

section \<open>Comparisons used by a reload\<close>

definition sameReaderTopology :: "PVConfig \<Rightarrow> PVConfig \<Rightarrow> bool" where
  "sameReaderTopology lhs rhs =
     (pv_name lhs = pv_name rhs \<and> pv_kind lhs = pv_kind rhs \<and> pv_type lhs = pv_type rhs
      \<and> pv_shape lhs = pv_shape rhs \<and> pv_maxFrameBytes lhs = pv_maxFrameBytes rhs
      \<and> rt_backend (pv_read lhs) = rt_backend (pv_read rhs)
      \<and> rt_key (pv_read lhs) = rt_key (pv_read rhs)
      \<and> (case (pv_write lhs, pv_write rhs) of
           (None, None) \<Rightarrow> True
         | (Some l, Some r) \<Rightarrow> rt_backend l = rt_backend r \<and> rt_key l = rt_key r
         | _ \<Rightarrow> False)
      \<and> (case (pv_confirm lhs, pv_confirm rhs) of
           (None, None) \<Rightarrow> True
         | (Some l, Some r) \<Rightarrow> cf_backend l = cf_backend r \<and> cf_key l = cf_key r
             \<and> cf_timeoutMs l = cf_timeoutMs r
         | _ \<Rightarrow> False))"

definition sameServerConfig :: "ServerConfig \<Rightarrow> ServerConfig \<Rightarrow> bool" where
  "sameServerConfig lhs rhs =
     (sv_instance lhs = sv_instance rhs \<and> sv_nameSpace lhs = sv_nameSpace rhs
      \<and> sv_interfaces lhs = sv_interfaces rhs \<and> sv_tcpPort lhs = sv_tcpPort rhs
      \<and> sv_udpPort lhs = sv_udpPort rhs \<and> sv_autoBeacon lhs = sv_autoBeacon rhs)"

definition sameAccessAssignment :: "AccessAssignment \<Rightarrow> AccessAssignment \<Rightarrow> bool" where
  "sameAccessAssignment lhs rhs = (aa_asg lhs = aa_asg rhs \<and> aa_asl lhs = aa_asl rhs)"

definition sameAccessConfig :: "AccessConfig \<Rightarrow> AccessConfig \<Rightarrow> bool" where
  "sameAccessConfig lhs rhs =
     (ac_enabled lhs = ac_enabled rhs \<and> ac_file lhs = ac_file rhs \<and> ac_macros lhs = ac_macros rhs
      \<and> aw_enabled (ac_watch lhs) = aw_enabled (ac_watch rhs)
      \<and> aw_intervalMs (ac_watch lhs) = aw_intervalMs (ac_watch rhs)
      \<and> aw_settleMs (ac_watch lhs) = aw_settleMs (ac_watch rhs)
      \<and> sameAccessAssignment (ad_pv (ac_defaults lhs)) (ad_pv (ac_defaults rhs))
      \<and> sameAccessAssignment (ad_rpc (ac_defaults lhs)) (ad_rpc (ac_defaults rhs))
      \<and> sameAccessAssignment (ad_adminRead (ac_defaults lhs)) (ad_adminRead (ac_defaults rhs))
      \<and> sameAccessAssignment (ad_adminWrite (ac_defaults lhs)) (ad_adminWrite (ac_defaults rhs)))"

definition sameRedisConfig :: "RedisConfig \<Rightarrow> RedisConfig \<Rightarrow> bool" where
  "sameRedisConfig lhs rhs =
     (rd_baseKey lhs = rd_baseKey rhs \<and> rd_host lhs = rd_host rhs \<and> rd_port lhs = rd_port rhs
      \<and> rd_user lhs = rd_user rhs \<and> rd_password lhs = rd_password rhs
      \<and> rd_workers lhs = rd_workers rhs \<and> rd_readers lhs = rd_readers rhs
      \<and> rd_readerProbeMs lhs = rd_readerProbeMs rhs)"

definition sameRedisBackends :: "RedisBackendConfigs \<Rightarrow> RedisBackendConfigs \<Rightarrow> bool" where
  "sameRedisBackends lhs rhs =
     (length lhs = length rhs
      \<and> list_all (\<lambda>(name, redis). case omap_find rhs name of
           None \<Rightarrow> False | Some other \<Rightarrow> sameRedisConfig redis other) lhs)"

definition sameAlarmStreamConfig :: "AlarmStreamConfig \<Rightarrow> AlarmStreamConfig \<Rightarrow> bool" where
  "sameAlarmStreamConfig lhs rhs = (as_backend lhs = as_backend rhs \<and> as_stream lhs = as_stream rhs)"

definition sameOperationLimits :: "OperationLimitsConfig \<Rightarrow> OperationLimitsConfig \<Rightarrow> bool" where
  "sameOperationLimits a b =
     (ol_writeWorkers a = ol_writeWorkers b \<and> ol_queuedWritesPerPV a = ol_queuedWritesPerPV b
      \<and> ol_queuedWriteBytes a = ol_queuedWriteBytes b \<and> ol_maxPayloadBytes a = ol_maxPayloadBytes b
      \<and> ol_rpcWorkers a = ol_rpcWorkers b \<and> ol_queuedRpcPerMethod a = ol_queuedRpcPerMethod b
      \<and> ol_queuedRpcBytes a = ol_queuedRpcBytes b
      \<and> ol_operationTimeoutMs a = ol_operationTimeoutMs b
      \<and> ol_alarmQueueEntries a = ol_alarmQueueEntries b
      \<and> ol_alarmStateBytes a = ol_alarmStateBytes b)"

definition sameDiscoveryConfig :: "DiscoveryConfig \<Rightarrow> DiscoveryConfig \<Rightarrow> bool" where
  "sameDiscoveryConfig lhs rhs =
     (dc_enabled lhs = dc_enabled rhs \<and> dc_bindAddress lhs = dc_bindAddress rhs
      \<and> dc_udpPort lhs = dc_udpPort rhs \<and> dc_timeoutMs lhs = dc_timeoutMs rhs
      \<and> dc_maxHoldoffMs lhs = dc_maxHoldoffMs rhs \<and> dc_maxRecords lhs = dc_maxRecords rhs
      \<and> dc_maxBytes lhs = dc_maxBytes rhs)"

section \<open>PV names\<close>

definition fullPVName :: "ServerConfig \<Rightarrow> PVConfig \<Rightarrow> string" where
  "fullPVName server pv =
     (if sv_nameSpace server = [] then pv_name pv else sv_nameSpace server @ '':'' @ pv_name pv)"

definition fullPVNames :: "ServerConfig \<Rightarrow> PVConfig \<Rightarrow> string list" where
  "fullPVNames server pv = fullPVName server pv # pv_aliases pv"

definition adminPVName :: "ServerConfig \<Rightarrow> string \<Rightarrow> string" where
  "adminPVName server suffix = ''SYS:'' @ sv_instance server @ '':'' @ suffix"

definition versionPVName :: "ServerConfig \<Rightarrow> string" where
  "versionPVName server = sv_instance server @ '':version''"

definition revisionPVName :: "ServerConfig \<Rightarrow> string" where
  "revisionPVName server = sv_instance server @ '':revision''"

definition adminSuffixes :: "string list" where
  "adminSuffixes =
     [''version'', ''revision'', ''config:reload'', ''config:generation'', ''config:lastStatus'',
      ''config:lastError'', ''config:lastDiff'', ''config:reloadStatus'', ''stats:pvCount'',
      ''stats:ndarrayInvalidFrames'', ''stats:ndarraySkippedFrames'',
      ''stats:ndarrayDiscontinuities'', ''stats:operations'', ''rpc:status'', ''alarms:status'',
      ''backend:health'', ''source:status'', ''ready'', ''access:reload'', ''access:enabled'',
      ''access:generation'', ''access:lastStatus'', ''access:lastError'',
      ''access:policyFingerprint'', ''access:watchStatus'', ''access:activeClients'',
      ''access:deniedReads'', ''access:deniedWrites'', ''access:rightsChanges'',
      ''access:operations'', ''discovery:status'']"

definition adminPVNames :: "ServerConfig \<Rightarrow> string list" where
  "adminPVNames server =
     versionPVName server # revisionPVName server # map (adminPVName server) adminSuffixes"

section \<open>Lemmas\<close>

lemma fp_eq_refl [simp]: "fp_eq x x \<longleftrightarrow> x \<noteq> NaN"
  by (cases x) auto

lemma fp_eq_iff: "fp_eq x y \<longleftrightarrow> x = y \<and> x \<noteq> NaN"
  by (cases x; cases y) auto

lemma opt_fp_eq_iff: "opt_fp_eq x y \<longleftrightarrow> x = y \<and> x \<noteq> Some NaN"
  by (cases x; cases y) (auto simp: fp_eq_iff)

lemma fp_less_trans: "fp_less x y \<Longrightarrow> fp_less y z \<Longrightarrow> fp_less x z"
  by (cases x; cases y; cases z) auto

lemma fp_less_irrefl [simp]: "\<not> fp_less x x"
  by (cases x) auto

lemma sameAccessAssignment_iff [simp]: "sameAccessAssignment a b \<longleftrightarrow> a = b"
  by (cases a; cases b) (auto simp: sameAccessAssignment_def)

lemma sameRedisConfig_iff [simp]: "sameRedisConfig a b \<longleftrightarrow> a = b"
  by (cases a; cases b) (auto simp: sameRedisConfig_def)

lemma map_le_same_length:
  assumes wf: "omap_wf a" "omap_wf b" and len: "length a = length b"
    and sub: "\<And>k v. (k, v) \<in> set a \<Longrightarrow> omap_find b k = Some v"
  shows "a = b"
proof -
  have da: "distinct (map fst a)" and db: "distinct (map fst b)" using wf by (simp_all add: omap_wf_distinct)
  have "set a \<subseteq> set b" using sub map_of_SomeD by fastforce
  moreover have "card (set a) = card (set b)"
    using da db len by (simp add: distinct_card distinct_map)
  ultimately have eq: "set a = set b" by (simp add: card_subset_eq)
  show ?thesis
    by (rule map_sorted_distinct_set_unique[where f = fst])
      (use wf da db eq in \<open>auto simp: omap_wf_def strict_sorted_iff distinct_map\<close>)
qed

lemma sameRedisBackends_iff:
  assumes "omap_wf a" "omap_wf b"
  shows "sameRedisBackends a b \<longleftrightarrow> a = b"
proof
  assume same: "sameRedisBackends a b"
  then have "omap_find b k = Some v" if "(k, v) \<in> set a" for k v
    using that by (auto simp: sameRedisBackends_def list_all_iff split: option.splits)
  with same show "a = b" by (intro map_le_same_length[OF assms]) (auto simp: sameRedisBackends_def)
next
  assume "a = b"
  then show "sameRedisBackends a b"
    using omap_wf_distinct[OF assms(1)] by (auto simp: sameRedisBackends_def list_all_iff)
qed

lemma distinct_adminSuffixes: "distinct adminSuffixes"
  by (simp add: adminSuffixes_def)

lemma distinct_adminPVNames: "distinct (adminPVNames server)"
proof -
  have inj: "inj_on (adminPVName server) (set adminSuffixes)"
    by (auto simp: inj_on_def adminPVName_def)
  have version: "versionPVName server \<noteq> adminPVName server s"
    "revisionPVName server \<noteq> adminPVName server s" if "s \<in> set adminSuffixes" for s
  proof -
    have "s = ''ready'' \<or> 7 \<le> length s" using that by (auto simp: adminSuffixes_def)
    then show "versionPVName server \<noteq> adminPVName server s" "revisionPVName server \<noteq> adminPVName server s"
      apply (auto simp: versionPVName_def revisionPVName_def adminPVName_def dest!: arg_cong[where f = length])
      done
  qed
  show ?thesis
    using inj version distinct_adminSuffixes
    by (auto simp: adminPVNames_def distinct_map versionPVName_def revisionPVName_def)
qed

section \<open>Properties\<close>

text \<open>
  C7: the comparisons a reload relies on look at every field: two sections compare as the same
  exactly when they are equal (backend maps being ordered maps), so no changed setting is ignored.
\<close>

theorem comparisons_cover_every_field:
  assumes "omap_wf backends" "omap_wf backends'"
  shows "(sameServerConfig server server' \<longleftrightarrow> server = server')
    \<and> (sameAccessConfig access access' \<longleftrightarrow> access = access')
    \<and> (sameRedisBackends backends backends' \<longleftrightarrow> backends = backends')
    \<and> (sameAlarmStreamConfig alarms alarms' \<longleftrightarrow> alarms = alarms')
    \<and> (sameOperationLimits limits limits' \<longleftrightarrow> limits = limits')
    \<and> (sameDiscoveryConfig discovery discovery' \<longleftrightarrow> discovery = discovery')"
proof (intro conjI)
  show "sameServerConfig server server' \<longleftrightarrow> server = server'"
    by (cases server; cases server') (auto simp: sameServerConfig_def)
  show "sameAccessConfig access access' \<longleftrightarrow> access = access'"
    by (cases access; cases access'; cases "ac_watch access"; cases "ac_watch access'";
        cases "ac_defaults access"; cases "ac_defaults access'") (auto simp: sameAccessConfig_def)
  show "sameRedisBackends backends backends' \<longleftrightarrow> backends = backends'"
    using assms by (rule sameRedisBackends_iff)
  show "sameAlarmStreamConfig alarms alarms' \<longleftrightarrow> alarms = alarms'"
    by (cases alarms; cases alarms') (auto simp: sameAlarmStreamConfig_def)
  show "sameOperationLimits limits limits' \<longleftrightarrow> limits = limits'"
    by (cases limits; cases limits') (auto simp: sameOperationLimits_def)
  show "sameDiscoveryConfig discovery discovery' \<longleftrightarrow> discovery = discovery'"
    by (cases discovery; cases discovery') (auto simp: sameDiscoveryConfig_def)
qed

theorem comparisons_cover_every_field_witness:
  "\<not> sameRedisBackends [(''a'', default_redis)] [(''a'', default_redis\<lparr>rd_readers := 2\<rparr>)]"
proof -
  have "omap_wf [(''a'', default_redis)]" "omap_wf [(''a'', default_redis\<lparr>rd_readers := 2\<rparr>)]"
    by (simp_all add: omap_wf_def)
  from comparisons_cover_every_field[OF this] show ?thesis by (simp add: default_redis_def)
qed

end
