(* ===== verification/Config_Diff.thy ===== *)
theory Config_Diff
  imports Config_Types
begin

text \<open>
  \<open>src/src/config_diff.cpp\<close>: the comparison of two configurations that a reload reports and
  acts on, and its rendering. \<open>std::set\<close> of strings is its sorted, duplicate-free list.
\<close>

section \<open>Comparing\<close>

definition oset :: "'a::linorder list \<Rightarrow> 'a list" where
  "oset xs = sort (remdups xs)"

text \<open>\<open>==\<close> on the variant: same alternative and equal content.\<close>

definition typed_eq :: "TypedValue \<Rightarrow> TypedValue \<Rightarrow> bool" where
  "typed_eq a b =
     (case a of
        TVF32 x \<Rightarrow> (case b of TVF32 y \<Rightarrow> fp_eq x y | _ \<Rightarrow> False)
      | TVF64 x \<Rightarrow> (case b of TVF64 y \<Rightarrow> fp_eq x y | _ \<Rightarrow> False)
      | TVF32s xs \<Rightarrow> (case b of TVF32s ys \<Rightarrow> list_all2 fp_eq xs ys | _ \<Rightarrow> False)
      | TVF64s xs \<Rightarrow> (case b of TVF64s ys \<Rightarrow> list_all2 fp_eq xs ys | _ \<Rightarrow> False)
      | _ \<Rightarrow> a = b)"

definition sameMetadata :: "MetadataConfig \<Rightarrow> MetadataConfig \<Rightarrow> bool" where
  "sameMetadata a b =
     (md_description a = md_description b \<and> md_units a = md_units b
      \<and> md_precision a = md_precision b \<and> md_form a = md_form b
      \<and> opt_fp_eq (lc_low (md_display a)) (lc_low (md_display b))
      \<and> opt_fp_eq (lc_high (md_display a)) (lc_high (md_display b))
      \<and> opt_fp_eq (lc_low (md_control a)) (lc_low (md_control b))
      \<and> opt_fp_eq (lc_high (md_control a)) (lc_high (md_control b))
      \<and> opt_fp_eq (md_minStep a) (md_minStep b))"

definition sameAlarms :: "AlarmConfig \<Rightarrow> AlarmConfig \<Rightarrow> bool" where
  "sameAlarms a b =
     (opt_fp_eq (al_lowAlarm a) (al_lowAlarm b) \<and> opt_fp_eq (al_lowWarning a) (al_lowWarning b)
      \<and> opt_fp_eq (al_highWarning a) (al_highWarning b) \<and> opt_fp_eq (al_highAlarm a) (al_highAlarm b)
      \<and> fp_eq (al_hysteresis a) (al_hysteresis b))"

fun sameTransform :: "LinearTransformConfig option \<Rightarrow> LinearTransformConfig option \<Rightarrow> bool" where
  "sameTransform None None = True"
| "sameTransform (Some a) (Some b) = (fp_eq (tr_scale a) (tr_scale b) \<and> fp_eq (tr_offset a) (tr_offset b))"
| "sameTransform _ _ = False"

fun sameAssignment :: "AccessAssignment option \<Rightarrow> AccessAssignment option \<Rightarrow> bool" where
  "sameAssignment None None = True"
| "sameAssignment (Some a) (Some b) = sameAccessAssignment a b"
| "sameAssignment _ _ = False"

definition sameRpc :: "RpcServiceConfig \<Rightarrow> RpcServiceConfig \<Rightarrow> bool" where
  "sameRpc a b =
     (rs_service a = rs_service b \<and> rs_endpoint a = rs_endpoint b \<and> rs_suffix a = rs_suffix b
      \<and> rs_defaults a = rs_defaults b \<and> rs_methodDefaults a = rs_methodDefaults b
      \<and> rs_optional a = rs_optional b \<and> rs_discoveryTimeoutMs a = rs_discoveryTimeoutMs b
      \<and> rs_timeoutMs a = rs_timeoutMs b \<and> rs_retryIntervalMs a = rs_retryIntervalMs b
      \<and> sameAssignment (rs_access a) (rs_access b))"

definition aliasSet :: "PVConfig \<Rightarrow> string list" where
  "aliasSet pv = oset (pv_aliases pv)"

record ConfigDiff =
  df_added :: "string list"
  df_removed :: "string list"
  df_replaced :: "string list"
  df_metadataChanged :: "string list"
  df_aliasesChanged :: "string list"
  df_accessChanged :: "string list"
  df_backendsChanged :: "string list"
  df_rpcServicesChanged :: "string list"
  df_restartRequired :: "string list"
  df_alarmStreamChanged :: bool
  df_catalogMetadataChanged :: bool

definition empty_diff :: ConfigDiff where
  "empty_diff = \<lparr>df_added = [], df_removed = [], df_replaced = [], df_metadataChanged = [],
     df_aliasesChanged = [], df_accessChanged = [], df_backendsChanged = [],
     df_rpcServicesChanged = [], df_restartRequired = [], df_alarmStreamChanged = False,
     df_catalogMetadataChanged = False\<rparr>"

definition restart_reasons :: "AppConfig \<Rightarrow> AppConfig \<Rightarrow> string list" where
  "restart_reasons before after =
     (let s = cfg_server before; t = cfg_server after in
      (if \<not> sameOperationLimits (cfg_limits before) (cfg_limits after) then [''limits''] else [])
      @ (if sv_instance s \<noteq> sv_instance t then [''server.instance''] else [])
      @ (if sv_nameSpace s \<noteq> sv_nameSpace t then [''server.namespace''] else [])
      @ (if sv_interfaces s \<noteq> sv_interfaces t then [''server.interfaces''] else [])
      @ (if sv_tcpPort s \<noteq> sv_tcpPort t then [''server.tcp_port''] else [])
      @ (if sv_udpPort s \<noteq> sv_udpPort t then [''server.udp_port''] else [])
      @ (if sv_autoBeacon s \<noteq> sv_autoBeacon t then [''server.auto_beacon''] else [])
      @ (if ac_enabled (cfg_access before) \<noteq> ac_enabled (cfg_access after) then [''access.enabled''] else [])
      @ (if \<not> sameDiscoveryConfig (cfg_discovery before) (cfg_discovery after) then [''discovery''] else []))"

definition pv_index :: "AppConfig \<Rightarrow> (string, PVConfig) omap" where
  "pv_index config = fold (\<lambda>pv m. omap_emplace (fullPVName (cfg_server config) pv) pv m) (cfg_pvs config) []"

definition metadata_differs :: "PVConfig \<Rightarrow> PVConfig \<Rightarrow> bool" where
  "metadata_differs a b =
     (\<not> sameMetadata (pv_metadata a) (pv_metadata b) \<or> \<not> sameAlarms (pv_alarms a) (pv_alarms b)
      \<or> \<not> sameTransform (pv_transform a) (pv_transform b)
      \<or> \<not> typed_eq (pv_initialValue a) (pv_initialValue b) \<or> pv_maxFrameGap a \<noteq> pv_maxFrameGap b
      \<or> sh_required (pv_sourceHealth a) \<noteq> sh_required (pv_sourceHealth b)
      \<or> sh_staleAfterMs (pv_sourceHealth a) \<noteq> sh_staleAfterMs (pv_sourceHealth b))"

definition diff_old_pv :: "(string, PVConfig) omap \<Rightarrow> string \<times> PVConfig \<Rightarrow> ConfigDiff \<Rightarrow> ConfigDiff" where
  "diff_old_pv newPVs item diff =
     (let name = fst item; a = snd item in
      case omap_find newPVs name of
        None \<Rightarrow> diff\<lparr>df_removed := df_removed diff @ [name]\<rparr>
      | Some b \<Rightarrow>
          let d1 = (if aliasSet a \<noteq> aliasSet b
                    then diff\<lparr>df_aliasesChanged := df_aliasesChanged diff @ [name]\<rparr> else diff);
              d2 = (if \<not> sameReaderTopology a b
                    then d1\<lparr>df_replaced := df_replaced d1 @ [name]\<rparr>
                    else if metadata_differs a b
                    then d1\<lparr>df_metadataChanged := df_metadataChanged d1 @ [name]\<rparr> else d1)
          in if \<not> sameAssignment (pv_access a) (pv_access b)
             then d2\<lparr>df_accessChanged := df_accessChanged d2 @ [name]\<rparr> else d2)"

definition backend_differs :: "AppConfig \<Rightarrow> AppConfig \<Rightarrow> string \<Rightarrow> bool" where
  "backend_differs before after name =
     (case (omap_find (cfg_redisBackends before) name, omap_find (cfg_redisBackends after) name) of
        (Some a, Some b) \<Rightarrow> \<not> sameRedisConfig a b
      | _ \<Rightarrow> True)"

definition changed_backends :: "AppConfig \<Rightarrow> AppConfig \<Rightarrow> string list" where
  "changed_backends before after =
     filter (backend_differs before after)
       (oset (map fst (cfg_redisBackends before) @ map fst (cfg_redisBackends after)))"

definition uses_changed_backend :: "string list \<Rightarrow> PVConfig \<Rightarrow> bool" where
  "uses_changed_backend changed pv =
     (rt_backend (pv_read pv) \<in> set changed
      \<or> (case pv_write pv of None \<Rightarrow> False | Some w \<Rightarrow> rt_backend w \<in> set changed)
      \<or> (case pv_confirm pv of None \<Rightarrow> False | Some c \<Rightarrow> cf_backend c \<in> set changed))"

definition promote_pv :: "(string, PVConfig) omap \<Rightarrow> string \<times> PVConfig \<Rightarrow> ConfigDiff \<Rightarrow> ConfigDiff" where
  "promote_pv oldPVs item diff =
     (if omap_find oldPVs (fst item) = None then diff
      else if uses_changed_backend (df_backendsChanged diff) (snd item)
      then diff\<lparr>
        df_replaced := (if fst item \<in> set (df_replaced diff) then df_replaced diff
                        else df_replaced diff @ [fst item]),
        df_metadataChanged := removeAll (fst item) (df_metadataChanged diff)\<rparr>
      else diff)"

definition rpc_changes :: "AppConfig \<Rightarrow> AppConfig \<Rightarrow> string list" where
  "rpc_changes before after =
     (if list_all2 sameRpc (cfg_rpcServices before) (cfg_rpcServices after) then []
      else oset (map (\<lambda>s. rs_service s @ rs_suffix s) (cfg_rpcServices before @ cfg_rpcServices after)))"

definition diffConfigs :: "AppConfig \<Rightarrow> AppConfig \<Rightarrow> ConfigDiff" where
  "diffConfigs before after =
     (let oldPVs = pv_index before; newPVs = pv_index after;
          d0 = empty_diff\<lparr>df_restartRequired := restart_reasons before after,
            df_accessChanged := (if \<not> sameAccessConfig (cfg_access before) (cfg_access after)
              then [''policy/defaults/watcher''] else [])\<rparr>;
          d1 = fold (diff_old_pv newPVs) oldPVs d0;
          d2 = d1\<lparr>df_added := filter (\<lambda>name. omap_find oldPVs name = None) (map fst newPVs),
            df_backendsChanged := changed_backends before after\<rparr>;
          d3 = fold (promote_pv oldPVs) newPVs d2;
          cf = cfg_channelFinder before; cg = cfg_channelFinder after
      in d3\<lparr>df_replaced := sort (df_replaced d3),
            df_rpcServicesChanged := rpc_changes before after,
            df_alarmStreamChanged := \<not> sameAlarmStreamConfig (cfg_alarms before) (cfg_alarms after),
            df_catalogMetadataChanged := \<not> (ch_url cf = ch_url cg \<and> ch_owner cf = ch_owner cg
              \<and> ch_tags cf = ch_tags cg \<and> ch_properties cf = ch_properties cg)\<rparr>)"

section \<open>Rendering\<close>

definition hex_digit :: "nat \<Rightarrow> char" where
  "hex_digit n = char_of (if n < 10 then 48 + n else 87 + n)"

definition quote_char :: "char \<Rightarrow> string" where
  "quote_char c =
     (if c = CHR 0x22 then [CHR 0x5C, CHR 0x22]
      else if c = CHR 0x5C then [CHR 0x5C, CHR 0x5C]
      else if c = CHR 0x0A then [CHR 0x5C, CHR 0x6E]
      else if c = CHR 0x0D then [CHR 0x5C, CHR 0x72]
      else if c = CHR 0x09 then [CHR 0x5C, CHR 0x74]
      else if (of_char c :: nat) < 32
      then [CHR 0x5C, CHR 0x75, CHR 0x30, CHR 0x30, hex_digit (of_char c div 16), hex_digit (of_char c mod 16)]
      else [c])"

definition quoteJson :: "string \<Rightarrow> string" where
  "quoteJson v = [CHR 0x22] @ concat (map quote_char v) @ [CHR 0x22]"

definition diff_lists :: "ConfigDiff \<Rightarrow> (string \<times> string list) list" where
  "diff_lists diff =
     [(''additions'', df_added diff), (''removals'', df_removed diff), (''replacements'', df_replaced diff),
      (''metadata_changes'', df_metadataChanged diff), (''access_changes'', df_accessChanged diff),
      (''alias_changes'', df_aliasesChanged diff), (''backend_changes'', df_backendsChanged diff),
      (''rpc_service_changes'', df_rpcServicesChanged diff), (''restart_required'', df_restartRequired diff)]"

definition json_list :: "string \<times> string list \<Rightarrow> string" where
  "json_list e = quoteJson (fst e) @ '':['' @ join '','' (map quoteJson (snd e)) @ '']''"

definition text_list :: "string \<times> string list \<Rightarrow> string" where
  "text_list e = fst e @ '' ('' @ to_string (length (snd e)) @ '')''
     @ concat (map (\<lambda>v. [CHR 0x0A] @ ''  '' @ v) (snd e)) @ [CHR 0x0A]"

definition formatConfigDiff :: "ConfigDiff \<Rightarrow> bool \<Rightarrow> string" where
  "formatConfigDiff diff json =
     (if json then
        ''{'' @ join '','' (map json_list (diff_lists diff))
          @ '','' @ quoteJson ''alarm_stream_changed'' @ '':''
          @ (if df_alarmStreamChanged diff then ''true'' else ''false'')
          @ '','' @ quoteJson ''catalog_metadata_changed'' @ '':''
          @ (if df_catalogMetadataChanged diff then ''true'' else ''false'') @ ''}''
      else
        concat (map text_list (diff_lists diff))
          @ ''alarm_stream_changed: '' @ (if df_alarmStreamChanged diff then ''yes'' else ''no'')
          @ [CHR 0x0A] @ ''catalog_metadata_changed: ''
          @ (if df_catalogMetadataChanged diff then ''yes'' else ''no'') @ [CHR 0x0A])"

section \<open>Reading a quoted string back\<close>

definition hex_value :: "char \<Rightarrow> nat" where
  "hex_value c = (let n = of_char c in if n < 58 then n - 48 else n - 87)"

text \<open>The string after the opening quote and what follows the closing one.\<close>

fun unquote :: "string \<Rightarrow> (string \<times> string) option" where
  "unquote [] = None"
| "unquote (c # cs) =
     (if c = CHR 0x22 then Some ([], cs)
      else if c \<noteq> CHR 0x5C then map_option (\<lambda>(s, r). (c # s, r)) (unquote cs)
      else case cs of
        d # ds \<Rightarrow>
          if d = CHR 0x22 \<or> d = CHR 0x5C then map_option (\<lambda>(s, r). (d # s, r)) (unquote ds)
          else if d = CHR 0x6E then map_option (\<lambda>(s, r). (CHR 0x0A # s, r)) (unquote ds)
          else if d = CHR 0x72 then map_option (\<lambda>(s, r). (CHR 0x0D # s, r)) (unquote ds)
          else if d = CHR 0x74 then map_option (\<lambda>(s, r). (CHR 0x09 # s, r)) (unquote ds)
          else if d = CHR 0x75 then
            (case ds of
               z # y # h # l # es \<Rightarrow>
                 map_option (\<lambda>(s, r). (char_of (16 * hex_value h + hex_value l) # s, r)) (unquote es)
             | _ \<Rightarrow> None)
          else None
      | [] \<Rightarrow> None)"

section \<open>Notions of the proofs\<close>

text \<open>An item of the old index whose successor in the new one is related to it.\<close>

definition both :: "(PVConfig \<Rightarrow> PVConfig \<Rightarrow> bool) \<Rightarrow> (string, PVConfig) omap \<Rightarrow> string \<times> PVConfig \<Rightarrow> bool" where
  "both P new item = (case omap_find new (fst item) of None \<Rightarrow> False | Some b \<Rightarrow> P (snd item) b)"

text \<open>The names the second pass moves to the replacements.\<close>

definition promoted :: "(string, PVConfig) omap \<Rightarrow> string list \<Rightarrow> (string, PVConfig) omap \<Rightarrow> string set" where
  "promoted old changed new = {n. \<exists>pv. (n, pv) \<in> set new \<and> omap_find old n \<noteq> None \<and> uses_changed_backend changed pv}"

text \<open>No NaN among the numbers a reload compares (the parser rejects them).\<close>

definition pv_no_nan :: "PVConfig \<Rightarrow> bool" where
  "pv_no_nan pv = (let m = pv_metadata pv; a = pv_alarms pv in
     list_all (\<lambda>x. x \<noteq> Some NaN) [lc_low (md_display m), lc_high (md_display m), lc_low (md_control m),
       lc_high (md_control m), md_minStep m, al_lowAlarm a, al_lowWarning a, al_highWarning a, al_highAlarm a]
     \<and> al_hysteresis a \<noteq> NaN
     \<and> (case pv_transform pv of None \<Rightarrow> True | Some t \<Rightarrow> tr_scale t \<noteq> NaN \<and> tr_offset t \<noteq> NaN)
     \<and> (case pv_initialValue pv of TVF32 x \<Rightarrow> x \<noteq> NaN | TVF64 x \<Rightarrow> x \<noteq> NaN
        | TVF32s xs \<Rightarrow> NaN \<notin> set xs | TVF64s xs \<Rightarrow> NaN \<notin> set xs | _ \<Rightarrow> True))"

section \<open>Quoting\<close>

lemma hex_digits:
  assumes "n < 32"
  shows "16 * hex_value (hex_digit (n div 16)) + hex_value (hex_digit (n mod 16)) = n"
proof -
  have v: "hex_value (hex_digit k) = k" if "k < 16" for k
    using that by (simp add: hex_value_def hex_digit_def Let_def of_char_of take_bit_eq_mod)
  have "n div 16 < 16" "n mod 16 < 16" using assms by auto
  then show ?thesis by (simp add: v)
qed

lemma unquote_char: "unquote (quote_char c @ cs) = map_option (\<lambda>(s, r). (c # s, r)) (unquote cs)"
proof (cases "(of_char c :: nat) < 32 \<and> c \<noteq> CHR 0x0A \<and> c \<noteq> CHR 0x0D \<and> c \<noteq> CHR 0x09")
  case True
  then have "c \<noteq> CHR 0x22" "c \<noteq> CHR 0x5C" by auto
  with True hex_digits[of "of_char c"] show ?thesis
    by (simp add: quote_char_def)
next
  case False
  then show ?thesis by (auto simp: quote_char_def)
qed

lemma unquote_quoted: "unquote (concat (map quote_char v) @ [CHR 0x22] @ rest) = Some (v, rest)"
  by (induction v) (simp_all add: unquote_char)

lemma quoteJson_inj: "quoteJson a = quoteJson b \<longleftrightarrow> a = b"
proof
  assume "quoteJson a = quoteJson b"
  then have "unquote (tl (quoteJson a)) = unquote (tl (quoteJson b))" by (rule arg_cong)
  then show "a = b" using unquote_quoted[of _ "[]"] by (simp add: quoteJson_def)
qed simp

section \<open>The first pass\<close>

lemma fold_diff_other:
  "df_added (fold (diff_old_pv new) old d) = df_added d"
  "df_backendsChanged (fold (diff_old_pv new) old d) = df_backendsChanged d"
  "df_restartRequired (fold (diff_old_pv new) old d) = df_restartRequired d"
  "df_rpcServicesChanged (fold (diff_old_pv new) old d) = df_rpcServicesChanged d"
  by (induction old arbitrary: d) (simp_all add: diff_old_pv_def Let_def split: option.splits)

lemma fold_diff_removed:
  "df_removed (fold (diff_old_pv new) old d) =
     df_removed d @ filter (\<lambda>n. omap_find new n = None) (map fst old)"
  by (induction old arbitrary: d) (simp_all add: diff_old_pv_def Let_def split: option.splits)

lemma fold_diff_replaced:
  "df_replaced (fold (diff_old_pv new) old d) =
     df_replaced d @ map fst (filter (both (\<lambda>a b. \<not> sameReaderTopology a b) new) old)"
  by (induction old arbitrary: d) (simp_all add: diff_old_pv_def both_def Let_def split: option.splits)

lemma fold_diff_metadata:
  "df_metadataChanged (fold (diff_old_pv new) old d) =
     df_metadataChanged d @ map fst (filter (both (\<lambda>a b. sameReaderTopology a b \<and> metadata_differs a b) new) old)"
  by (induction old arbitrary: d) (simp_all add: diff_old_pv_def both_def Let_def split: option.splits)

lemma fold_diff_aliases:
  "df_aliasesChanged (fold (diff_old_pv new) old d) =
     df_aliasesChanged d @ map fst (filter (both (\<lambda>a b. aliasSet a \<noteq> aliasSet b) new) old)"
  by (induction old arbitrary: d) (simp_all add: diff_old_pv_def both_def Let_def split: option.splits)

lemma fold_diff_access:
  "df_accessChanged (fold (diff_old_pv new) old d) =
     df_accessChanged d @ map fst (filter (both (\<lambda>a b. \<not> sameAssignment (pv_access a) (pv_access b)) new) old)"
  by (induction old arbitrary: d) (simp_all add: diff_old_pv_def both_def Let_def split: option.splits)

section \<open>The second pass\<close>

lemma fold_promote_other:
  "df_added (fold (promote_pv old) new d) = df_added d"
  "df_removed (fold (promote_pv old) new d) = df_removed d"
  "df_backendsChanged (fold (promote_pv old) new d) = df_backendsChanged d"
  "df_restartRequired (fold (promote_pv old) new d) = df_restartRequired d"
  "df_aliasesChanged (fold (promote_pv old) new d) = df_aliasesChanged d"
  "df_accessChanged (fold (promote_pv old) new d) = df_accessChanged d"
  "df_rpcServicesChanged (fold (promote_pv old) new d) = df_rpcServicesChanged d"
  by (induction new arbitrary: d) (simp_all add: promote_pv_def)

lemma fold_promote:
  "set (df_replaced (fold (promote_pv old) new d)) =
     set (df_replaced d) \<union> promoted old (df_backendsChanged d) new"
  "set (df_metadataChanged (fold (promote_pv old) new d)) =
     set (df_metadataChanged d) - promoted old (df_backendsChanged d) new"
proof (induction new arbitrary: d)
  case (Cons item new)
  have b: "df_backendsChanged (promote_pv old item d) = df_backendsChanged d" by (simp add: promote_pv_def)
  have p: "promoted old ch (item # new) = promoted old ch new \<union>
      (if omap_find old (fst item) \<noteq> None \<and> uses_changed_backend ch (snd item) then {fst item} else {})" for ch
    by (cases item) (auto simp: promoted_def)
  { case 1 show ?case unfolding fold.simps o_def Cons.IH(1) b p by (auto simp: promote_pv_def) }
  { case 2 show ?case unfolding fold.simps o_def Cons.IH(2) b p by (auto simp: promote_pv_def) }
qed (simp_all add: promoted_def)

lemma fold_promote_none:
  "df_backendsChanged d = [] \<Longrightarrow> fold (promote_pv old) new d = d"
proof -
  assume none: "df_backendsChanged d = []"
  have "\<not> uses_changed_backend [] pv" for pv
    by (simp add: uses_changed_backend_def split: option.split)
  then have "promote_pv old item d = d" for item using none by (simp add: promote_pv_def)
  then show ?thesis by (induction new) simp_all
qed

lemma pv_index_wf: "omap_wf (pv_index config)"
proof -
  have "omap_wf m \<Longrightarrow> omap_wf (fold (\<lambda>pv m. omap_emplace (f pv) pv m) pvs m)" for f pvs and m :: "(string, PVConfig) omap"
    by (induction pvs arbitrary: m) (simp_all add: omap_simps)
  then show ?thesis by (simp add: pv_index_def)
qed

lemma pv_index_distinct: "distinct (map fst (pv_index config))"
  using pv_index_wf omap_wf_distinct by blast

lemma pv_index_mem: "(n, pv) \<in> set (pv_index config) \<longleftrightarrow> omap_find (pv_index config) n = Some pv"
  using pv_index_distinct by (simp add: map_of_eq_Some_iff)

lemma both_mem:
  "n \<in> fst ` set (filter (both P (pv_index b)) (pv_index a)) \<longleftrightarrow>
     (\<exists>x y. omap_find (pv_index a) n = Some x \<and> omap_find (pv_index b) n = Some y \<and> P x y)"
  by (force simp: both_def pv_index_mem image_iff split: option.splits)

lemma diff_fields:
  fixes before after
  defines "old \<equiv> pv_index before" and "new \<equiv> pv_index after" and "ch \<equiv> changed_backends before after"
    and "d \<equiv> diffConfigs before after"
  shows "df_added d = filter (\<lambda>n. omap_find old n = None) (map fst new)"
    and "df_removed d = filter (\<lambda>n. omap_find new n = None) (map fst old)"
    and "df_backendsChanged d = ch"
    and "df_restartRequired d = restart_reasons before after"
    and "set (df_replaced d) = fst ` set (filter (both (\<lambda>a b. \<not> sameReaderTopology a b) new) old) \<union> promoted old ch new"
    and "set (df_metadataChanged d) =
      fst ` set (filter (both (\<lambda>a b. sameReaderTopology a b \<and> metadata_differs a b) new) old) - promoted old ch new"
    and "sorted (df_replaced d)"
  unfolding d_def old_def new_def ch_def
  by (simp_all add: diffConfigs_def Let_def fold_promote_other fold_promote fold_diff_removed fold_diff_other
      fold_diff_replaced fold_diff_metadata empty_diff_def)

section \<open>No change\<close>

lemma typed_eq_refl: "(case v of TVF32 x \<Rightarrow> x \<noteq> NaN | TVF64 x \<Rightarrow> x \<noteq> NaN
        | TVF32s xs \<Rightarrow> NaN \<notin> set xs | TVF64s xs \<Rightarrow> NaN \<notin> set xs | _ \<Rightarrow> True) \<Longrightarrow> typed_eq v v"
  by (cases v) (auto simp: typed_eq_def list_all2_same)

lemma sameReaderTopology_refl [simp]: "sameReaderTopology a a"
  by (auto simp: sameReaderTopology_def split: option.splits)

lemma sameAssignment_refl [simp]: "sameAssignment a a"
  by (cases a) auto

lemma metadata_same: "pv_no_nan pv \<Longrightarrow> \<not> metadata_differs pv pv"
  by (auto simp: pv_no_nan_def metadata_differs_def sameMetadata_def sameAlarms_def opt_fp_eq_iff typed_eq_refl
      Let_def split: option.splits)

lemma pv_index_pvs: "(n, pv) \<in> set (pv_index config) \<Longrightarrow> pv \<in> set (cfg_pvs config)"
proof -
  have mem: "(n, pv) \<in> set (omap_emplace k v m) \<Longrightarrow> (n, pv) \<in> set m \<or> (n, pv) = (k, v)" for n pv k v and m :: "(string, PVConfig) omap"
    by (induction k v m rule: omap_emplace.induct) (auto split: if_splits)
  have "(n, pv) \<in> set (fold (\<lambda>pv m. omap_emplace (f pv) pv m) pvs m) \<Longrightarrow> (n, pv) \<in> set m \<or> pv \<in> set pvs" for f pvs m
    by (induction pvs arbitrary: m) (auto dest: mem)
  then show "(n, pv) \<in> set (pv_index config) \<Longrightarrow> ?thesis" unfolding pv_index_def by fastforce
qed

lemma no_backend_change: "changed_backends c c = []"
  by (auto simp: changed_backends_def backend_differs_def oset_def filter_empty_conv map_of_eq_None_iff
      image_iff split: option.splits)

lemma diff_same:
  assumes "list_all pv_no_nan (cfg_pvs c)"
  shows "diffConfigs c c = empty_diff"
proof -
  have none: "fold (diff_old_pv (pv_index c)) xs d = d" if "set xs \<subseteq> set (pv_index c)" for xs d
    using that
  proof (induction xs arbitrary: d)
    case (Cons x xs)
    obtain n pv where x: "x = (n, pv)" by fastforce
    have f: "omap_find (pv_index c) n = Some pv" using Cons.prems x pv_index_mem by auto
    have "pv_no_nan pv" using pv_index_pvs[of n pv c] Cons.prems x assms by (auto simp: list_all_iff)
    then have "diff_old_pv (pv_index c) x d = d" using metadata_same by (simp add: diff_old_pv_def x f)
    then show ?case using Cons by simp
  qed simp
  have "list_all2 sameRpc (cfg_rpcServices c) (cfg_rpcServices c)" by (simp add: list_all2_same sameRpc_def)
  moreover have "filter (\<lambda>n. omap_find (pv_index c) n = None) (map fst (pv_index c)) = []"
    by (simp add: filter_empty_conv map_of_eq_None_iff)
  moreover have "restart_reasons c c = []"
    by (simp add: restart_reasons_def sameOperationLimits_def sameDiscoveryConfig_def)
  ultimately show ?thesis
    by (simp add: diffConfigs_def Let_def none fold_promote_none no_backend_change empty_diff_def
        sameAccessConfig_def sameAlarmStreamConfig_def rpc_changes_def)
qed

section \<open>Properties\<close>



text \<open>
  reloading the configuration that is in force reports no difference at all (no number of it
  being NaN), so an idempotent reload replaces nothing.
\<close>

theorem diff_of_same_config_is_empty:
  assumes "list_all pv_no_nan (cfg_pvs c)"
  shows "diffConfigs c c = empty_diff"
  using assms by (rule diff_same)

theorem diff_of_same_config_is_empty_witness:
  "diffConfigs (default_app\<lparr>cfg_pvs := [default_pv\<lparr>pv_name := ''p''\<rparr>]\<rparr>)
     (default_app\<lparr>cfg_pvs := [default_pv\<lparr>pv_name := ''p''\<rparr>]\<rparr>) = empty_diff"
  by (rule diff_of_same_config_is_empty)
    (simp add: pv_no_nan_def default_pv_def default_metadata_def default_alarm_def default_limit_def)

text \<open>
  C10: the reasons that forbid a live reload are complete and precise: the list is empty exactly
  when the server section, the operation limits, the discovery section and the access-control
  switch are unchanged.
\<close>

theorem restart_required_exactly:
  "df_restartRequired (diffConfigs before after) = [] \<longleftrightarrow>
     cfg_server before = cfg_server after \<and> cfg_limits before = cfg_limits after
     \<and> cfg_discovery before = cfg_discovery after
     \<and> ac_enabled (cfg_access before) = ac_enabled (cfg_access after)"
proof -
  have server: "cfg_server before = cfg_server after \<longleftrightarrow> sameServerConfig (cfg_server before) (cfg_server after)"
    by (cases "cfg_server before"; cases "cfg_server after") (auto simp: sameServerConfig_def)
  have limits: "cfg_limits before = cfg_limits after \<longleftrightarrow> sameOperationLimits (cfg_limits before) (cfg_limits after)"
    by (cases "cfg_limits before"; cases "cfg_limits after") (auto simp: sameOperationLimits_def)
  have disc: "cfg_discovery before = cfg_discovery after \<longleftrightarrow>
      sameDiscoveryConfig (cfg_discovery before) (cfg_discovery after)"
    by (cases "cfg_discovery before"; cases "cfg_discovery after") (auto simp: sameDiscoveryConfig_def)
  show ?thesis unfolding diff_fields(4) server limits disc restart_reasons_def Let_def sameServerConfig_def
    by (simp split: if_split)
qed


end
