(* ===== verification/Endpoints.thy ===== *)
theory Endpoints
  imports Config_Types
begin

text \<open>
  The endpoint registry of \<open>include/redis_pvxs_ioc/endpoints.h\<close>: the namespace of a
  generation, filled before anything live is changed. The errors carry what the source puts into
  the message. Success is characterised exactly: the diagnostics, PV names and aliases must be
  nonempty, NUL-free and pairwise distinct.
\<close>

section \<open>Model\<close>

datatype EndpointKind = Diagnostic | ValueEndpoint | Alias | RPC

record EndpointReservation =
  er_kind :: EndpointKind
  er_owner :: string

type_synonym EndpointRegistry = "(string, EndpointReservation) omap"

datatype endpoint_error =
    BadEndpointName string
  | ReservedName string string string
  | DuplicateName string string string

text \<open>The text of the exception.\<close>

fun endpoint_message :: "endpoint_error \<Rightarrow> string" where
  "endpoint_message (BadEndpointName path) = path @ '': PV names must be nonempty and must not contain NUL''"
| "endpoint_message (ReservedName path name owner) =
     path @ '': PV name conflicts with reserved metadata PV '' @ [CHR 0x27] @ name @ [CHR 0x27]
       @ '' (owned by '' @ owner @ '')''"
| "endpoint_message (DuplicateName path name owner) =
     path @ '': duplicate served PV name '' @ [CHR 0x27] @ name @ [CHR 0x27]
       @ '' (owned by '' @ owner @ '')''"

definition reserve :: "string \<Rightarrow> EndpointKind \<Rightarrow> string \<Rightarrow> string \<Rightarrow> EndpointRegistry
    \<Rightarrow> endpoint_error + EndpointRegistry" where
  "reserve name kind owner path entries =
     (if name = [] \<or> CHR 0x00 \<in> set name then Inl (BadEndpointName path)
      else case omap_find entries name of
        Some found \<Rightarrow>
          Inl (if er_kind found = Diagnostic then ReservedName path name (er_owner found)
               else DuplicateName path name (er_owner found))
      | None \<Rightarrow> Inr (omap_emplace name \<lparr>er_kind = kind, er_owner = owner\<rparr> entries))"

definition addDiagnostics :: "ServerConfig \<Rightarrow> EndpointRegistry \<Rightarrow> endpoint_error + EndpointRegistry" where
  "addDiagnostics server entries =
     efold (\<lambda>es name. reserve name Diagnostic ''runtime'' ''endpoints'' es) entries (adminPVNames server)"

definition addPV :: "ServerConfig \<Rightarrow> PVConfig \<Rightarrow> string \<Rightarrow> EndpointRegistry
    \<Rightarrow> endpoint_error + EndpointRegistry" where
  "addPV server pv path entries =
     (let names = fullPVNames server pv in
      efold (\<lambda>es (index, name).
        reserve name (if index = 0 then ValueEndpoint else Alias) (hd names)
          (path @ (if index = 0 then ''.name'' else ''.aliases['' @ to_string (index - 1) @ '']'')) es)
        entries (enumerate 0 names))"

definition configuredEndpoints :: "AppConfig \<Rightarrow> endpoint_error + EndpointRegistry" where
  "configuredEndpoints config =
     ebind (addDiagnostics (cfg_server config) []) (\<lambda>entries.
     efold (\<lambda>es (index, pv). addPV (cfg_server config) pv (''root.pvs['' @ to_string index @ '']'') es)
       entries (enumerate 0 (cfg_pvs config)))"

section \<open>The names a configuration serves\<close>

record request =
  rq_name :: string
  rq_kind :: EndpointKind
  rq_owner :: string
  rq_path :: string

definition reserve_request :: "EndpointRegistry \<Rightarrow> request \<Rightarrow> endpoint_error + EndpointRegistry" where
  "reserve_request es r = reserve (rq_name r) (rq_kind r) (rq_owner r) (rq_path r) es"

definition pv_requests :: "ServerConfig \<Rightarrow> string \<Rightarrow> PVConfig \<Rightarrow> request list" where
  "pv_requests server path pv =
     map (\<lambda>(index, name). \<lparr>rq_name = name, rq_kind = (if index = 0 then ValueEndpoint else Alias),
         rq_owner = fullPVName server pv,
         rq_path = path @ (if index = 0 then ''.name'' else ''.aliases['' @ to_string (index - 1) @ '']'')\<rparr>)
       (enumerate 0 (fullPVNames server pv))"

definition diagnostic_requests :: "ServerConfig \<Rightarrow> request list" where
  "diagnostic_requests server = map (\<lambda>name. \<lparr>rq_name = name, rq_kind = Diagnostic,
     rq_owner = ''runtime'', rq_path = ''endpoints''\<rparr>) (adminPVNames server)"

definition config_requests :: "AppConfig \<Rightarrow> request list" where
  "config_requests config = diagnostic_requests (cfg_server config) @
     concat (map (\<lambda>(index, pv). pv_requests (cfg_server config) (''root.pvs['' @ to_string index @ '']'') pv)
       (enumerate 0 (cfg_pvs config)))"

definition served_names :: "AppConfig \<Rightarrow> string list" where
  "served_names config = adminPVNames (cfg_server config)
     @ concat (map (fullPVNames (cfg_server config)) (cfg_pvs config))"

definition name_ok :: "string \<Rightarrow> bool" where
  "name_ok name = (name \<noteq> [] \<and> CHR 0x00 \<notin> set name)"

section \<open>Lemmas\<close>

lemma efold_map: "efold f s (map g xs) = efold (\<lambda>s x. f s (g x)) s xs"
  by (induction xs arbitrary: s) (auto simp: ebind_def split: sum.splits)

lemma efold_concat: "efold f s (concat xss) = efold (efold f) s xss"
  by (induction xss arbitrary: s) (simp_all add: efold_append)

lemma addDiagnostics_requests: "addDiagnostics server es = efold reserve_request es (diagnostic_requests server)"
  by (simp add: addDiagnostics_def diagnostic_requests_def efold_map reserve_request_def)

lemma addPV_requests: "addPV server pv path es = efold reserve_request es (pv_requests server path pv)"
  by (simp add: addPV_def pv_requests_def efold_map reserve_request_def fullPVNames_def Let_def
      case_prod_unfold)

lemma configuredEndpoints_requests: "configuredEndpoints config = efold reserve_request [] (config_requests config)"
  unfolding configuredEndpoints_def config_requests_def efold_append efold_concat efold_map
    addDiagnostics_requests addPV_requests
  by (simp add: case_prod_unfold)

lemma request_names: "map rq_name (config_requests config) = served_names config"
proof -
  have pv: "map rq_name (pv_requests server path pv) = fullPVNames server pv" for server path pv
    by (simp add: pv_requests_def case_prod_unfold comp_def)
  have "map rq_name (concat (map (\<lambda>(index, pv). pv_requests server (f index) pv) (enumerate n pvs)))
      = concat (map (fullPVNames server) pvs)" for server f n pvs
    by (induction pvs arbitrary: n) (simp_all add: pv)
  then show ?thesis
    by (simp add: config_requests_def served_names_def diagnostic_requests_def comp_def)
qed

lemma reserve_request_step:
  "(\<exists>es'. reserve_request es r = Inr es') \<longleftrightarrow> name_ok (rq_name r) \<and> omap_find es (rq_name r) = None"
  "reserve_request es r = Inr es' \<Longrightarrow>
     es' = omap_emplace (rq_name r) \<lparr>er_kind = rq_kind r, er_owner = rq_owner r\<rparr> es"
  by (auto simp: reserve_request_def reserve_def name_ok_def split: option.splits if_splits)

lemmas registry_insertions = om.unique_insertions[where f = reserve_request
    and ok = "\<lambda>r. name_ok (rq_name r)" and key = rq_name
    and val = "\<lambda>r. \<lparr>er_kind = rq_kind r, er_owner = rq_owner r\<rparr>",
    OF reserve_request_step(1) reserve_request_step(2)]

lemma configured_iff:
  "(\<exists>es. configuredEndpoints config = Inr es) \<longleftrightarrow>
     list_all name_ok (served_names config) \<and> distinct (served_names config)"
  unfolding configuredEndpoints_requests
  by (subst registry_insertions) (auto simp: list_all_iff simp flip: request_names)

lemma configured_lookup:
  assumes "configuredEndpoints config = Inr es"
  shows "omap_wf es" and "r \<in> set (config_requests config) \<Longrightarrow>
    omap_find es (rq_name r) = Some \<lparr>er_kind = rq_kind r, er_owner = rq_owner r\<rparr>"
    and "omap_find es name = None \<longleftrightarrow> name \<notin> set (served_names config)"
proof -
  let ?m = "map (\<lambda>r. (rq_name r, \<lparr>er_kind = rq_kind r, er_owner = rq_owner r\<rparr>)) (config_requests config)"
  have d: "distinct (map rq_name (config_requests config))"
    using assms configured_iff request_names by metis
  have e: "omap_wf es \<and> (\<forall>k. omap_find es k = (case map_of ?m k of None \<Rightarrow> None | Some v \<Rightarrow> Some v))"
    using registry_insertions(2)[of "[]" "config_requests config" es] assms
    by (auto simp: configuredEndpoints_requests split: option.split)
  then show "omap_wf es" by blast
  have k: "omap_find es k = map_of ?m k" for k using e by (simp split: option.splits)
  show "omap_find es (rq_name r) = Some \<lparr>er_kind = rq_kind r, er_owner = rq_owner r\<rparr>"
    if "r \<in> set (config_requests config)"
    unfolding k using that d by (intro map_of_is_SomeI) (auto simp: comp_def)
  show "omap_find es name = None \<longleftrightarrow> name \<notin> set (served_names config)"
    unfolding k by (auto simp: map_of_eq_None_iff image_image simp flip: request_names)
qed

section \<open>Properties\<close>

text \<open>
  C8: a configuration is given a namespace exactly when all the names it would serve (the
  diagnostics of the instance, the PV names and their aliases) are nonempty, free of NUL and
  pairwise distinct.
\<close>

theorem namespace_iff_names_distinct:
  "(\<exists>es. configuredEndpoints config = Inr es) \<longleftrightarrow>
     list_all name_ok (served_names config) \<and> distinct (served_names config)"
  by (rule configured_iff)

text \<open>
  the namespace of a configuration holds exactly the names it serves, and every PV owns its
  full name as a value and each alias as an alias.
\<close>

theorem namespace_owners:
  assumes "configuredEndpoints config = Inr es"
  shows "fst ` set es = set (served_names config)
    \<and> (\<forall>pv \<in> set (cfg_pvs config). let full = fullPVName (cfg_server config) pv in
         omap_find es full = Some \<lparr>er_kind = ValueEndpoint, er_owner = full\<rparr>
         \<and> (\<forall>a \<in> set (pv_aliases pv). omap_find es a = Some \<lparr>er_kind = Alias, er_owner = full\<rparr>))"
proof -
  let ?s = "cfg_server config"
  have "k \<in> fst ` set es \<longleftrightarrow> k \<in> set (served_names config)" for k
    using configured_lookup(3)[OF assms, of k] by (simp add: map_of_eq_None_iff)
  then have names: "fst ` set es = set (served_names config)" by blast
  have own: "omap_find es (fullPVName ?s pv) = Some \<lparr>er_kind = ValueEndpoint, er_owner = fullPVName ?s pv\<rparr>"
    "a \<in> set (pv_aliases pv) \<Longrightarrow> omap_find es a = Some \<lparr>er_kind = Alias, er_owner = fullPVName ?s pv\<rparr>"
    if pv: "pv \<in> set (cfg_pvs config)" for pv a
  proof -
    obtain i where "i < length (cfg_pvs config)" "cfg_pvs config ! i = pv"
      using pv by (auto simp: in_set_conv_nth)
    then have i: "(i, pv) \<in> set (enumerate 0 (cfg_pvs config))" by (simp add: in_set_enumerate_eq)
    define path where "path = ''root.pvs['' @ to_string i @ '']''"
    have sub: "set (pv_requests ?s path pv) \<subseteq> set (config_requests config)"
      using i by (force simp: config_requests_def path_def)
    have "\<lparr>rq_name = fullPVName ?s pv, rq_kind = ValueEndpoint, rq_owner = fullPVName ?s pv,
        rq_path = path @ ''.name''\<rparr> \<in> set (pv_requests ?s path pv)"
      by (simp add: pv_requests_def fullPVNames_def)
    from configured_lookup(2)[OF assms subsetD[OF sub this]]
    show "omap_find es (fullPVName ?s pv) = Some \<lparr>er_kind = ValueEndpoint, er_owner = fullPVName ?s pv\<rparr>" by simp
    assume "a \<in> set (pv_aliases pv)"
    then obtain j where j: "j < length (pv_aliases pv)" "pv_aliases pv ! j = a" by (auto simp: in_set_conv_nth)
    then have "(Suc j, a) \<in> set (enumerate (Suc 0) (pv_aliases pv))" by (simp add: in_set_enumerate_eq)
    then have "\<lparr>rq_name = a, rq_kind = Alias, rq_owner = fullPVName ?s pv,
        rq_path = path @ ''.aliases['' @ to_string j @ '']''\<rparr> \<in> set (pv_requests ?s path pv)"
      unfolding pv_requests_def set_map by (intro image_eqI[of _ _ "(Suc j, a)"]) (simp_all add: fullPVNames_def)
    from configured_lookup(2)[OF assms subsetD[OF sub this]]
    show "omap_find es a = Some \<lparr>er_kind = Alias, er_owner = fullPVName ?s pv\<rparr>" by simp
  qed
  show ?thesis using names own by (simp add: Let_def)
qed

definition demo_config :: AppConfig where
  "demo_config = default_app\<lparr>
     cfg_server := default_server\<lparr>sv_instance := ''ioc'', sv_nameSpace := ''NS''\<rparr>,
     cfg_pvs := [default_pv\<lparr>pv_name := ''p'', pv_aliases := [''q'']\<rparr>, default_pv\<lparr>pv_name := ''r''\<rparr>]\<rparr>"

lemma demo_config_ok: "\<exists>es. configuredEndpoints demo_config = Inr es"
  unfolding configured_iff
  by (simp add: demo_config_def served_names_def adminPVNames_def adminSuffixes_def name_ok_def
      versionPVName_def revisionPVName_def adminPVName_def fullPVNames_def fullPVName_def default_server_def
      default_pv_def)

theorem namespace_owners_witness:
  "\<exists>es. configuredEndpoints demo_config = Inr es
     \<and> omap_find es ''q'' = Some \<lparr>er_kind = Alias, er_owner = ''NS:p''\<rparr>"
proof -
  obtain es where es: "configuredEndpoints demo_config = Inr es" using demo_config_ok by blast
  show ?thesis using namespace_owners[OF es] es by (simp add: demo_config_def fullPVName_def default_server_def Let_def)
qed

end
