(* ===== verification/Discovery_Catalog.thy ===== *)
theory Discovery_Catalog
  imports Config_Types
begin

text \<open>
  The discovery catalog of \<open>src/src/discovery.cpp\<close>: the big-endian wire encoding of the PVs a
  generation serves (\<open>append16\<close> to \<open>prepareDiscoveryCatalog\<close>). \<open>decode_wire\<close> is the
  receiving side, written from the layout the encoder documents; the catalog is proved to decode
  to exactly the identity, records, aliases and properties it was prepared from.
\<close>

unbundle bit_operations_syntax

section \<open>Encoding\<close>

type_synonym bytes = "u8 list"

definition magic :: u16 where
  "magic = 0x5243"

definition append16 :: "bytes \<Rightarrow> u16 \<Rightarrow> bytes" where
  "append16 out v = out @ [ucast (drop_bit 8 v), ucast (v AND 0xff)]"

definition append32 :: "bytes \<Rightarrow> u32 \<Rightarrow> bytes" where
  "append32 out v = append16 (append16 out (ucast (drop_bit 16 v))) (ucast (v AND 0xffff))"

text \<open>Reads at an offset into the buffer.\<close>

definition read16 :: "bytes \<Rightarrow> nat \<Rightarrow> u16" where
  "read16 bs i = push_bit 8 (ucast (bs ! i)) OR ucast (bs ! (i + 1))"

definition read32 :: "bytes \<Rightarrow> nat \<Rightarrow> u32" where
  "read32 bs i = push_bit 16 (ucast (read16 bs i)) OR ucast (read16 bs (i + 2))"

definition text_bytes :: "string \<Rightarrow> bytes" where
  "text_bytes s = map (\<lambda>c. word_of_nat (of_char c)) s"

definition appendText :: "bytes \<Rightarrow> string \<Rightarrow> bytes" where
  "appendText out s = out @ text_bytes s"

datatype text_field = PropertyName | PropertyValue | PVName | TypeName | AliasName

datatype discovery_error =
    BadText text_field
  | NameNotAscii
  | ExceedsMaxBytes
  | ExceedsMaxRecords
  | DuplicatePV string

definition validateText :: "string \<Rightarrow> nat \<Rightarrow> text_field \<Rightarrow> bool \<Rightarrow> discovery_error + unit" where
  "validateText s maximum field allowEmpty =
     ensure (\<not> ((\<not> allowEmpty \<and> s = []) \<or> maximum < length s \<or> CHR 0x00 \<in> set s)) (BadText field)"

definition message :: "bytes \<Rightarrow> u16 \<Rightarrow> bytes \<Rightarrow> u64 \<Rightarrow> discovery_error + bytes" where
  "message wire i body maximum =
     (if unat maximum < length wire \<or> unat maximum - length wire < length body + 8
      then Inl ExceedsMaxBytes
      else Inr (append32 (append16 (append16 wire magic) i) (word_of_nat (length body)) @ body))"

definition info_body :: "u32 \<Rightarrow> string \<Rightarrow> string \<Rightarrow> bytes" where
  "info_body i key v =
     appendText (appendText
       (append16 (append32 [] i @ [word_of_nat (length key), 0]) (word_of_nat (length v))) key) v"

definition info :: "bytes \<Rightarrow> u32 \<Rightarrow> string \<Rightarrow> string \<Rightarrow> u64 \<Rightarrow> discovery_error + bytes" where
  "info wire i key v maximum =
     ebind (validateText key 255 PropertyName False) (\<lambda>_.
     ebind (validateText v 65535 PropertyValue True) (\<lambda>_.
     ebind (ensure (\<not> list_ex (\<lambda>c. 128 \<le> (of_char c :: nat)) key) NameNotAscii) (\<lambda>_.
     message wire 6 (info_body i key v) maximum)))"

record DiscoveryRecord =
  dr_name :: string
  dr_type :: string
  dr_aliases :: "string list"
  dr_properties :: "(string, string) omap"

record DiscoveryCatalog =
  cat_generation :: u64
  cat_records :: nat
  cat_aliases :: nat
  cat_wire :: bytes

record builder =
  b_catalog :: DiscoveryCatalog
  b_names :: "string list"
  b_id :: u32

definition record_body :: "u32 \<Rightarrow> DiscoveryRecord \<Rightarrow> bytes" where
  "record_body i r =
     appendText (appendText
       (append16 (append32 [] i @ [0, word_of_nat (length (dr_type r))]) (word_of_nat (length (dr_name r))))
       (dr_type r)) (dr_name r)"

definition alias_body :: "u32 \<Rightarrow> string \<Rightarrow> bytes" where
  "alias_body i a = appendText (append16 (append32 [] i @ [1, 0]) (word_of_nat (length a))) a"

definition add_info :: "DiscoveryConfig \<Rightarrow> u32 \<Rightarrow> DiscoveryCatalog \<Rightarrow> string \<times> string
    \<Rightarrow> discovery_error + DiscoveryCatalog" where
  "add_info limits i c kv =
     ebind (info (cat_wire c) i (fst kv) (snd kv) (dc_maxBytes limits)) (\<lambda>w. Inr (c\<lparr>cat_wire := w\<rparr>))"

definition room_for_record :: "DiscoveryConfig \<Rightarrow> DiscoveryCatalog \<Rightarrow> discovery_error + unit" where
  "room_for_record limits c =
     ensure (\<not> unat (dc_maxRecords limits) \<le> cat_records c + cat_aliases c) ExceedsMaxRecords"

definition add_alias :: "DiscoveryConfig \<Rightarrow> builder \<Rightarrow> string \<Rightarrow> discovery_error + builder" where
  "add_alias limits b a =
     (let c = b_catalog b in
      ebind (room_for_record limits c) (\<lambda>_.
      ebind (validateText a 65535 AliasName False) (\<lambda>_.
      ebind (ensure (a \<notin> set (b_names b)) (DuplicatePV a)) (\<lambda>_.
      ebind (message (cat_wire c) 3 (alias_body (b_id b) a) (dc_maxBytes limits)) (\<lambda>w.
      Inr (b\<lparr>b_catalog := c\<lparr>cat_wire := w, cat_aliases := cat_aliases c + 1\<rparr>,
             b_names := a # b_names b\<rparr>))))))"

definition add_record :: "DiscoveryConfig \<Rightarrow> builder \<Rightarrow> DiscoveryRecord \<Rightarrow> discovery_error + builder" where
  "add_record limits b r =
     (let c = b_catalog b; i = b_id b + 1 in
      ebind (room_for_record limits c) (\<lambda>_.
      ebind (validateText (dr_name r) 65535 PVName False) (\<lambda>_.
      ebind (validateText (dr_type r) 255 TypeName False) (\<lambda>_.
      ebind (ensure (dr_name r \<notin> set (b_names b)) (DuplicatePV (dr_name r))) (\<lambda>_.
      ebind (message (cat_wire c) 3 (record_body i r) (dc_maxBytes limits)) (\<lambda>w.
      ebind (efold (add_alias limits)
        (b\<lparr>b_catalog := c\<lparr>cat_wire := w, cat_records := cat_records c + 1\<rparr>,
           b_names := dr_name r # b_names b, b_id := i\<rparr>) (dr_aliases r)) (\<lambda>b'.
      ebind (efold (add_info limits i) (b_catalog b') (dr_properties r)) (\<lambda>c'.
      Inr (b'\<lparr>b_catalog := c'\<rparr>)))))))))"

definition prepareDiscoveryCatalog :: "DiscoveryConfig \<Rightarrow> u64 \<Rightarrow> (string, string) omap
    \<Rightarrow> DiscoveryRecord list \<Rightarrow> discovery_error + DiscoveryCatalog" where
  "prepareDiscoveryCatalog limits generation identity records =
     ebind (efold (add_info limits 0)
       \<lparr>cat_generation = generation, cat_records = 0, cat_aliases = 0, cat_wire = []\<rparr> identity) (\<lambda>c.
     ebind (efold (add_record limits) \<lparr>b_catalog = c, b_names = [], b_id = 0\<rparr> records) (\<lambda>b.
     let c = b_catalog b in
     ebind (message (cat_wire c) 5 (replicate 4 0) (dc_maxBytes limits)) (\<lambda>w.
     Inr (c\<lparr>cat_wire := w\<rparr>))))"

section \<open>The receiving side\<close>

function read_frames :: "bytes \<Rightarrow> (u16 \<times> bytes) list option" where
  "read_frames bs =
     (if bs = [] then Some []
      else if length bs < 8 \<or> read16 bs 0 \<noteq> magic then None
      else let n = unat (read32 bs 4); rest = drop 8 bs in
        if length rest < n then None
        else case read_frames (drop n rest) of
          None \<Rightarrow> None
        | Some fs \<Rightarrow> Some ((read16 bs 2, take n rest) # fs))"
  by auto
termination by (relation "measure length") auto

datatype item =
    Property u32 string string
  | Record u32 string string
  | AliasOf u32 string
  | EndOfCatalog

definition bytes_text :: "bytes \<Rightarrow> string" where
  "bytes_text bs = map (\<lambda>b. char_of (unat b)) bs"

definition decode_item :: "u16 \<times> bytes \<Rightarrow> item option" where
  "decode_item m =
     (let t = fst m; body = snd m in
      if t = 5 \<and> body = replicate 4 0 then Some EndOfCatalog
      else if (t = 3 \<or> t = 6) \<and> 8 \<le> length body then
        let i = read32 body 0; small = unat (body ! (if t = 3 then 5 else 4));
            big = unat (read16 body 6);
            first = bytes_text (take small (drop 8 body)); second = bytes_text (drop (8 + small) body)
        in if length body \<noteq> 8 + small + big then None
           else if t = 6 then Some (Property i first second)
           else if body ! 4 = 0 then Some (Record i first second)
           else if body ! 4 = 1 \<and> small = 0 then Some (AliasOf i second)
           else None
      else None)"

fun decode_items :: "(u16 \<times> bytes) list \<Rightarrow> item list option" where
  "decode_items [] = Some []"
| "decode_items (m # ms) =
     (case decode_item m of None \<Rightarrow> None | Some x \<Rightarrow>
        (case decode_items ms of None \<Rightarrow> None | Some xs \<Rightarrow> Some (x # xs)))"

definition decode_wire :: "bytes \<Rightarrow> item list option" where
  "decode_wire bs = (case read_frames bs of None \<Rightarrow> None | Some ms \<Rightarrow> decode_items ms)"

text \<open>What the catalog says: the identity, then each record with its aliases and properties.\<close>

definition record_items :: "u32 \<Rightarrow> DiscoveryRecord \<Rightarrow> item list" where
  "record_items i r = Record i (dr_type r) (dr_name r) # map (AliasOf i) (dr_aliases r)
     @ map (\<lambda>(k, v). Property i k v) (dr_properties r)"

fun records_items :: "u32 \<Rightarrow> DiscoveryRecord list \<Rightarrow> item list" where
  "records_items i [] = []"
| "records_items i (r # rs) = record_items (i + 1) r @ records_items (i + 1) rs"

definition catalog_items :: "(string, string) omap \<Rightarrow> DiscoveryRecord list \<Rightarrow> item list" where
  "catalog_items identity records =
     map (\<lambda>(k, v). Property 0 k v) identity @ records_items 0 records @ [EndOfCatalog]"

definition record_names :: "DiscoveryRecord \<Rightarrow> string list" where
  "record_names r = dr_name r # dr_aliases r"

definition frame :: "u16 \<Rightarrow> bytes \<Rightarrow> bytes" where
  "frame i body = append16 [] magic @ append16 [] i @ append32 [] (word_of_nat (length body)) @ body"

text \<open>The bytes \<open>w\<close> are whole frames that decode to \<open>xs\<close>.\<close>

inductive says :: "bytes \<Rightarrow> item list \<Rightarrow> bool" where
  nil: "says [] []"
| frame: "says w xs \<Longrightarrow> length body < 2 ^ 32 \<Longrightarrow> decode_item (i, body) = Some x
    \<Longrightarrow> says (w @ frame i body) (xs @ [x])"

text \<open>A catalog under construction that says \<open>xs\<close> and names \<open>names\<close>, within the limits.\<close>

definition built :: "DiscoveryConfig \<Rightarrow> DiscoveryCatalog \<Rightarrow> string list \<Rightarrow> item list \<Rightarrow> bool" where
  "built limits c names xs \<longleftrightarrow> says (cat_wire c) xs \<and> length (cat_wire c) \<le> unat (dc_maxBytes limits)
     \<and> cat_records c + cat_aliases c \<le> unat (dc_maxRecords limits)
     \<and> cat_records c + cat_aliases c = length names \<and> distinct names"

text \<open>A concrete generation.\<close>

definition demo_discovery :: DiscoveryConfig where
  "demo_discovery = default_discovery\<lparr>dc_maxRecords := 3, dc_maxBytes := 200\<rparr>"

definition demo_identity :: "(string, string) omap" where
  "demo_identity = [(''iocName'', ''demo'')]"

definition demo_records :: "DiscoveryRecord list" where
  "demo_records = [\<lparr>dr_name = ''A:b'', dr_type = ''float64'', dr_aliases = [''c''],
       dr_properties = [(''k'', ''v'')]\<rparr>,
     \<lparr>dr_name = ''d'', dr_type = ''rpc'', dr_aliases = [], dr_properties = []\<rparr>]"

section \<open>Correctness\<close>

declare read_frames.simps [simp del]

lemma join16: "push_bit 8 (ucast (ucast (drop_bit 8 v) :: u8)) OR ucast (ucast (v AND 0xff) :: u8) = (v :: u16)"
proof -
  have m: "(0xff :: u16) = mask 8" by (simp add: mask_eq_exp_minus_1)
  show ?thesis unfolding m by (rule bit_word_eqI) (auto simp: bit_simps)
qed

lemma join32: "push_bit 16 (ucast (ucast (drop_bit 16 v) :: u16)) OR ucast (ucast (v AND 0xffff) :: u16) = (v :: u32)"
proof -
  have m: "(0xffff :: u32) = mask 16" by (simp add: mask_eq_exp_minus_1)
  show ?thesis unfolding m by (rule bit_word_eqI) (auto simp: bit_simps)
qed

lemma length_append16 [simp]: "length (append16 out v) = length out + 2"
  by (simp add: append16_def)

lemma length_append32 [simp]: "length (append32 out v) = length out + 4"
  by (simp add: append32_def)

lemma append16_eq: "append16 out v = out @ append16 [] v"
  by (simp add: append16_def)

lemma append32_eq: "append32 out v = out @ append32 [] v"
  by (simp add: append32_def append16_def)

lemma length_text_bytes [simp]: "length (text_bytes s) = length s"
  by (simp add: text_bytes_def)

lemma read16_append16: "i = length pre \<Longrightarrow> read16 (pre @ append16 [] v @ post) i = v"
  by (simp add: read16_def append16_def nth_append join16)

lemma read32_append32: "i = length pre \<Longrightarrow> read32 (pre @ append32 [] v @ post) i = v"
proof -
  assume i: "i = length pre"
  have e: "append32 [] v = append16 [] (ucast (drop_bit 16 v)) @ append16 [] (ucast (v AND 0xffff))"
    by (simp add: append32_def append16_def)
  have "read16 (pre @ append32 [] v @ post) i = ucast (drop_bit 16 v)"
    unfolding e by (simp add: read16_append16 i)
  moreover have "read16 (pre @ append32 [] v @ post) (i + 2) = ucast (v AND 0xffff)"
    using read16_append16[of "i + 2" "pre @ append16 [] (ucast (drop_bit 16 v))" "ucast (v AND 0xffff)" post]
    by (simp add: e i)
  ultimately show ?thesis by (simp only: read32_def join32)
qed

lemma message_iff: "message wire i body maximum = Inr w \<longleftrightarrow>
    w = wire @ frame i body \<and> length wire + length body + 8 \<le> unat maximum"
  unfolding message_def frame_def
  by (subst append32_eq, subst append16_eq, subst (2) append16_eq) auto

lemma length_frame [simp]: "length (frame i body) = length body + 8"
  by (simp add: frame_def)

lemma read_frames_frame:
  assumes "length body < 2 ^ 32"
  shows "read_frames (frame i body @ rest) = map_option ((#) (i, body)) (read_frames rest)"
proof -
  let ?bs = "frame i body @ rest"
  have m: "read16 ?bs 0 = magic" using read16_append16[of 0 "[]" magic] by (simp add: frame_def)
  have t: "read16 ?bs 2 = i"
    using read16_append16[of 2 "append16 [] magic" i "append32 [] (word_of_nat (length body)) @ body @ rest"]
    by (simp add: frame_def)
  have "read32 ?bs 4 = word_of_nat (length body)"
    using read32_append32[of 4 "append16 [] magic @ append16 [] i" "word_of_nat (length body)" "body @ rest"]
    by (simp add: frame_def)
  then have n: "unat (read32 ?bs 4) = length body" using assms by (simp add: unsigned_of_nat take_bit_nat_eq_self)
  have d: "drop 8 (frame i body) = body" by (simp add: frame_def)
  have ne: "?bs \<noteq> []" "\<not> length ?bs < 8" by (auto simp: frame_def append16_def)
  show ?thesis
    by (subst read_frames.simps) (simp add: ne m t n d Let_def del: append_is_Nil_conv split: option.split)
qed

lemma decode_items_append:
  "decode_items (a @ b) = (case decode_items a of None \<Rightarrow> None | Some xs \<Rightarrow> map_option ((@) xs) (decode_items b))"
  by (induction a) (auto split: option.splits simp: option.map_ident, cases "decode_items b", auto)

lemma says_frames:
  "says w xs \<Longrightarrow> \<exists>ms. (\<forall>rest. read_frames (w @ rest) = map_option ((@) ms) (read_frames rest))
    \<and> decode_items ms = Some xs"
proof (induction rule: says.induct)
  case nil
  then show ?case by (intro exI[of _ "[]"]) (auto simp: option.map_ident)
next
  case (frame w xs body i x)
  then obtain ms where ms: "\<forall>rest. read_frames (w @ rest) = map_option ((@) ms) (read_frames rest)"
    "decode_items ms = Some xs" by blast
  have "read_frames ((w @ frame i body) @ rest) = map_option ((@) (ms @ [(i, body)])) (read_frames rest)" for rest
    using ms(1)[rule_format, of "frame i body @ rest"] read_frames_frame[OF frame(2)]
    by (cases "read_frames rest") auto
  moreover have "decode_items (ms @ [(i, body)]) = Some (xs @ [x])"
    using ms(2) frame(3) by (simp add: decode_items_append)
  ultimately show ?case by blast
qed

lemma says_decode: "says w xs \<Longrightarrow> decode_wire w = Some xs"
proof -
  assume "says w xs"
  then obtain ms where ms: "\<forall>rest. read_frames (w @ rest) = map_option ((@) ms) (read_frames rest)"
    "decode_items ms = Some xs" using says_frames by blast
  have "read_frames w = Some ms" using ms(1)[rule_format, of "[]"]
    by (simp add: read_frames.simps[of "[]"])
  then show ?thesis using ms(2) by (simp add: decode_wire_def)
qed

lemma of_char_u8 [simp]: "unat (word_of_nat (of_char c) :: u8) = of_char c"
proof -
  have "(of_char c :: nat) < 2 ^ 8" using nat_of_char_less_256[of c] by simp
  then show ?thesis by (simp add: unsigned_of_nat take_bit_nat_eq_self)
qed

lemma text_roundtrip [simp]: "bytes_text (text_bytes s) = s"
  by (induction s) (auto simp: bytes_text_def text_bytes_def)


text \<open>The layout shared by records, aliases and properties.\<close>

lemma layout:
  assumes body: "body = append32 [] i @ [x, y] @ append16 [] (word_of_nat (length b)) @ text_bytes a @ text_bytes b"
    and b: "length b \<le> 65535"
  shows "read32 body 0 = i" "unat (read16 body 6) = length b" "body ! 4 = x" "body ! 5 = y"
    "drop 8 body = text_bytes a @ text_bytes b" "length body = 8 + length a + length b"
    "drop (8 + length a) body = text_bytes b"
proof -
  show "read32 body 0 = i" using read32_append32[of 0 "[]"] by (simp add: body)
  have "read16 body 6 = word_of_nat (length b)"
    using read16_append16[of 6 "append32 [] i @ [x, y]"] by (simp add: body)
  then show "unat (read16 body 6) = length b" using b by (simp add: unsigned_of_nat take_bit_nat_eq_self)
  show "body ! 4 = x" "body ! 5 = y" by (simp_all add: body nth_append)
  show d: "drop 8 body = text_bytes a @ text_bytes b" by (simp add: body)
  show "length body = 8 + length a + length b" by (simp add: body)
  have "drop (8 + length a) body = drop (length a) (drop 8 body)" by (simp add: add.commute)
  then show "drop (8 + length a) body = text_bytes b" by (simp add: d)
qed

lemma record_body_eq: "record_body i r = append32 [] i @ [0, word_of_nat (length (dr_type r))]
    @ append16 [] (word_of_nat (length (dr_name r))) @ text_bytes (dr_type r) @ text_bytes (dr_name r)"
  unfolding record_body_def appendText_def by (subst append16_eq) simp

lemma alias_body_eq: "alias_body i a = append32 [] i @ [1, 0] @ append16 [] (word_of_nat (length a))
    @ text_bytes [] @ text_bytes a"
  unfolding alias_body_def appendText_def by (subst append16_eq) (simp add: text_bytes_def)

lemma info_body_eq: "info_body i k v = append32 [] i @ [word_of_nat (length k), 0]
    @ append16 [] (word_of_nat (length v)) @ text_bytes k @ text_bytes v"
  unfolding info_body_def appendText_def by (subst append16_eq) simp

lemma decode_record:
  assumes "length (dr_type r) \<le> 255" "length (dr_name r) \<le> 65535"
  shows "decode_item (3, record_body i r) = Some (Record i (dr_type r) (dr_name r))"
  using layout[OF record_body_eq[of i r] assms(2)] assms(1)
  by (simp add: decode_item_def Let_def unsigned_of_nat take_bit_nat_eq_self)

lemma decode_alias:
  assumes "length a \<le> 65535"
  shows "decode_item (3, alias_body i a) = Some (AliasOf i a)"
  using layout[OF alias_body_eq assms] by (simp add: decode_item_def Let_def)

lemma decode_info:
  assumes "length k \<le> 255" "length v \<le> 65535"
  shows "decode_item (6, info_body i k v) = Some (Property i k v)"
  using layout[OF info_body_eq[of i k v] assms(2)] assms(1)
  by (simp add: decode_item_def Let_def unsigned_of_nat take_bit_nat_eq_self)

lemma length_bodies:
  "length (record_body i r) = 8 + length (dr_type r) + length (dr_name r)"
  "length (alias_body i a) = 8 + length a"
  "length (info_body i k v) = 8 + length k + length v"
  by (simp_all add: record_body_eq alias_body_eq info_body_eq)

lemma validateText_iff [res_simps]: "validateText s n f e = Inr u \<longleftrightarrow>
    (e \<or> s \<noteq> []) \<and> length s \<le> n \<and> CHR 0x00 \<notin> set s"
  by (auto simp: validateText_def res_simps)

lemma add_info_built:
  assumes "add_info limits i c kv = Inr c'" "built limits c names xs"
  shows "built limits c' names (xs @ [case kv of (k, v) \<Rightarrow> Property i k v])
    \<and> cat_records c' = cat_records c \<and> cat_aliases c' = cat_aliases c \<and> cat_generation c' = cat_generation c"
  using assms
  by (cases kv) (auto simp: add_info_def info_def message_iff res_simps length_bodies decode_info built_def
      intro!: says.frame)

lemma infos_built:
  assumes "efold (add_info limits i) c kvs = Inr c'" "built limits c names xs"
  shows "built limits c' names (xs @ map (\<lambda>(k, v). Property i k v) kvs)
    \<and> cat_records c' = cat_records c \<and> cat_aliases c' = cat_aliases c \<and> cat_generation c' = cat_generation c"
  using assms
proof (induction kvs arbitrary: c xs)
  case (Cons kv kvs)
  then obtain c1 where c1: "add_info limits i c kv = Inr c1" "efold (add_info limits i) c1 kvs = Inr c'"
    by (auto simp: res_simps)
  with Cons.IH[OF c1(2)] add_info_built[OF c1(1) Cons.prems(2)] show ?case by fastforce
qed simp

lemma add_alias_built:
  assumes "add_alias limits b a = Inr b'" "built limits (b_catalog b) (b_names b) xs"
  shows "built limits (b_catalog b') (b_names b') (xs @ [AliasOf (b_id b) a]) \<and> b_id b' = b_id b
    \<and> b_names b' = a # b_names b \<and> cat_records (b_catalog b') = cat_records (b_catalog b)
    \<and> cat_aliases (b_catalog b') = cat_aliases (b_catalog b) + 1
    \<and> cat_generation (b_catalog b') = cat_generation (b_catalog b)"
  using assms
  by (auto simp: add_alias_def room_for_record_def message_iff res_simps length_bodies decode_alias built_def
      Let_def intro!: says.frame)

lemma aliases_built:
  assumes "efold (add_alias limits) b as = Inr b'" "built limits (b_catalog b) (b_names b) xs"
  shows "built limits (b_catalog b') (b_names b') (xs @ map (AliasOf (b_id b)) as) \<and> b_id b' = b_id b
    \<and> b_names b' = rev as @ b_names b \<and> cat_records (b_catalog b') = cat_records (b_catalog b)
    \<and> cat_aliases (b_catalog b') = cat_aliases (b_catalog b) + length as
    \<and> cat_generation (b_catalog b') = cat_generation (b_catalog b)"
  using assms
proof (induction as arbitrary: b xs)
  case (Cons a as)
  then obtain b1 where b1: "add_alias limits b a = Inr b1" "efold (add_alias limits) b1 as = Inr b'"
    by (auto simp: res_simps)
  with Cons.IH[OF b1(2)] add_alias_built[OF b1(1) Cons.prems(2)] show ?case by fastforce
qed simp

lemma add_record_built:
  assumes rec: "add_record limits b r = Inr b'" and built: "built limits (b_catalog b) (b_names b) xs"
  shows "built limits (b_catalog b') (b_names b') (xs @ record_items (b_id b + 1) r) \<and> b_id b' = b_id b + 1
    \<and> b_names b' = rev (record_names r) @ b_names b \<and> cat_records (b_catalog b') = cat_records (b_catalog b) + 1
    \<and> cat_aliases (b_catalog b') = cat_aliases (b_catalog b) + length (dr_aliases r)
    \<and> cat_generation (b_catalog b') = cat_generation (b_catalog b)"
proof -
  let ?c = "b_catalog b" and ?i = "b_id b + 1"
  obtain w b2 c3 where w: "message (cat_wire ?c) 3 (record_body ?i r) (dc_maxBytes limits) = Inr w"
    and ok: "\<not> unat (dc_maxRecords limits) \<le> cat_records ?c + cat_aliases ?c" "length (dr_name r) \<le> 65535"
      "length (dr_type r) \<le> 255" "dr_name r \<notin> set (b_names b)"
    and b2: "efold (add_alias limits) (b\<lparr>b_catalog := ?c\<lparr>cat_wire := w, cat_records := cat_records ?c + 1\<rparr>,
           b_names := dr_name r # b_names b, b_id := ?i\<rparr>) (dr_aliases r) = Inr b2"
    and c3: "efold (add_info limits ?i) (b_catalog b2) (dr_properties r) = Inr c3" "b' = b2\<lparr>b_catalog := c3\<rparr>"
    using rec by (auto simp: add_record_def room_for_record_def Let_def res_simps)
  have "built limits (?c\<lparr>cat_wire := w, cat_records := cat_records ?c + 1\<rparr>) (dr_name r # b_names b)
      (xs @ [Record ?i (dr_type r) (dr_name r)])"
    using built w ok
    by (auto simp: built_def message_iff length_bodies decode_record intro!: says.frame)
  with aliases_built[OF b2, of "xs @ [Record ?i (dr_type r) (dr_name r)]"] have b2': "built limits (b_catalog b2) (b_names b2)
      (xs @ [Record ?i (dr_type r) (dr_name r)] @ map (AliasOf ?i) (dr_aliases r)) \<and> b_id b2 = ?i
    \<and> b_names b2 = rev (record_names r) @ b_names b \<and> cat_records (b_catalog b2) = cat_records ?c + 1
    \<and> cat_aliases (b_catalog b2) = cat_aliases ?c + length (dr_aliases r)
    \<and> cat_generation (b_catalog b2) = cat_generation ?c"
    by (auto simp: record_names_def)
  then have "built limits (b_catalog b2) (b_names b2)
      (xs @ [Record ?i (dr_type r) (dr_name r)] @ map (AliasOf ?i) (dr_aliases r))" by blast
  from infos_built[OF c3(1) this] b2' c3(2) show ?thesis by (simp add: record_items_def)
qed

lemma records_built:
  assumes "efold (add_record limits) b rs = Inr b'" "built limits (b_catalog b) (b_names b) xs"
  shows "built limits (b_catalog b') (b_names b') (xs @ records_items (b_id b) rs)
    \<and> b_names b' = rev (concat (map record_names rs)) @ b_names b
    \<and> cat_records (b_catalog b') = cat_records (b_catalog b) + length rs
    \<and> cat_generation (b_catalog b') = cat_generation (b_catalog b)"
  using assms
proof (induction rs arbitrary: b xs)
  case (Cons r rs)
  then obtain b1 where b1: "add_record limits b r = Inr b1" "efold (add_record limits) b1 rs = Inr b'"
    by (auto simp: res_simps)
  with Cons.IH[OF b1(2)] add_record_built[OF b1(1) Cons.prems(2)] show ?case by fastforce
qed simp

lemma catalog_built:
  assumes "prepareDiscoveryCatalog limits generation identity records = Inr c"
  shows "built limits c (rev (concat (map record_names records))) (catalog_items identity records)
    \<and> cat_records c = length records \<and> cat_generation c = generation"
proof -
  define c0 where "c0 = \<lparr>cat_generation = generation, cat_records = 0, cat_aliases = 0, cat_wire = []\<rparr>"
  obtain c1 b w where c1: "efold (add_info limits 0) c0 identity = Inr c1"
    and b: "efold (add_record limits) \<lparr>b_catalog = c1, b_names = [], b_id = 0\<rparr> records = Inr b"
    and w: "message (cat_wire (b_catalog b)) 5 (replicate 4 0) (dc_maxBytes limits) = Inr w"
      "c = (b_catalog b)\<lparr>cat_wire := w\<rparr>"
    using assms by (auto simp: prepareDiscoveryCatalog_def c0_def res_simps Let_def)
  have "built limits c0 [] []" by (simp add: built_def c0_def says.nil)
  from infos_built[OF c1 this]
  have 1: "built limits c1 [] (map (\<lambda>(k, v). Property 0 k v) identity) \<and> cat_records c1 = 0
      \<and> cat_generation c1 = generation" by (simp add: c0_def)
  from records_built[OF b, of "map (\<lambda>(k, v). Property 0 k v) identity"] 1
  have 2: "built limits (b_catalog b) (rev (concat (map record_names records)))
      (map (\<lambda>(k, v). Property 0 k v) identity @ records_items 0 records)
    \<and> cat_records (b_catalog b) = length records \<and> cat_generation (b_catalog b) = generation" by auto
  have e: "decode_item (5, replicate 4 0) = Some EndOfCatalog" by (simp add: decode_item_def)
  show ?thesis using 2 w says.frame[OF _ _ e, of "cat_wire (b_catalog b)"
      "map (\<lambda>(k, v). Property 0 k v) identity @ records_items 0 records"]
    by (auto simp: built_def message_iff catalog_items_def)
qed


lemma demo_prepares:
  "\<exists>c. prepareDiscoveryCatalog demo_discovery 7 demo_identity demo_records = Inr c"
  by (simp add: prepareDiscoveryCatalog_def demo_discovery_def demo_identity_def demo_records_def
      add_info_def info_def validateText_def message_def length_bodies add_record_def add_alias_def
      room_for_record_def Let_def)

text \<open>
  C12: a catalog that is prepared decodes, frame by frame, to exactly the identity properties, the
  records with their types, their aliases and their properties, followed by the end marker. No
  length field is truncated.
\<close>

theorem catalog_round_trip:
  assumes "prepareDiscoveryCatalog limits generation identity records = Inr c"
  shows "decode_wire (cat_wire c) = Some (catalog_items identity records)"
  using catalog_built[OF assms] says_decode by (auto simp: built_def)

theorem catalog_round_trip_witness:
  "\<exists>c. prepareDiscoveryCatalog demo_discovery 7 demo_identity demo_records = Inr c
     \<and> decode_wire (cat_wire c) = Some (catalog_items demo_identity demo_records)"
proof -
  obtain c where c: "prepareDiscoveryCatalog demo_discovery 7 demo_identity demo_records = Inr c"
    using demo_prepares by blast
  then show ?thesis using catalog_round_trip[OF c] by blast
qed

text \<open>
  C13: a prepared catalog respects the configured bounds: at most \<open>max_bytes\<close> bytes on the wire,
  at most \<open>max_records\<close> records and aliases together, no name twice, one record per PV, and the
  generation it was prepared for.
\<close>

theorem catalog_within_limits:
  assumes "prepareDiscoveryCatalog limits generation identity records = Inr c"
  shows "length (cat_wire c) \<le> unat (dc_maxBytes limits)
    \<and> cat_records c + cat_aliases c \<le> unat (dc_maxRecords limits)
    \<and> cat_records c = length records \<and> cat_generation c = generation
    \<and> distinct (concat (map record_names records))"
  using catalog_built[OF assms] by (simp add: built_def)

theorem catalog_within_limits_witness:
  "\<exists>c. prepareDiscoveryCatalog demo_discovery 7 demo_identity demo_records = Inr c
     \<and> length (cat_wire c) \<le> 200 \<and> cat_records c + cat_aliases c \<le> 3"
proof -
  obtain c where c: "prepareDiscoveryCatalog demo_discovery 7 demo_identity demo_records = Inr c"
    using demo_prepares by blast
  then show ?thesis using catalog_within_limits[OF c] by (auto simp: demo_discovery_def)
qed

end
