(* ===== verification/Discovery_Publisher.thy ===== *)
theory Discovery_Publisher
  imports Discovery_Catalog
begin

text \<open>
  The publisher of \<open>src/src/discovery.cpp\<close>: the framing of control messages, the choice of a
  receiver among queued announcements, and the worker that uploads the latest catalog and keeps
  the session alive. The sockets are scripts: each element of a script is what one turn of
  \<open>wait\<close> followed by the system call yields. Callers publish catalogs while the worker runs;
  each region that holds \<open>mutex\<close> or changes \<open>epoch\<close> is one step.
\<close>

section \<open>Sockets\<close>

text \<open>
  \<open>Woken\<close>: \<open>check\<close> throws \<open>Interrupted\<close>. \<open>Expired\<close>: the deadline passes in
  \<open>wait\<close>. \<open>Again\<close>: \<open>EAGAIN\<close>, \<open>EWOULDBLOCK\<close> or \<open>EINTR\<close>.
\<close>

datatype 'a io = Moved 'a | Again | IoError string | Woken | Expired

datatype net_error = Interrupted | NetError string

datatype outcome = Done | Pending | Failure net_error

fun io_failure :: "string \<Rightarrow> 'a io \<Rightarrow> net_error" where
  "io_failure op Woken = Interrupted"
| "io_failure op Expired = NetError ''discovery network deadline exceeded''"
| "io_failure op (IoError m) = NetError (op @ '': '' @ m)"
| "io_failure op _ = NetError op"

text \<open>The bytes handed to the peer, and how the loop of \<open>send\<close> ended.\<close>

fun send_loop :: "bytes \<Rightarrow> nat io list \<Rightarrow> bytes \<times> outcome" where
  "send_loop data [] = ([], if data = [] then Done else Pending)"
| "send_loop data (r # rs) =
     (if data = [] then ([], Done)
      else case r of
        Moved n \<Rightarrow>
          if 0 < n then
            (let m = min n (min 16384 (length data)); (sent, res) = send_loop (drop m data) rs
             in (take m data @ sent, res))
          else ([], Failure (io_failure ''discovery send'' r))
      | Again \<Rightarrow> send_loop data rs
      | _ \<Rightarrow> ([], Failure (io_failure ''discovery send'' r)))"

text \<open>
  The bytes of one \<open>receive\<close> of the given size, and the rest of the script. \<open>recv\<close> hands
  over at most the bytes still wanted; the others stay in the socket.
\<close>

fun receive_loop :: "nat \<Rightarrow> bytes io list \<Rightarrow> (bytes \<times> bytes io list) \<times> outcome" where
  "receive_loop n [] = (([], []), if n = 0 then Done else Pending)"
| "receive_loop n (r # rs) =
     (if n = 0 then (([], r # rs), Done)
      else case r of
        Moved bs \<Rightarrow>
          if bs = [] then (([], rs), Failure (NetError ''RecCeiver disconnected''))
          else if n < length bs then ((take n bs, Moved (drop n bs) # rs), Done)
          else (let ((got, rest), res) = receive_loop (n - length bs) rs in ((bs @ got, rest), res))
      | Again \<Rightarrow> receive_loop n rs
      | _ \<Rightarrow> (([], rs), Failure (io_failure ''discovery receive'' r)))"

definition receiveMessage :: "bytes io list \<Rightarrow> ((u16 \<times> bytes) \<times> bytes io list) \<times> outcome" where
  "receiveMessage script =
     (case receive_loop 8 script of
        ((header, rest), Done) \<Rightarrow>
          let n = unat (read32 header 4) in
          if read16 header 0 \<noteq> magic \<or> 64 < n
          then (((0, []), rest), Failure (NetError ''invalid or oversized RecCeiver control message''))
          else (case receive_loop n rest of
             ((body, rest'), Done) \<Rightarrow> (((read16 header 2, body), rest'), Done)
           | ((_, rest'), res) \<Rightarrow> (((0, []), rest'), res))
      | ((_, rest), res) \<Rightarrow> (((0, []), rest), res))"

section \<open>Announcements\<close>

record endpoint =
  ep_address :: u32
  ep_port :: u16
  ep_key :: u32

text \<open>One datagram of at most 64 bytes from \<open>peer\<close>; addresses are in host order.\<close>

definition announcement :: "u32 \<Rightarrow> bytes \<Rightarrow> endpoint option" where
  "announcement peer bs =
     (if length bs < 16 \<or> read16 bs 0 \<noteq> magic \<or> bs ! 2 \<noteq> 0 \<or> read16 bs 8 = 0 \<or> read32 bs 4 = 0
      then None
      else Some \<lparr>ep_address = (if read32 bs 4 = 0xffffffff then peer else read32 bs 4),
                 ep_port = read16 bs 8, ep_key = read32 bs 12\<rparr>)"

datatype datagram = Datagram u32 bytes | NoDatagram | Retry | DatagramError string | Check

text \<open>
  The batch of at most 256 datagrams: the number of invalid ones, the newest valid endpoint and
  how the batch ended (\<open>Check\<close> is a \<open>check\<close> that throws).
\<close>

fun scan :: "nat \<Rightarrow> datagram list \<Rightarrow> nat \<times> endpoint option \<times> outcome" where
  "scan 0 _ = (0, None, Done)"
| "scan (Suc batch) [] = (0, None, Pending)"
| "scan (Suc batch) (d # ds) =
     (case d of
        Check \<Rightarrow> (0, None, Failure Interrupted)
      | NoDatagram \<Rightarrow> (0, None, Done)
      | Retry \<Rightarrow> scan batch ds
      | DatagramError m \<Rightarrow> (0, None, Failure (NetError (''discovery announcement: '' @ m)))
      | Datagram peer bs \<Rightarrow>
          (let (bad, best, res) = scan batch ds in
           case announcement peer (take 64 bs) of
             None \<Rightarrow> (bad + 1, best, res)
           | Some e \<Rightarrow> (bad, (case best of None \<Rightarrow> Some e | Some e' \<Rightarrow> Some e'), res)))"

section \<open>Publisher\<close>

record DiscoveryStatus =
  ds_state :: string
  ds_peer :: string
  ds_lastError :: string
  ds_desiredGeneration :: u64
  ds_synchronizedGeneration :: u64
  ds_records :: nat
  ds_aliases :: nat
  ds_bytes :: nat
  ds_uploads :: nat
  ds_failures :: nat
  ds_coalesced :: nat
  ds_invalidAnnouncements :: nat
  ds_port :: u16

text \<open>
  Where the worker is: between turns, waiting for an announcement with the catalog and epoch it
  has read, or in a TCP session, before and after the upload.
\<close>

datatype phase =
    Between
  | Listening "DiscoveryCatalog option" u64
  | Session DiscoveryCatalog u64
  | Uploaded DiscoveryCatalog u64

text \<open>\<open>p_published\<close> and \<open>p_received\<close> are histories that no operation reads.\<close>

record Publisher =
  p_stopping :: bool
  p_epoch :: u64
  p_latest :: "DiscoveryCatalog option"
  p_current :: DiscoveryStatus
  p_phase :: phase
  p_published :: "DiscoveryCatalog list"
  p_received :: "bytes list"

definition initial_status :: DiscoveryStatus where
  "initial_status = \<lparr>ds_state = ''idle'', ds_peer = [], ds_lastError = [], ds_desiredGeneration = 0,
     ds_synchronizedGeneration = 0, ds_records = 0, ds_aliases = 0, ds_bytes = 0, ds_uploads = 0,
     ds_failures = 0, ds_coalesced = 0, ds_invalidAnnouncements = 0, ds_port = 0\<rparr>"

definition make_publisher :: Publisher where
  "make_publisher = \<lparr>p_stopping = False, p_epoch = 0, p_latest = None, p_current = initial_status,
     p_phase = Between, p_published = [], p_received = []\<rparr>"

text \<open>\<open>None\<close> for a null catalog is the \<open>std::invalid_argument\<close>.\<close>

definition publish_catalog :: "DiscoveryCatalog option \<Rightarrow> Publisher \<Rightarrow> Publisher option" where
  "publish_catalog catalog p =
     (case catalog of
        None \<Rightarrow> None
      | Some c \<Rightarrow>
          let s = p_current p in
          Some (p\<lparr>p_current := s\<lparr>
              ds_coalesced := ds_coalesced s +
                (case p_latest p of
                   None \<Rightarrow> 0
                 | Some l \<Rightarrow> if cat_generation l \<noteq> ds_synchronizedGeneration s then 1 else 0),
              ds_desiredGeneration := cat_generation c,
              ds_records := cat_records c,
              ds_aliases := cat_aliases c,
              ds_bytes := length (cat_wire c)\<rparr>,
            p_latest := Some c,
            p_epoch := p_epoch p + 1,
            p_published := p_published p @ [c]\<rparr>))"

definition check :: "u64 \<Rightarrow> Publisher \<Rightarrow> bool" where
  "check expected p = (\<not> (p_stopping p \<or> p_epoch p \<noteq> expected))"

definition set_state :: "string \<Rightarrow> Publisher \<Rightarrow> Publisher" where
  "set_state s p = p\<lparr>p_current := (p_current p)\<lparr>ds_state := s\<rparr>\<rparr>"

text \<open>The catch clause of the worker loop.\<close>

definition record_failure :: "string \<Rightarrow> Publisher \<Rightarrow> Publisher" where
  "record_failure what p =
     p\<lparr>p_current := (p_current p)\<lparr>ds_failures := ds_failures (p_current p) + 1,
         ds_lastError := take 1024 what, ds_state := ''error''\<rparr>,
       p_phase := Between\<rparr>"

definition turn :: "Publisher \<Rightarrow> Publisher" where
  "turn p = p\<lparr>p_phase := Listening (p_latest p) (p_epoch p)\<rparr>"

definition listen :: "Publisher \<Rightarrow> Publisher" where
  "listen p =
     (case p_phase p of Listening (Some c) e \<Rightarrow> set_state ''listening'' p | _ \<Rightarrow> p)"

definition count_invalid :: "nat \<Rightarrow> Publisher \<Rightarrow> Publisher" where
  "count_invalid n p = p\<lparr>p_current := (p_current p)\<lparr>
     ds_invalidAnnouncements := ds_invalidAnnouncements (p_current p) + n\<rparr>\<rparr>"

text \<open>\<open>connectAndUpload\<close> up to the connection; \<open>peer\<close> is the printed address.\<close>

definition connect_step :: "string \<Rightarrow> Publisher \<Rightarrow> Publisher" where
  "connect_step peer p =
     (case p_phase p of
        Listening (Some c) e \<Rightarrow>
          p\<lparr>p_current := (p_current p)\<lparr>ds_state := ''connecting'', ds_peer := peer\<rparr>,
            p_phase := Session c e\<rparr>
      | _ \<Rightarrow> p)"

definition greeting_ok :: "u16 \<times> bytes \<Rightarrow> bool" where
  "greeting_ok response = (fst response = 0x8001 \<and> snd response = [0])"

text \<open>The greeting has been answered; the wire is sent with the given script.\<close>

definition upload_step :: "u16 \<times> bytes \<Rightarrow> nat io list \<Rightarrow> Publisher \<Rightarrow> Publisher" where
  "upload_step response script p =
     (case p_phase p of
        Session c e \<Rightarrow>
          if \<not> greeting_ok response then record_failure ''unsupported RecCeiver greeting'' p
          else (case send_loop (cat_wire c) script of
            (sent, Done) \<Rightarrow>
              p\<lparr>p_current := (p_current p)\<lparr>ds_state := ''uploaded'',
                  ds_uploads := ds_uploads (p_current p) + 1\<rparr>,
                p_phase := Uploaded c e, p_received := p_received p @ [sent]\<rparr>
          | (sent, Pending) \<Rightarrow> set_state ''uploading'' p
          | (sent, Failure (NetError m)) \<Rightarrow> record_failure m p
          | (sent, Failure Interrupted) \<Rightarrow> (set_state ''uploading'' p)\<lparr>p_phase := Between\<rparr>)
      | _ \<Rightarrow> p)"

definition ping_ok :: "u16 \<times> bytes \<Rightarrow> bool" where
  "ping_ok ping = (fst ping = 0x8002 \<and> length (snd ping) = 4)"

text \<open>A ping arrives and the pong has been sent.\<close>

definition ping_step :: "u16 \<times> bytes \<Rightarrow> Publisher \<Rightarrow> Publisher" where
  "ping_step ping p =
     (case p_phase p of
        Uploaded c e \<Rightarrow>
          if \<not> ping_ok ping then record_failure ''invalid RecCeiver ping'' p
          else p\<lparr>p_current := (p_current p)\<lparr>ds_state := ''synchronized'',
                 ds_synchronizedGeneration := cat_generation c, ds_lastError := []\<rparr>\<rparr>
      | _ \<Rightarrow> p)"

definition interrupt :: "Publisher \<Rightarrow> Publisher" where
  "interrupt p = p\<lparr>p_phase := Between\<rparr>"

definition stop_publisher :: "Publisher \<Rightarrow> Publisher" where
  "stop_publisher p = p\<lparr>p_stopping := True\<rparr>"

datatype pub_action =
    Publish DiscoveryCatalog
  | Turn
  | Listen
  | Scan "datagram list"
  | Connect string
  | Upload "u16 \<times> bytes" "nat io list"
  | Ping "u16 \<times> bytes"
  | Interrupt
  | NetFailure string
  | StopPublisher

fun expected_epoch :: "phase \<Rightarrow> u64 option" where
  "expected_epoch Between = None"
| "expected_epoch (Listening _ e) = Some e"
| "expected_epoch (Session _ e) = Some e"
| "expected_epoch (Uploaded _ e) = Some e"

text \<open>A turn starts when the worker is between turns; an interruption needs a failed check.\<close>

fun pub_enabled :: "Publisher \<Rightarrow> pub_action \<Rightarrow> bool" where
  "pub_enabled p Turn = (p_phase p = Between \<and> \<not> p_stopping p)"
| "pub_enabled p Interrupt =
     (case expected_epoch (p_phase p) of None \<Rightarrow> False | Some e \<Rightarrow> \<not> check e p)"
| "pub_enabled p (NetFailure m) = (p_phase p \<noteq> Between)"
| "pub_enabled p _ = True"

fun pub_act :: "pub_action \<Rightarrow> Publisher \<Rightarrow> Publisher" where
  "pub_act (Publish c) p = the (publish_catalog (Some c) p)"
| "pub_act Turn p = turn p"
| "pub_act Listen p = listen p"
| "pub_act (Scan ds) p = count_invalid (fst (scan 256 ds)) p"
| "pub_act (Connect peer) p = connect_step peer p"
| "pub_act (Upload response script) p = upload_step response script p"
| "pub_act (Ping ping) p = ping_step ping p"
| "pub_act Interrupt p = interrupt p"
| "pub_act (NetFailure m) p = record_failure m p"
| "pub_act StopPublisher p = stop_publisher p"

inductive pub_reachable :: "Publisher \<Rightarrow> bool" where
  initial: "pub_reachable make_publisher"
| step: "pub_reachable p \<Longrightarrow> pub_enabled p a \<Longrightarrow> pub_reachable (pub_act a p)"

fun phase_catalog :: "phase \<Rightarrow> DiscoveryCatalog option" where
  "phase_catalog Between = None"
| "phase_catalog (Listening c _) = c"
| "phase_catalog (Session c _) = Some c"
| "phase_catalog (Uploaded c _) = Some c"

text \<open>The catalog that was the latest after the first \<open>k\<close> publications.\<close>

definition latest_after :: "nat \<Rightarrow> Publisher \<Rightarrow> DiscoveryCatalog option" where
  "latest_after k p = (if k = 0 then None else Some (p_published p ! (k - 1)))"

definition pub_inv :: "Publisher \<Rightarrow> bool" where
  "pub_inv p \<longleftrightarrow>
     p_epoch p = word_of_nat (length (p_published p))
     \<and> p_latest p = latest_after (length (p_published p)) p
     \<and> (\<forall>e. expected_epoch (p_phase p) = Some e \<longrightarrow>
          (\<exists>k \<le> length (p_published p). e = word_of_nat k \<and> phase_catalog (p_phase p) = latest_after k p))
     \<and> (\<forall>c e. p_phase p = Uploaded c e \<longrightarrow> cat_wire c \<in> set (p_received p))
     \<and> (ds_synchronizedGeneration (p_current p) \<noteq> 0 \<longrightarrow>
          (\<exists>c \<in> set (p_published p). cat_generation c = ds_synchronizedGeneration (p_current p)
             \<and> cat_wire c \<in> set (p_received p)))
     \<and> set (p_received p) \<subseteq> cat_wire ` set (p_published p)
     \<and> ds_uploads (p_current p) = length (p_received p)
     \<and> (\<forall>c. p_latest p = Some c \<longrightarrow> ds_desiredGeneration (p_current p) = cat_generation c
          \<and> ds_bytes (p_current p) = length (cat_wire c))
     \<and> length (ds_lastError (p_current p)) \<le> 1024"

section \<open>Lemmas\<close>

lemma send_loop_prefix:
  "send_loop data script = (sent, res) \<Longrightarrow>
    (\<exists>rest. data = sent @ rest) \<and> (res = Done \<longrightarrow> sent = data)"
proof (induction data script arbitrary: sent res rule: send_loop.induct)
  case (2 data r rs)
  show ?case
  proof (cases r)
    case (Moved n)
    define m where "m = min n (min 16384 (length data))"
    show ?thesis
    proof (cases "data \<noteq> [] \<and> 0 < n")
      case True
      obtain sent' where s: "send_loop (drop m data) rs = (sent', res)" "sent = take m data @ sent'"
        using 2(3) True Moved by (auto simp: m_def Let_def split: prod.splits)
      from 2(1)[OF _ Moved _ m_def s(1)] True obtain rest where
        "drop m data = sent' @ rest \<and> (res = Done \<longrightarrow> sent' = drop m data)"
        by blast
      then show ?thesis using s(2) append_take_drop_id[of m data] by (metis append.assoc)
    qed (use 2(3) Moved in \<open>auto split: if_splits\<close>)
  qed (use 2 in \<open>auto split: if_splits\<close>)
qed (auto split: if_splits)

lemma receive_chunks:
  assumes "n \<le> length (concat chunks)" "[] \<notin> set chunks"
  shows "\<exists>rest. receive_loop n (map Moved chunks) = ((take n (concat chunks), map Moved rest), Done)
    \<and> concat rest = drop n (concat chunks) \<and> [] \<notin> set rest"
  using assms
proof (induction chunks arbitrary: n)
  case (Cons bs chunks)
  show ?case
  proof (cases "n = 0 \<or> n < length bs")
    case True
    then show ?thesis using Cons.prems
      by (auto intro: exI[of _ "bs # chunks"] exI[of _ "drop n bs # chunks"])
  next
    case False
    with Cons.prems have "n - length bs \<le> length (concat chunks)" "[] \<notin> set chunks" by auto
    from Cons.IH[OF this] False Cons.prems(2) show ?thesis by auto
  qed
qed simp

lemma receive_message_chunks:
  assumes "concat chunks = frame t body @ tail" "[] \<notin> set chunks" "length body \<le> 64"
  shows "\<exists>rest. receiveMessage (map Moved chunks) = (((t, body), map Moved rest), Done) \<and> concat rest = tail"
proof -
  have len: "length (concat chunks) = length body + 8 + length tail" using assms(1) by simp
  obtain rest where r: "receive_loop 8 (map Moved chunks) = ((take 8 (concat chunks), map Moved rest), Done)"
      "concat rest = drop 8 (concat chunks)" "[] \<notin> set rest"
    using receive_chunks[of 8 chunks] len assms(2) by auto
  have h: "take 8 (concat chunks) = append16 [] magic @ append16 [] t @ append32 [] (word_of_nat (length body))"
    by (simp add: assms(1) frame_def)
  have m: "read16 (take 8 (concat chunks)) 0 = magic"
    using read16_append16[of 0 "[]" magic] by (simp add: h)
  have t: "read16 (take 8 (concat chunks)) 2 = t"
    using read16_append16[of 2 "append16 [] magic" t] by (simp add: h)
  have "read32 (take 8 (concat chunks)) 4 = word_of_nat (length body)"
    using read32_append32[of 4 "append16 [] magic @ append16 [] t" _ "[]"] by (simp add: h)
  then have n: "unat (read32 (take 8 (concat chunks)) 4) = length body"
    using assms(3) by (simp add: unsigned_of_nat take_bit_nat_eq_self)
  have c: "concat rest = body @ tail" using r(2) by (simp add: assms(1) frame_def)
  then obtain rest' where "receive_loop (length body) (map Moved rest) = ((body, map Moved rest'), Done)"
      "concat rest' = tail"
    using receive_chunks[of "length body" rest] r(3) by auto
  then show ?thesis using assms(3) by (auto simp: receiveMessage_def r(1) m t n Let_def)
qed

lemma latest_after_publish:
  "k \<le> length (p_published p) \<Longrightarrow> p_published p' = p_published p @ [c] \<Longrightarrow>
    latest_after k p' = latest_after k p"
  by (auto simp: latest_after_def nth_append)

lemma latest_after_cong: "p_published p' = p_published p \<Longrightarrow> latest_after k p' = latest_after k p"
  by (simp add: latest_after_def)

lemma latest_after_set: "k \<le> length (p_published p) \<Longrightarrow> latest_after k p = Some c \<Longrightarrow> c \<in> set (p_published p)"
  by (auto simp: latest_after_def split: if_splits intro!: nth_mem)

lemma inv_initial: "pub_inv make_publisher"
  by (simp add: pub_inv_def make_publisher_def initial_status_def latest_after_def)

lemma inv_publish: "pub_inv p \<Longrightarrow> pub_inv (the (publish_catalog (Some c) p))"
proof -
  assume inv: "pub_inv p"
  define p' where "p' = the (publish_catalog (Some c) p)"
  have pub: "p_published p' = p_published p @ [c]" by (simp add: p'_def publish_catalog_def Let_def)
  have k: "\<exists>k \<le> length (p_published p'). e = word_of_nat k \<and> phase_catalog (p_phase p') = latest_after k p'"
    if "expected_epoch (p_phase p') = Some e" for e
  proof -
    have "expected_epoch (p_phase p) = Some e" using that by (simp add: p'_def publish_catalog_def Let_def)
    then obtain k where "k \<le> length (p_published p)" "e = word_of_nat k" "phase_catalog (p_phase p) = latest_after k p"
      using inv unfolding pub_inv_def by blast
    then show ?thesis using pub latest_after_publish[OF _ pub]
      by (intro exI[of _ k]) (simp add: p'_def publish_catalog_def Let_def)
  qed
  have "latest_after (length (p_published p')) p' = Some c" using pub by (simp add: latest_after_def)
  with inv k pub show "pub_inv p'"
    unfolding pub_inv_def by (auto simp: p'_def publish_catalog_def Let_def)
qed

lemma inv_phase:
  assumes "pub_inv p" "p_epoch p' = p_epoch p" "p_published p' = p_published p" "p_latest p' = p_latest p"
    "p_received p' = p_received p"
    and "\<And>e. expected_epoch (p_phase p') = Some e \<Longrightarrow>
      \<exists>k \<le> length (p_published p). e = word_of_nat k \<and> phase_catalog (p_phase p') = latest_after k p"
    and "\<And>c e. p_phase p' = Uploaded c e \<Longrightarrow> cat_wire c \<in> set (p_received p)"
    and "ds_synchronizedGeneration (p_current p') = ds_synchronizedGeneration (p_current p)"
    and "ds_uploads (p_current p') = ds_uploads (p_current p)"
    and "ds_desiredGeneration (p_current p') = ds_desiredGeneration (p_current p)"
    and "ds_bytes (p_current p') = ds_bytes (p_current p)"
    and "length (ds_lastError (p_current p')) \<le> 1024"
  shows "pub_inv p'"
  using assms unfolding pub_inv_def by (auto simp: latest_after_cong[of p' p])

lemma inv_failure: "pub_inv p \<Longrightarrow> pub_inv (record_failure m p)"
  by (erule inv_phase) (auto simp: record_failure_def)

lemma inv_upload:
  assumes inv: "pub_inv p"
  shows "pub_inv (upload_step response script p)"
proof (cases "\<exists>c e. p_phase p = Session c e \<and> greeting_ok response")
  case True
  then obtain c e where ph: "p_phase p = Session c e" and ok: "greeting_ok response" by blast
  obtain sent res where s: "send_loop (cat_wire c) script = (sent, res)" by fastforce
  obtain k where k: "k \<le> length (p_published p)" "e = word_of_nat k" "Some c = latest_after k p"
    using inv ph unfolding pub_inv_def by force
  have c: "c \<in> set (p_published p)" using latest_after_set[OF k(1)] k(3) by simp
  have mark: "pub_inv (set_state m p)" for m
    by (rule inv_phase[OF inv]) (use inv in \<open>auto simp: set_state_def pub_inv_def\<close>)
  show ?thesis
  proof (cases res)
    case Done
    then have "sent = cat_wire c" using send_loop_prefix[OF s] by simp
    moreover have "latest_after k (upload_step response script p) = latest_after k p" for k
      by (rule latest_after_cong) (simp add: upload_step_def ph ok s Done)
    ultimately show ?thesis using inv c k s Done ph ok unfolding pub_inv_def
      by (auto simp: upload_step_def)
  next
    case Pending
    then show ?thesis using mark by (simp add: upload_step_def ph ok s)
  next
    case (Failure err)
    have "pub_inv ((set_state ''uploading'' p)\<lparr>p_phase := Between\<rparr>)"
      by (rule inv_phase[OF mark]) (use inv in \<open>auto simp: set_state_def pub_inv_def\<close>)
    then show ?thesis using Failure inv_failure[OF inv] by (cases err) (simp_all add: upload_step_def ph ok s)
  qed
next
  case False
  then show ?thesis using inv inv_failure[OF inv] by (auto simp: upload_step_def split: phase.splits)
qed

lemma inv_ping:
  assumes inv: "pub_inv p"
  shows "pub_inv (ping_step ping p)"
proof (cases "\<exists>c e. p_phase p = Uploaded c e \<and> ping_ok ping")
  case True
  then obtain c e where ph: "p_phase p = Uploaded c e" and ok: "ping_ok ping" by blast
  obtain k where k: "k \<le> length (p_published p)" "e = word_of_nat k" "Some c = latest_after k p"
    using inv ph unfolding pub_inv_def by force
  have c: "c \<in> set (p_published p)" using latest_after_set[OF k(1)] k(3) by simp
  have "latest_after k (ping_step ping p) = latest_after k p" for k
    by (rule latest_after_cong) (simp add: ping_step_def ph ok)
  then show ?thesis using inv c ph ok unfolding pub_inv_def by (auto simp: ping_step_def)
next
  case False
  then show ?thesis using inv inv_failure[OF inv] by (auto simp: ping_step_def split: phase.splits)
qed

lemma inv_step:
  assumes inv: "pub_inv p"
  shows "pub_inv (pub_act a p)"
proof (cases a)
  case Turn
  show ?thesis unfolding Turn pub_act.simps
    by (rule inv_phase[OF inv]) (use inv in \<open>auto simp: turn_def pub_inv_def\<close>)
next
  case Listen
  show ?thesis unfolding Listen pub_act.simps
    by (rule inv_phase[OF inv]) (use inv in \<open>auto simp: listen_def set_state_def pub_inv_def split: phase.splits option.splits\<close>)
next
  case (Scan ds)
  show ?thesis unfolding Scan pub_act.simps
    by (rule inv_phase[OF inv]) (use inv in \<open>auto simp: count_invalid_def pub_inv_def\<close>)
next
  case (Connect peer)
  show ?thesis unfolding Connect pub_act.simps
    by (rule inv_phase[OF inv]) (use inv in \<open>auto simp: connect_step_def pub_inv_def split: phase.splits option.splits\<close>)
next
  case Interrupt
  show ?thesis unfolding Interrupt pub_act.simps
    by (rule inv_phase[OF inv]) (use inv in \<open>auto simp: interrupt_def pub_inv_def\<close>)
next
  case StopPublisher
  show ?thesis unfolding StopPublisher pub_act.simps
    by (rule inv_phase[OF inv]) (use inv in \<open>auto simp: stop_publisher_def pub_inv_def\<close>)
qed (simp_all add: inv inv_publish inv_upload inv_ping inv_failure)

lemma pub_reachable_inv: "pub_reachable p \<Longrightarrow> pub_inv p"
  by (induction rule: pub_reachable.induct) (simp_all add: inv_initial inv_step)

text \<open>The valid announcements among the datagrams a batch consumes, oldest first.\<close>

fun valid_announcements :: "nat \<Rightarrow> datagram list \<Rightarrow> endpoint list" where
  "valid_announcements 0 _ = []"
| "valid_announcements (Suc n) [] = []"
| "valid_announcements (Suc n) (Datagram peer bs # ds) =
     (case announcement peer (take 64 bs) of None \<Rightarrow> [] | Some e \<Rightarrow> [e]) @ valid_announcements n ds"
| "valid_announcements (Suc n) (Retry # ds) = valid_announcements n ds"
| "valid_announcements (Suc n) (_ # ds) = []"

lemma scan_best:
  "fst (snd (scan n ds)) =
    (if valid_announcements n ds = [] then None else Some (last (valid_announcements n ds)))"
proof (induction n ds rule: scan.induct)
  case (3 n d ds)
  then show ?case
    by (cases d) (auto simp: Let_def split: option.splits prod.splits if_splits)
qed auto

section \<open>Properties\<close>

definition demo_catalog :: "u64 \<Rightarrow> DiscoveryCatalog" where
  "demo_catalog g = \<lparr>cat_generation = g, cat_records = 0, cat_aliases = 0, cat_wire = [1, 2, 3]\<rparr>"

definition demo_publisher :: Publisher where
  "demo_publisher = fold pub_act
     [Publish (demo_catalog 1), Turn, Listen, Connect ''peer'', Upload (0x8001, [0]) [Moved 2, Again, Moved 9],
      Ping (0x8002, [0, 0, 0, 1])] make_publisher"

lemmas demo_unfold = demo_publisher_def demo_catalog_def make_publisher_def initial_status_def
  publish_catalog_def turn_def listen_def set_state_def connect_step_def upload_step_def greeting_ok_def
  ping_step_def ping_ok_def Let_def

lemma demo_publisher_reachable: "pub_reachable demo_publisher"
proof -
  have act: "pub_reachable p \<Longrightarrow> pub_enabled p a \<Longrightarrow> pub_reachable (pub_act a p)" for p a
    by (rule pub_reachable.step)
  show ?thesis unfolding demo_publisher_def fold.simps o_def id_def
    by (intro act pub_reachable.initial) (simp_all add: demo_unfold)
qed

text \<open>
  C14: when the status reports the desired generation as synchronized, the receiver has been handed
  every byte of the latest catalog (generations are not reused and zero is not one).
\<close>

theorem synchronized_generation_was_uploaded:
  assumes "pub_reachable p" "distinct (map cat_generation (p_published p))" "p_latest p = Some c"
    and "cat_generation c \<noteq> 0"
    and "ds_synchronizedGeneration (p_current p) = ds_desiredGeneration (p_current p)"
  shows "cat_wire c \<in> set (p_received p)"
proof -
  have inv: "pub_inv p" using assms(1) by (rule pub_reachable_inv)
  have c: "c \<in> set (p_published p)"
    using inv assms(3) latest_after_set[of "length (p_published p)" p c] by (simp add: pub_inv_def)
  have "ds_synchronizedGeneration (p_current p) = cat_generation c"
    using inv assms(3,5) by (simp add: pub_inv_def)
  with inv assms(4) obtain d where "d \<in> set (p_published p)" "cat_generation d = cat_generation c"
      "cat_wire d \<in> set (p_received p)"
    unfolding pub_inv_def by auto
  then show ?thesis using c assms(2) by (metis distinct_map inj_onD)
qed

theorem synchronized_generation_was_uploaded_witness:
  "pub_reachable demo_publisher \<and> ds_synchronizedGeneration (p_current demo_publisher) = 1
   \<and> [1, 2, 3] \<in> set (p_received demo_publisher)"
proof -
  have "p_latest demo_publisher = Some (demo_catalog 1)" "map cat_generation (p_published demo_publisher) = [1]"
    "ds_synchronizedGeneration (p_current demo_publisher) = 1" "ds_desiredGeneration (p_current demo_publisher) = 1"
    by (simp_all add: demo_unfold)
  then show ?thesis
    using synchronized_generation_was_uploaded[OF demo_publisher_reachable, of "demo_catalog 1"]
      demo_publisher_reachable by (simp add: demo_catalog_def)
qed

text \<open>
  C15: a worker that passes \<open>check\<close> works on the latest catalog: a publication between two turns
  is noticed at the next check, so a superseded catalog is never carried past one (fewer than
  2^64 publications).
\<close>

theorem checked_worker_uses_latest_catalog:
  assumes "pub_reachable p" "expected_epoch (p_phase p) = Some e" "check e p"
    and "length (p_published p) < 2 ^ 64"
  shows "phase_catalog (p_phase p) = p_latest p"
proof -
  have inv: "pub_inv p" using assms(1) by (rule pub_reachable_inv)
  obtain k where k: "k \<le> length (p_published p)" "e = word_of_nat k" "phase_catalog (p_phase p) = latest_after k p"
    using inv assms(2) unfolding pub_inv_def by blast
  have "(word_of_nat (length (p_published p)) :: u64) = word_of_nat k"
    using inv assms(3) k(2) by (simp add: check_def pub_inv_def)
  then have "unat (word_of_nat (length (p_published p)) :: u64) = unat (word_of_nat k :: u64)" by simp
  then have "length (p_published p) = k"
    using assms(4) k(1) by (simp add: unsigned_of_nat take_bit_nat_eq_self)
  then show ?thesis using inv k(3) by (simp add: pub_inv_def)
qed

theorem checked_worker_uses_latest_catalog_witness:
  "check 1 demo_publisher \<and> phase_catalog (p_phase demo_publisher) = Some (demo_catalog 1)"
proof -
  have "expected_epoch (p_phase demo_publisher) = Some 1" "check 1 demo_publisher"
    "length (p_published demo_publisher) < 2 ^ 64" "p_latest demo_publisher = Some (demo_catalog 1)"
    by (simp_all add: demo_unfold check_def)
  then show ?thesis using checked_worker_uses_latest_catalog[OF demo_publisher_reachable, of 1] by simp
qed

text \<open>
  a control message is reassembled whatever the segmentation of the TCP stream: if the chunks
  received so far are the frame of a body of at most 64 bytes followed by more data, exactly that
  message is returned and exactly the data after it is left.
\<close>

theorem control_message_reassembled:
  assumes "concat chunks = frame t body @ tail" "[] \<notin> set chunks" "length body \<le> 64"
  shows "\<exists>rest. receiveMessage (map Moved chunks) = (((t, body), map Moved rest), Done) \<and> concat rest = tail"
  using assms by (rule receive_message_chunks)

theorem control_message_reassembled_witness:
  "\<exists>rest. receiveMessage (map Moved [take 3 (frame 0x8001 [0]), drop 3 (frame 0x8001 [0]) @ [9]])
     = (((0x8001, [0]), map Moved rest), Done) \<and> concat rest = [9]"
proof -
  have "take 3 (frame 0x8001 [0]) \<noteq> []" by (simp add: frame_def append16_def)
  then show ?thesis
    by (intro control_message_reassembled) auto
qed

end
