(* ===== verification/Float_Arith.thy ===== *)
theory Float_Arith
  imports Config_Types "HOL-Library.Log_Nat"
begin

text \<open>
  Binary floating point as the C++ program uses it: an operation is the exact rational result
  rounded to the nearest representable value, ties to even, overflowing to infinity. A format is
  its precision, the exponent of its smallest subnormal and the exponent of its overflow bound.
\<close>

record format =
  f_prec :: int
  f_emin :: int
  f_emax :: int

definition binary64 :: format where
  "binary64 = \<lparr>f_prec = 53, f_emin = -1074, f_emax = 1024\<rparr>"

definition binary32 :: format where
  "binary32 = \<lparr>f_prec = 24, f_emin = -149, f_emax = 128\<rparr>"

definition two_pow :: "int \<Rightarrow> rat" where
  "two_pow k = (if 0 \<le> k then 2 ^ nat k else 1 / 2 ^ nat (- k))"

text \<open>The exponent of the leading bit of a positive number.\<close>

definition ilog2 :: "rat \<Rightarrow> int" where
  "ilog2 x = (let (n, d) = quotient_of x; k = bitlen n - bitlen d in if two_pow k \<le> x then k else k - 1)"

definition round_half_even :: "rat \<Rightarrow> int" where
  "round_half_even y =
     (let f = \<lfloor>y\<rfloor>; r = y - of_int f in
      if r < 1 / 2 then f else if 1 / 2 < r then f + 1 else if even f then f else f + 1)"

definition fp_round :: "format \<Rightarrow> rat \<Rightarrow> fp" where
  "fp_round fmt x =
     (if x = 0 then Fin 0
      else let q = two_pow (max (ilog2 \<bar>x\<bar> - (f_prec fmt - 1)) (f_emin fmt));
               y = of_int (round_half_even (\<bar>x\<bar> / q)) * q
           in if two_pow (f_emax fmt) \<le> y then (if 0 < x then PInf else NInf)
              else Fin (if 0 < x then y else - y))"

fun fp_neg :: "fp \<Rightarrow> fp" where
  "fp_neg NaN = NaN" | "fp_neg PInf = NInf" | "fp_neg NInf = PInf" | "fp_neg (Fin x) = Fin (- x)"

fun fp_abs :: "fp \<Rightarrow> fp" where
  "fp_abs NaN = NaN" | "fp_abs PInf = PInf" | "fp_abs NInf = PInf" | "fp_abs (Fin x) = Fin \<bar>x\<bar>"

fun fp_add :: "format \<Rightarrow> fp \<Rightarrow> fp \<Rightarrow> fp" where
  "fp_add fmt (Fin x) (Fin y) = fp_round fmt (x + y)"
| "fp_add fmt NaN _ = NaN"
| "fp_add fmt _ NaN = NaN"
| "fp_add fmt PInf y = (if y = NInf then NaN else PInf)"
| "fp_add fmt NInf y = (if y = PInf then NaN else NInf)"
| "fp_add fmt (Fin _) y = y"

definition fp_sub :: "format \<Rightarrow> fp \<Rightarrow> fp \<Rightarrow> fp" where
  "fp_sub fmt x y = fp_add fmt x (fp_neg y)"

text \<open>The infinity with the sign of a product; infinity times zero is NaN.\<close>

fun fp_sign :: "fp \<Rightarrow> int" where
  "fp_sign NaN = 0" | "fp_sign PInf = 1" | "fp_sign NInf = -1"
| "fp_sign (Fin x) = (if 0 < x then 1 else if x < 0 then -1 else 0)"

definition fp_inf :: "int \<Rightarrow> fp" where
  "fp_inf s = (if 0 < s then PInf else if s < 0 then NInf else NaN)"

fun fp_mul :: "format \<Rightarrow> fp \<Rightarrow> fp \<Rightarrow> fp" where
  "fp_mul fmt (Fin x) (Fin y) = fp_round fmt (x * y)"
| "fp_mul fmt x y = (if x = NaN \<or> y = NaN then NaN else fp_inf (fp_sign x * fp_sign y))"

text \<open>
  Division. The sign of a zero is not represented: a nonzero number over zero is given the sign of
  the numerator, which every use in the program excludes or only tests for finiteness.
\<close>

fun fp_div :: "format \<Rightarrow> fp \<Rightarrow> fp \<Rightarrow> fp" where
  "fp_div fmt (Fin x) (Fin y) =
     (if y \<noteq> 0 then fp_round fmt (x / y) else if x = 0 then NaN else fp_inf (fp_sign (Fin x)))"
| "fp_div fmt NaN _ = NaN"
| "fp_div fmt _ NaN = NaN"
| "fp_div fmt (Fin _) _ = Fin 0"
| "fp_div fmt x (Fin y) = fp_inf (fp_sign x * (if y < 0 then -1 else 1))"
| "fp_div fmt _ _ = NaN"

text \<open>\<open>std::max(a, b)\<close> is \<open>(a < b) ? b : a\<close>.\<close>

definition fp_max :: "fp \<Rightarrow> fp \<Rightarrow> fp" where
  "fp_max a b = (if fp_less a b then b else a)"

text \<open>Conversion between formats.\<close>

fun fp_convert :: "format \<Rightarrow> fp \<Rightarrow> fp" where
  "fp_convert fmt (Fin x) = fp_round fmt x"
| "fp_convert fmt x = x"

text \<open>\<open>std::numeric_limits<T>::epsilon()\<close>.\<close>

definition fp_epsilon :: "format \<Rightarrow> fp" where
  "fp_epsilon fmt = Fin (two_pow (1 - f_prec fmt))"

text \<open>
  Conversion to an integer type with the given range: truncation; outside the range the behaviour
  is undefined, which is \<open>None\<close>.
\<close>

fun fp_to_int :: "int \<Rightarrow> int \<Rightarrow> fp \<Rightarrow> int option" where
  "fp_to_int lo hi (Fin x) =
     (let t = (if 0 \<le> x then \<lfloor>x\<rfloor> else \<lceil>x\<rceil>) in if lo \<le> t \<and> t \<le> hi then Some t else None)"
| "fp_to_int lo hi _ = None"

section \<open>Lemmas\<close>

lemma fp_round_0 [simp]: "fp_round fmt 0 = Fin 0"
  by (simp add: fp_round_def)

lemma fp_round_neg: "fp_round fmt (- x) = fp_neg (fp_round fmt x)"
  by (simp add: fp_round_def Let_def)

lemma fp_neg_neg [simp]: "fp_neg (fp_neg x) = x"
  by (cases x) auto

lemma fp_neg_eq_iff [simp]: "fp_neg x = NaN \<longleftrightarrow> x = NaN" "fp_neg x = PInf \<longleftrightarrow> x = NInf" "fp_neg x = NInf \<longleftrightarrow> x = PInf"
  by (cases x; simp)+

lemma fp_abs_neg [simp]: "fp_abs (fp_neg x) = fp_abs x"
  by (cases x) auto

lemma fp_sub_swap: "fp_sub fmt y x = fp_neg (fp_sub fmt x y)"
proof (cases "\<exists>a b. x = Fin a \<and> y = Fin b")
  case True
  then obtain a b where ab: "x = Fin a" "y = Fin b" by blast
  have "fp_round fmt (b - a) = fp_neg (fp_round fmt (a - b))"
    using fp_round_neg[of fmt "a - b"] by simp
  then show ?thesis by (simp add: ab fp_sub_def)
next
  case False
  then show ?thesis by (cases x; cases y) (auto simp: fp_sub_def)
qed

lemma fp_max_comm: "x \<noteq> NaN \<Longrightarrow> y \<noteq> NaN \<Longrightarrow> fp_max x y = fp_max y x"
  by (cases x; cases y) (auto simp: fp_max_def)

lemma two_pow_pos [simp]: "0 < two_pow k"
  by (simp add: two_pow_def)

lemma fp_le_trans: "fp_le x y \<Longrightarrow> fp_le y z \<Longrightarrow> fp_le x z"
  by (cases x; cases y; cases z) (auto simp: fp_le_def)

end
