(* ===== verification/Value_Util.thy ===== *)
theory Value_Util
  imports Float_Arith
begin

text \<open>
  \<open>src/src/util.cpp\<close> and \<open>include/redis_pvxs_ioc/util.h\<close>: alarm evaluation, linear
  transforms, comparison of confirmed values, and the metadata, alarm and time fields of a served
  value. A \<open>pvxs::Value\<close> is a finite map from member paths to a type code and a content; the
  members that exist are those of the prototype the PVXS library creates, which is an argument.
  Assigning to a missing member throws; a conversion the language leaves undefined is an error of
  its own. Severities and conditions are the enumerators of the EPICS headers.
\<close>

section \<open>Data\<close>

datatype epicsSeverity = epicsSevNone | epicsSevMinor | epicsSevMajor | epicsSevInvalid

datatype epicsCondition = epicsAlarmNone | epicsAlarmHiHi | epicsAlarmHigh | epicsAlarmLoLo
  | epicsAlarmLow | epicsAlarmUDF

record AlarmState =
  st_severity :: epicsSeverity
  st_status :: epicsCondition
  st_message :: string

datatype TypeCode = BoolT | Int8T | UInt8T | Int16T | UInt16T | Int32T | UInt32T | Int64T | UInt64T
  | Float32T | Float64T | StringT
  | BoolAT | Int8AT | UInt8AT | Int16AT | UInt16AT | Int32AT | UInt32AT | Int64AT | UInt64AT
  | Float32AT | Float64AT | StringAT

datatype content = CEmpty | CBool bool | CInt int | CFp fp | CString string | CStrings "string list"
  | CSeverity epicsSeverity | CCondition epicsCondition | CInts "int list" | CFps "fp list"

type_synonym pvalue = "string \<rightharpoonup> TypeCode \<times> content"

datatype value_error = NoField string | UndefinedConversion string

section \<open>Members\<close>

definition valid_member :: "string \<Rightarrow> pvalue \<Rightarrow> bool" where
  "valid_member path v = (v path \<noteq> None)"

definition put :: "string \<Rightarrow> content \<Rightarrow> pvalue \<Rightarrow> value_error + pvalue" where
  "put path c v =
     (case v path of None \<Rightarrow> Inl (NoField path) | Some (t, _) \<Rightarrow> Inr (v(path \<mapsto> (t, c))))"

text \<open>The range of an integer type code.\<close>

fun int_range :: "TypeCode \<Rightarrow> (int \<times> int) option" where
  "int_range Int8T = Some (- (2 ^ 7), 2 ^ 7 - 1)"
| "int_range UInt8T = Some (0, 2 ^ 8 - 1)"
| "int_range Int16T = Some (- (2 ^ 15), 2 ^ 15 - 1)"
| "int_range UInt16T = Some (0, 2 ^ 16 - 1)"
| "int_range Int32T = Some (- (2 ^ 31), 2 ^ 31 - 1)"
| "int_range UInt32T = Some (0, 2 ^ 32 - 1)"
| "int_range Int64T = Some (- (2 ^ 63), 2 ^ 63 - 1)"
| "int_range UInt64T = Some (0, 2 ^ 64 - 1)"
| "int_range _ = None"

definition assignTypedNumeric :: "string \<Rightarrow> fp option \<Rightarrow> fp \<Rightarrow> pvalue \<Rightarrow> value_error + pvalue" where
  "assignTypedNumeric path input defaultValue v =
     (let scalar = (case input of None \<Rightarrow> defaultValue | Some x \<Rightarrow> x) in
      case v path of
        None \<Rightarrow> Inl (NoField path)
      | Some (t, _) \<Rightarrow>
          (case int_range t of
             Some (lo, hi) \<Rightarrow>
               (case fp_to_int lo hi scalar of
                  None \<Rightarrow> Inl (UndefinedConversion path)
                | Some n \<Rightarrow> put path (CInt n) v)
           | None \<Rightarrow>
               if t = Float32T then put path (CFp (fp_convert binary32 scalar)) v
               else if t = Float64T then put path (CFp scalar) v
               else Inr v))"

text \<open>\<open>if (value[path].valid())\<close> around an assignment.\<close>

definition when_valid :: "string \<Rightarrow> (pvalue \<Rightarrow> value_error + pvalue) \<Rightarrow> pvalue \<Rightarrow> value_error + pvalue" where
  "when_valid path f v = (if valid_member path v then f v else Inr v)"

section \<open>Types and metadata\<close>

fun scalar_code :: "PrimitiveType \<Rightarrow> TypeCode" where
  "scalar_code Boolean = BoolT" | "scalar_code Int8 = Int8T" | "scalar_code UInt8 = UInt8T"
| "scalar_code Int16 = Int16T" | "scalar_code UInt16 = UInt16T" | "scalar_code Int32 = Int32T"
| "scalar_code UInt32 = UInt32T" | "scalar_code Int64 = Int64T" | "scalar_code UInt64 = UInt64T"
| "scalar_code Float32 = Float32T" | "scalar_code Float64 = Float64T" | "scalar_code String = StringT"

fun array_code :: "PrimitiveType \<Rightarrow> TypeCode" where
  "array_code Boolean = BoolAT" | "array_code Int8 = Int8AT" | "array_code UInt8 = UInt8AT"
| "array_code Int16 = Int16AT" | "array_code UInt16 = UInt16AT" | "array_code Int32 = Int32AT"
| "array_code UInt32 = UInt32AT" | "array_code Int64 = Int64AT" | "array_code UInt64 = UInt64AT"
| "array_code Float32 = Float32AT" | "array_code Float64 = Float64AT" | "array_code String = StringT"

definition pvxsTypeCodeFor :: "PVConfig \<Rightarrow> TypeCode" where
  "pvxsTypeCodeFor config =
     (if pv_shape config = Array then array_code (pv_type config) else scalar_code (pv_type config))"

definition standardDisplayFormChoices :: "string list" where
  "standardDisplayFormChoices =
     [''Default'', ''String'', ''Binary'', ''Decimal'', ''Hex'', ''Exponential'', ''Engineering'']"

fun displayFormIndex :: "DisplayForm \<Rightarrow> int" where
  "displayFormIndex DefaultForm = 0" | "displayFormIndex StringForm = 1"
| "displayFormIndex BinaryForm = 2" | "displayFormIndex DecimalForm = 3"
| "displayFormIndex HexForm = 4" | "displayFormIndex ExponentialForm = 5"
| "displayFormIndex EngineeringForm = 6"

definition applyStandardMetadata :: "PVConfig \<Rightarrow> pvalue \<Rightarrow> value_error + pvalue" where
  "applyStandardMetadata config v0 =
     (let m = pv_metadata config in
      efold (\<lambda>v f. f v) v0
       [when_valid ''display.description'' (put ''display.description'' (CString (md_description m))),
        when_valid ''display.units'' (put ''display.units'' (CString (md_units m))),
        when_valid ''display.limitLow''
          (assignTypedNumeric ''display.limitLow'' (lc_low (md_display m)) (Fin 0)),
        when_valid ''display.limitHigh''
          (assignTypedNumeric ''display.limitHigh'' (lc_high (md_display m)) (Fin 0)),
        when_valid ''display.precision''
          (put ''display.precision'' (CInt (case md_precision m of None \<Rightarrow> 0 | Some p \<Rightarrow> p))),
        when_valid ''display.form.index''
          (put ''display.form.index''
            (CInt (displayFormIndex (case md_form m of None \<Rightarrow> DefaultForm | Some f \<Rightarrow> f)))),
        when_valid ''display.form.choices''
          (put ''display.form.choices'' (CStrings standardDisplayFormChoices)),
        when_valid ''control.limitLow''
          (assignTypedNumeric ''control.limitLow'' (lc_low (md_control m)) (Fin 0)),
        when_valid ''control.limitHigh''
          (assignTypedNumeric ''control.limitHigh'' (lc_high (md_control m)) (Fin 0)),
        when_valid ''control.minStep''
          (assignTypedNumeric ''control.minStep'' (md_minStep m) (Fin 0))])"

text \<open>
  \<open>now\<close> is what \<open>epicsTimeGetCurrent\<close> yields, in nanoseconds since the POSIX epoch, or
  \<open>None\<close> when it fails.
\<close>

definition applyTimestamp :: "nat option \<Rightarrow> nat \<Rightarrow> pvalue \<Rightarrow> value_error + pvalue" where
  "applyTimestamp now timestampNs v =
     (let t = (if timestampNs = 0 then (case now of None \<Rightarrow> 0 | Some n \<Rightarrow> n) else timestampNs) in
      efold (\<lambda>v f. f v) v
       [put ''timeStamp.secondsPastEpoch'' (CInt (int (t div 1000000000))),
        put ''timeStamp.nanoseconds'' (CInt (int (t mod 1000000000))),
        put ''timeStamp.userTag'' (CInt 0)])"

section \<open>Alarms\<close>

definition hasAlarmRules :: "PVConfig \<Rightarrow> bool" where
  "hasAlarmRules config =
     (let a = pv_alarms config in
      al_lowAlarm a \<noteq> None \<or> al_lowWarning a \<noteq> None \<or> al_highWarning a \<noteq> None \<or> al_highAlarm a \<noteq> None)"

definition no_alarm :: AlarmState where
  "no_alarm = \<lparr>st_severity = epicsSevNone, st_status = epicsAlarmNone, st_message = []\<rparr>"

definition high_alarm :: AlarmState where
  "high_alarm = \<lparr>st_severity = epicsSevMajor, st_status = epicsAlarmHiHi, st_message = ''High alarm''\<rparr>"

definition low_alarm :: AlarmState where
  "low_alarm = \<lparr>st_severity = epicsSevMajor, st_status = epicsAlarmLoLo, st_message = ''Low alarm''\<rparr>"

definition high_warning :: AlarmState where
  "high_warning = \<lparr>st_severity = epicsSevMinor, st_status = epicsAlarmHigh, st_message = ''High warning''\<rparr>"

definition low_warning :: AlarmState where
  "low_warning = \<lparr>st_severity = epicsSevMinor, st_status = epicsAlarmLow, st_message = ''Low warning''\<rparr>"

definition invalid_value :: AlarmState where
  "invalid_value = \<lparr>st_severity = epicsSevInvalid, st_status = epicsAlarmUDF,
     st_message = ''Non-finite source value''\<rparr>"

definition at_least :: "fp \<Rightarrow> fp option \<Rightarrow> bool" where
  "at_least x limit = (case limit of None \<Rightarrow> False | Some l \<Rightarrow> fp_le l x)"

definition at_most :: "fp \<Rightarrow> fp option \<Rightarrow> bool" where
  "at_most x limit = (case limit of None \<Rightarrow> False | Some l \<Rightarrow> fp_le x l)"

definition evaluateNumericAlarm :: "PVConfig \<Rightarrow> fp \<Rightarrow> epicsCondition \<Rightarrow> AlarmState" where
  "evaluateNumericAlarm config v priorStatus =
     (let a = pv_alarms config; hyst = al_hysteresis a;
          below = (\<lambda>l. fp_sub binary64 l hyst); above = (\<lambda>l. fp_add binary64 l hyst) in
      if \<not> fp_finite v then invalid_value
      else if \<not> hasAlarmRules config then no_alarm
      else if at_least v (al_highAlarm a) then high_alarm
      else if at_most v (al_lowAlarm a) then low_alarm
      else if priorStatus = epicsAlarmHiHi \<and> at_least v (map_option below (al_highAlarm a)) then high_alarm
      else if priorStatus = epicsAlarmLoLo \<and> at_most v (map_option above (al_lowAlarm a)) then low_alarm
      else if at_least v (al_highWarning a) then high_warning
      else if at_most v (al_lowWarning a) then low_warning
      else if priorStatus = epicsAlarmHigh \<and> at_least v (map_option below (al_highWarning a)) then high_warning
      else if priorStatus = epicsAlarmLow \<and> at_most v (map_option above (al_lowWarning a)) then low_warning
      else no_alarm)"

definition applyAlarmFields :: "PVConfig \<Rightarrow> AlarmState \<Rightarrow> pvalue \<Rightarrow> value_error + pvalue" where
  "applyAlarmFields config state v0 =
     (let a = pv_alarms config in
      ebind (efold (\<lambda>v f. f v) v0
        [put ''alarm.severity'' (CSeverity (st_severity state)),
         put ''alarm.status'' (CCondition (st_status state)),
         put ''alarm.message'' (CString (st_message state))]) (\<lambda>v1.
      if \<not> valid_member ''valueAlarm.active'' v1 then Inr v1
      else ebind (put ''valueAlarm.active'' (CBool (hasAlarmRules config)) v1) (\<lambda>v2.
        let floatingDefault =
          (case v2 ''valueAlarm.lowAlarmLimit'' of
             None \<Rightarrow> Fin 0
           | Some (t, _) \<Rightarrow> if t = Float32T \<or> t = Float64T then NaN else Fin 0) in
        efold (\<lambda>v f. f v) v2
          [assignTypedNumeric ''valueAlarm.lowAlarmLimit'' (al_lowAlarm a) floatingDefault,
           assignTypedNumeric ''valueAlarm.lowWarningLimit'' (al_lowWarning a) floatingDefault,
           assignTypedNumeric ''valueAlarm.highWarningLimit'' (al_highWarning a) floatingDefault,
           assignTypedNumeric ''valueAlarm.highAlarmLimit'' (al_highAlarm a) floatingDefault,
           put ''valueAlarm.lowAlarmSeverity''
             (CSeverity (if al_lowAlarm a \<noteq> None then epicsSevMajor else epicsSevNone)),
           put ''valueAlarm.lowWarningSeverity''
             (CSeverity (if al_lowWarning a \<noteq> None then epicsSevMinor else epicsSevNone)),
           put ''valueAlarm.highWarningSeverity''
             (CSeverity (if al_highWarning a \<noteq> None then epicsSevMinor else epicsSevNone)),
           put ''valueAlarm.highAlarmSeverity''
             (CSeverity (if al_highAlarm a \<noteq> None then epicsSevMajor else epicsSevNone)),
           put ''valueAlarm.hysteresis'' (CFp (al_hysteresis a))])))"

text \<open>\<open>nt_scalar\<close> is the prototype that the PVXS builder creates for a type code.\<close>

definition createInitialValue :: "(TypeCode \<Rightarrow> bool \<Rightarrow> pvalue) \<Rightarrow> nat option \<Rightarrow> PVConfig \<Rightarrow> value_error + pvalue" where
  "createInitialValue nt_scalar now config =
     ebind (applyStandardMetadata config (nt_scalar (pvxsTypeCodeFor config) (isNumericType (pv_type config)))) (\<lambda>v.
     ebind (applyAlarmFields config no_alarm v) (applyTimestamp now 0))"

section \<open>Transforms and comparison\<close>

definition forward_scalar :: "format \<Rightarrow> PVConfig \<Rightarrow> fp \<Rightarrow> fp" where
  "forward_scalar fmt config raw =
     (case pv_transform config of
        None \<Rightarrow> raw
      | Some t \<Rightarrow> fp_add fmt (fp_mul fmt raw (fp_convert fmt (tr_scale t))) (fp_convert fmt (tr_offset t)))"

definition inverse_scalar :: "format \<Rightarrow> PVConfig \<Rightarrow> fp \<Rightarrow> fp" where
  "inverse_scalar fmt config present =
     (case pv_transform config of
        None \<Rightarrow> present
      | Some t \<Rightarrow> fp_div fmt (fp_sub fmt present (fp_convert fmt (tr_offset t))) (fp_convert fmt (tr_scale t)))"

fun applyForwardTransform :: "PVConfig \<Rightarrow> TypedValue \<Rightarrow> TypedValue" where
  "applyForwardTransform config (TVF32 x) = TVF32 (forward_scalar binary32 config x)"
| "applyForwardTransform config (TVF64 x) = TVF64 (forward_scalar binary64 config x)"
| "applyForwardTransform config (TVF32s xs) = TVF32s (map (forward_scalar binary32 config) xs)"
| "applyForwardTransform config (TVF64s xs) = TVF64s (map (forward_scalar binary64 config) xs)"
| "applyForwardTransform config v = v"

fun applyInverseTransform :: "PVConfig \<Rightarrow> TypedValue \<Rightarrow> TypedValue" where
  "applyInverseTransform config (TVF32 x) = TVF32 (inverse_scalar binary32 config x)"
| "applyInverseTransform config (TVF64 x) = TVF64 (inverse_scalar binary64 config x)"
| "applyInverseTransform config (TVF32s xs) = TVF32s (map (inverse_scalar binary32 config) xs)"
| "applyInverseTransform config (TVF64s xs) = TVF64s (map (inverse_scalar binary64 config) xs)"
| "applyInverseTransform config v = v"

definition close_values :: "format \<Rightarrow> fp \<Rightarrow> fp \<Rightarrow> bool" where
  "close_values fmt lhs rhs =
     (let scale = fp_max (fp_abs lhs) (fp_abs rhs);
          tolerance = fp_mul fmt (fp_mul fmt (fp_epsilon fmt) (fp_max (Fin 1) scale)) (Fin 8)
      in fp_le (fp_abs (fp_sub fmt lhs rhs)) tolerance)"

text \<open>Both values hold the alternative of the PV's type, as the typed runtime has it.\<close>

definition valuesEqual :: "TypedValue \<Rightarrow> TypedValue \<Rightarrow> bool" where
  "valuesEqual lhs rhs =
     (case lhs of
        TVF32 x \<Rightarrow> (case rhs of TVF32 y \<Rightarrow> close_values binary32 x y | _ \<Rightarrow> False)
      | TVF64 x \<Rightarrow> (case rhs of TVF64 y \<Rightarrow> close_values binary64 x y | _ \<Rightarrow> False)
      | TVF32s xs \<Rightarrow> (case rhs of TVF32s ys \<Rightarrow> list_all2 (close_values binary32) xs ys | _ \<Rightarrow> False)
      | TVF64s xs \<Rightarrow> (case rhs of TVF64s ys \<Rightarrow> list_all2 (close_values binary64) xs ys | _ \<Rightarrow> False)
      | _ \<Rightarrow> lhs = rhs)"

section \<open>Lemmas\<close>

lemmas alarm_states = no_alarm_def high_alarm_def low_alarm_def high_warning_def low_warning_def invalid_value_def

lemma put_other: "put p c v = Inr v' \<Longrightarrow> q \<noteq> p \<Longrightarrow> v' q = v q"
  by (auto simp: put_def split: option.splits)

lemma put_self: "put p c v = Inr v' \<Longrightarrow> \<exists>t. v' p = Some (t, c)"
  by (auto simp: put_def split: option.splits)

lemma put_dom: "put p c v = Inr v' \<Longrightarrow> dom v' = dom v"
  by (auto simp: put_def split: option.splits if_splits)

lemma assign_out_of_range:
  assumes "v path = Some (t, c)" "int_range t = Some (lo, hi)" "fp_to_int lo hi x = None"
  shows "assignTypedNumeric path (Some x) d v = Inl (UndefinedConversion path)"
  using assms by (simp add: assignTypedNumeric_def)

lemma close_values_comm: "close_values fmt x y = close_values fmt y x"
proof (cases "x = NaN \<or> y = NaN")
  case True
  then have "fp_abs (fp_sub fmt x y) = NaN" "fp_abs (fp_sub fmt y x) = NaN"
    by (cases x; cases y; auto simp: fp_sub_def)+
  then show ?thesis by (simp add: close_values_def fp_le_def Let_def)
next
  case False
  then have "fp_abs x \<noteq> NaN" "fp_abs y \<noteq> NaN" by (cases x; cases y; auto)+
  then have "fp_max (fp_abs x) (fp_abs y) = fp_max (fp_abs y) (fp_abs x)" by (rule fp_max_comm)
  moreover have "fp_abs (fp_sub fmt x y) = fp_abs (fp_sub fmt y x)"
    by (subst fp_sub_swap) simp
  ultimately show ?thesis by (simp add: close_values_def Let_def)
qed

text \<open>A PV of an unsigned type with a negative display limit, and a prototype with that member.\<close>

definition narrow_pv :: PVConfig where
  "narrow_pv = default_pv\<lparr>pv_name := ''n'', pv_type := UInt8,
     pv_metadata := default_metadata\<lparr>md_display := \<lparr>lc_low = Some (Fin (-1)), lc_high = Some (Fin 1)\<rparr>\<rparr>\<rparr>"

definition narrow_prototype :: "TypeCode \<Rightarrow> bool \<Rightarrow> pvalue" where
  "narrow_prototype t numeric = [''value'' \<mapsto> (t, CEmpty), ''display.limitLow'' \<mapsto> (t, CEmpty)]"

text \<open>
  Display and control limits are not checked against an integer PV type when a configuration is
  read, so creating the value converts a number the type cannot hold, which is undefined.
\<close>

lemma unchecked_limit_narrowing:
  "createInitialValue narrow_prototype now narrow_pv = Inl (UndefinedConversion ''display.limitLow'')"
  by (simp add: createInitialValue_def narrow_pv_def narrow_prototype_def applyStandardMetadata_def
      pvxsTypeCodeFor_def default_pv_def when_valid_def valid_member_def assignTypedNumeric_def Let_def)

section \<open>Properties\<close>

text \<open>
  alarm evaluation is stable: evaluating an unchanged value again, with the condition the first
  evaluation produced as the prior one, gives the same state, whatever the thresholds and the
  hysteresis.
\<close>

theorem alarm_evaluation_stable:
  "evaluateNumericAlarm config v (st_status (evaluateNumericAlarm config v prior))
   = evaluateNumericAlarm config v prior"
  unfolding evaluateNumericAlarm_def Let_def by (simp add: alarm_states)


definition demo_pv :: PVConfig where
  "demo_pv = default_pv\<lparr>pv_alarms := \<lparr>al_lowAlarm = Some (Fin 0), al_lowWarning = Some (Fin 1),
     al_highWarning = Some (Fin 8), al_highAlarm = Some (Fin 10), al_hysteresis = Fin (1/2)\<rparr>\<rparr>"


text \<open>
  the comparison that decides whether a write has been confirmed does not depend on which value
  is the request and which the readback.
\<close>

theorem valuesEqual_symmetric: "valuesEqual lhs rhs = valuesEqual rhs lhs"
proof -
  have "list_all2 (close_values fmt) xs ys = list_all2 (close_values fmt) ys xs" for fmt xs ys
    by (simp add: list_all2_conv_all_nth close_values_comm) metis
  then show ?thesis by (cases lhs; cases rhs) (auto simp: valuesEqual_def close_values_comm)
qed

end
