(* ===== verification/NTNDArray_Frame.thy ===== *)
theory NTNDArray_Frame
  imports Config_Types
begin

text \<open>
  \<open>src/src/ntndarray.cpp\<close>: decoding an image frame from the fields of a Redis stream entry and
  laying it out as an NTNDArray value. Fields are a partial map from names to byte strings;
  \<open>std::from_chars\<close> is written out; \<open>uint64_t\<close> products are 64-bit words with the
  overflow tests of the source. The byte order of the host is the argument \<open>little\<close>.
\<close>

section \<open>Data\<close>

datatype NDColorMode = Mono | RGB1 | RGB2 | RGB3

fun color_code :: "NDColorMode \<Rightarrow> nat" where
  "color_code Mono = 0" | "color_code RGB1 = 2" | "color_code RGB2 = 3" | "color_code RGB3 = 4"

datatype NDTimeSource = UnknownTime | Host | CameraCorrelated | PTP | ExternalTrigger

fun time_source_code :: "NDTimeSource \<Rightarrow> nat" where
  "time_source_code UnknownTime = 0" | "time_source_code Host = 1"
| "time_source_code CameraCorrelated = 2" | "time_source_code PTP = 3"
| "time_source_code ExternalTrigger = 4"

record NDTimeProvenance =
  tp_source :: NDTimeSource
  tp_uncertaintyNs :: "nat option"
  tp_cameraTimestamp :: "nat option"
  tp_cameraTimestampHz :: "nat option"

record NDArrayFrame =
  nf_dataType :: PrimitiveType
  nf_shape :: "int list"
  nf_colorMode :: NDColorMode
  nf_payload :: "u8 list"
  nf_uniqueId :: int
  nf_dataTimestampNs :: nat
  nf_provenance :: NDTimeProvenance

type_synonym NDArrayAttrs = "string \<rightharpoonup> string"

datatype nd_error =
    MissingField string
  | InvalidUnsigned string
  | InvalidSigned string
  | UnsupportedDataType
  | UnsupportedColorMode
  | ShapeNotArray
  | ShapeDimensionCount
  | ShapeNotPositive
  | ShapeDimensionRange
  | InvalidShapeJson
  | UnsupportedTimeSource string
  | ColorShapeMismatch
  | NonNumericElement
  | UnsupportedSchema
  | StreamTimeRange
  | UniqueIdRange
  | ElementCountOverflow
  | ByteCountOverflow
  | FrameTooLarge
  | PayloadLength

definition kNTNDArrayRedisSchema :: string where
  "kNTNDArrayRedisSchema = ''fermi-ad/redis-adapter/ntndarray:1''"

definition kNTNDArrayPayloadField :: string where
  "kNTNDArrayPayloadField = ''_''"

section \<open>Fields\<close>

definition required :: "NDArrayAttrs \<Rightarrow> string \<Rightarrow> nd_error + string" where
  "required attrs name = of_opt (MissingField name) (attrs name)"

text \<open>
  \<open>from_chars\<close> followed by the test that it stopped at the end: only digits (after an optional
  minus sign for signed types), at least one, and a value the type can hold.
\<close>

definition from_chars_unsigned :: "nat \<Rightarrow> string \<Rightarrow> nat option" where
  "from_chars_unsigned w s =
     (if s \<noteq> [] \<and> list_all is_digit s \<and> digits_value s < 2 ^ w then Some (digits_value s) else None)"

definition from_chars_signed :: "nat \<Rightarrow> string \<Rightarrow> int option" where
  "from_chars_signed w s =
     (let neg = (s \<noteq> [] \<and> hd s = CHR 0x2D); ds = (if neg then tl s else s);
          v = (if neg then - int (digits_value ds) else int (digits_value ds))
      in if ds \<noteq> [] \<and> list_all is_digit ds \<and> - (2 ^ (w - 1)) \<le> v \<and> v < 2 ^ (w - 1)
         then Some v else None)"

definition parseUnsigned :: "nat \<Rightarrow> string \<Rightarrow> string \<Rightarrow> nd_error + nat" where
  "parseUnsigned w v name = of_opt (InvalidUnsigned name) (from_chars_unsigned w v)"

definition parseSigned :: "nat \<Rightarrow> string \<Rightarrow> string \<Rightarrow> nd_error + int" where
  "parseSigned w v name = of_opt (InvalidSigned name) (from_chars_signed w v)"

definition data_types :: "PrimitiveType list" where
  "data_types = [Int8, UInt8, Int16, UInt16, Int32, UInt32, Int64, UInt64, Float32, Float64]"

definition parseDataType :: "string \<Rightarrow> nd_error + PrimitiveType" where
  "parseDataType s = ebind (parseUnsigned 32 s ''data_type'') (\<lambda>n.
     if n < length data_types then Inr (data_types ! n) else Inl UnsupportedDataType)"

definition parseColorMode :: "string \<Rightarrow> nd_error + NDColorMode" where
  "parseColorMode s =
     (if s = ''mono'' then Inr Mono else if s = ''rgb1'' then Inr RGB1
      else if s = ''rgb2'' then Inr RGB2 else if s = ''rgb3'' then Inr RGB3
      else Inl UnsupportedColorMode)"

definition parseTimeSource :: "string \<Rightarrow> nd_error + NDTimeSource" where
  "parseTimeSource s =
     (if s = ''unknown'' then Inr UnknownTime else if s = ''host'' then Inr Host
      else if s = ''camera_correlated'' then Inr CameraCorrelated else if s = ''ptp'' then Inr PTP
      else if s = ''external_trigger'' then Inr ExternalTrigger
      else Inl (UnsupportedTimeSource s))"

definition parseOptionalUnsigned :: "nat \<Rightarrow> NDArrayAttrs \<Rightarrow> string \<Rightarrow> nd_error + nat option" where
  "parseOptionalUnsigned w attrs name =
     (case attrs name of None \<Rightarrow> Inr None
      | Some v \<Rightarrow> ebind (parseUnsigned w v name) (\<lambda>n. Inr (Some n)))"

section \<open>Shape\<close>

definition is_space :: "char \<Rightarrow> bool" where
  "is_space c = (c = CHR 0x20 \<or> c = CHR 0x09 \<or> c = CHR 0x0D \<or> c = CHR 0x0A)"

text \<open>The text from \<open>position\<close> on.\<close>

definition skipWhitespace :: "string \<Rightarrow> string" where
  "skipWhitespace s = dropWhile is_space s"

lemma length_skipWhitespace: "length (skipWhitespace s) \<le> length s"
  by (simp add: skipWhitespace_def length_dropWhile_le)

function shape_loop :: "string \<Rightarrow> int list \<Rightarrow> nd_error + (int list \<times> string)" where
  "shape_loop input shape =
     (let s = skipWhitespace input in
      if s \<noteq> [] \<and> hd s = CHR 0x5D then Inr (shape, tl s)
      else if length shape = 3 then Inl ShapeDimensionCount
      else
        let ds = takeWhile is_digit s; rest = skipWhitespace (dropWhile is_digit s) in
        if ds = [] then Inl ShapeNotPositive
        else case parseUnsigned 64 ds ''shape dimension'' of
          Inl e \<Rightarrow> Inl e
        | Inr n \<Rightarrow>
            if n = 0 \<or> 2 ^ 31 - 1 < n then Inl ShapeDimensionRange
            else if rest \<noteq> [] \<and> hd rest = CHR 0x2C then shape_loop (tl rest) (shape @ [int n])
            else if rest \<noteq> [] \<and> hd rest = CHR 0x5D then Inr (shape @ [int n], tl rest)
            else Inl InvalidShapeJson)"
  by auto
termination
proof (relation "measure (length \<circ> fst)", goal_cases)
  case (2 input shape s ds rest v)
  have "length rest \<le> length (dropWhile is_digit s)" using 2 length_skipWhitespace by simp
  also have "\<dots> \<le> length s" by (rule length_dropWhile_le)
  also have "\<dots> \<le> length input" using 2 length_skipWhitespace by simp
  finally have "length rest \<le> length input" .
  moreover have "length (tl rest) < length rest" using 2 by (cases rest) auto
  ultimately show ?case by simp
qed auto

declare shape_loop.simps [simp del]

definition parseShape :: "string \<Rightarrow> nd_error + int list" where
  "parseShape v =
     (let s = skipWhitespace v in
      if s = [] \<or> hd s \<noteq> CHR 0x5B then Inl ShapeNotArray
      else ebind (shape_loop (tl s) []) (\<lambda>(shape, rest).
        if skipWhitespace rest \<noteq> [] then Inl InvalidShapeJson
        else if shape = [] then Inl ShapeDimensionCount
        else Inr shape))"

definition validateColorShape :: "NDColorMode \<Rightarrow> int list \<Rightarrow> nd_error + unit" where
  "validateColorShape mode shape =
     (if mode = Mono then Inr ()
      else let channel = (case mode of RGB1 \<Rightarrow> 0 | RGB2 \<Rightarrow> 1 | _ \<Rightarrow> 2) in
        ensure (channel < length shape \<and> shape ! channel = 3) ColorShapeMismatch)"

section \<open>Frames\<close>

definition elementSize :: "PrimitiveType \<Rightarrow> nd_error + nat" where
  "elementSize t =
     (case t of Int8 \<Rightarrow> Inr 1 | UInt8 \<Rightarrow> Inr 1 | Int16 \<Rightarrow> Inr 2 | UInt16 \<Rightarrow> Inr 2
      | Int32 \<Rightarrow> Inr 4 | UInt32 \<Rightarrow> Inr 4 | Float32 \<Rightarrow> Inr 4
      | Int64 \<Rightarrow> Inr 8 | UInt64 \<Rightarrow> Inr 8 | Float64 \<Rightarrow> Inr 8
      | Boolean \<Rightarrow> Inl NonNumericElement | String \<Rightarrow> Inl NonNumericElement)"

record NDArrayFrameGap =
  fg_skipped :: nat
  fg_discontinuity :: bool

definition assessNDArrayFrameGap :: "u32 \<Rightarrow> u32 \<Rightarrow> u32 \<Rightarrow> NDArrayFrameGap" where
  "assessNDArrayFrameGap previous current maxFrameGap =
     (let step = current - previous in
      if step \<le> 1 then \<lparr>fg_skipped = 0, fg_discontinuity = False\<rparr>
      else if 0x80000000 \<le> step \<or> maxFrameGap < step - 1
      then \<lparr>fg_skipped = 0, fg_discontinuity = True\<rparr>
      else \<lparr>fg_skipped = unat (step - 1), fg_discontinuity = False\<rparr>)"

definition skippedNDArrayFrames :: "u32 \<Rightarrow> u32 \<Rightarrow> u32 \<Rightarrow> nat" where
  "skippedNDArrayFrames previous current maxFrameGap =
     fg_skipped (assessNDArrayFrameGap previous current maxFrameGap)"

definition count_elements :: "u64 \<Rightarrow> int \<Rightarrow> nd_error + u64" where
  "count_elements elements dimension =
     (let d = word_of_int dimension :: u64 in
      if (- 1) div d < elements then Inl ElementCountOverflow else Inr (elements * d))"

fun reverse_groups :: "nat \<Rightarrow> u8 list \<Rightarrow> u8 list" where
  "reverse_groups w bs =
     (if w = 0 \<or> bs = [] then bs else rev (take w bs) @ reverse_groups w (drop w bs))"

declare reverse_groups.simps [simp del]

text \<open>The payload as the host needs it: pixels are little endian in the stream.\<close>

definition host_payload :: "bool \<Rightarrow> nat \<Rightarrow> u8 list \<Rightarrow> u8 list" where
  "host_payload little width bs = (if 1 < width \<and> \<not> little then reverse_groups width bs else bs)"

definition string_bytes :: "string \<Rightarrow> u8 list" where
  "string_bytes s = map (\<lambda>c. word_of_nat (of_char c)) s"

definition parse_provenance :: "NDArrayAttrs \<Rightarrow> nd_error + NDTimeProvenance" where
  "parse_provenance attrs =
     ebind (case attrs ''time_source'' of None \<Rightarrow> Inr UnknownTime | Some v \<Rightarrow> parseTimeSource v) (\<lambda>source.
     ebind (parseOptionalUnsigned 64 attrs ''time_uncertainty_ns'') (\<lambda>uncertainty.
     ebind (parseOptionalUnsigned 64 attrs ''camera_timestamp'') (\<lambda>stamp.
     ebind (parseOptionalUnsigned 64 attrs ''camera_timestamp_hz'') (\<lambda>hz.
     Inr \<lparr>tp_source = source, tp_uncertaintyNs = uncertainty, tp_cameraTimestamp = stamp,
          tp_cameraTimestampHz = hz\<rparr>))))"

definition expected_bytes :: "PrimitiveType \<Rightarrow> int list \<Rightarrow> u64 \<Rightarrow> nd_error + u64" where
  "expected_bytes t shape maxFrameBytes =
     ebind (efold count_elements 1 shape) (\<lambda>elements.
     ebind (elementSize t) (\<lambda>n. let width = word_of_nat n :: u64 in
     ebind (ensure (elements \<le> (- 1) div width) ByteCountOverflow) (\<lambda>_.
     ebind (ensure (elements * width \<le> maxFrameBytes) FrameTooLarge) (\<lambda>_.
     Inr (elements * width)))))"

definition parseNDArrayFrame :: "bool \<Rightarrow> NDArrayAttrs \<Rightarrow> int \<Rightarrow> u64 \<Rightarrow> nd_error + NDArrayFrame" where
  "parseNDArrayFrame little attrs streamTimestampNs maxFrameBytes =
     ebind (required attrs ''schema'') (\<lambda>schema.
     ebind (ensure (schema = kNTNDArrayRedisSchema) UnsupportedSchema) (\<lambda>_.
     ebind (ensure (0 < streamTimestampNs) StreamTimeRange) (\<lambda>_.
     ebind (ebind (required attrs ''data_type'') parseDataType) (\<lambda>dataType.
     ebind (ebind (required attrs ''shape'') parseShape) (\<lambda>shape.
     ebind (ebind (required attrs ''color_mode'') parseColorMode) (\<lambda>mode.
     ebind (validateColorShape mode shape) (\<lambda>_.
     ebind (ebind (required attrs ''unique_id'') (\<lambda>v. parseSigned 64 v ''unique_id'')) (\<lambda>uniqueId.
     ebind (ensure (- (2 ^ 31) \<le> uniqueId \<and> uniqueId < 2 ^ 31) UniqueIdRange) (\<lambda>_.
     ebind (parse_provenance attrs) (\<lambda>provenance.
     ebind (expected_bytes dataType shape maxFrameBytes) (\<lambda>expected.
     ebind (required attrs kNTNDArrayPayloadField) (\<lambda>payload.
     ebind (ensure (length payload = unat expected) PayloadLength) (\<lambda>_.
     ebind (elementSize dataType) (\<lambda>width.
     Inr \<lparr>nf_dataType = dataType, nf_shape = shape, nf_colorMode = mode,
          nf_payload = host_payload little width (string_bytes payload),
          nf_uniqueId = uniqueId, nf_dataTimestampNs = nat streamTimestampNs,
          nf_provenance = provenance\<rparr>))))))))))))))"

section \<open>Lemmas\<close>

text \<open>A dimension is a positive \<open>int32_t\<close>.\<close>

definition dim_ok :: "int \<Rightarrow> bool" where
  "dim_ok d = (1 \<le> d \<and> d < 2 ^ 31)"

lemma parseUnsigned_iff [res_simps]: "parseUnsigned w s name = Inr n \<longleftrightarrow>
    s \<noteq> [] \<and> list_all is_digit s \<and> digits_value s < 2 ^ w \<and> n = digits_value s"
  by (auto simp: parseUnsigned_def from_chars_unsigned_def res_simps)

lemma shape_loop_ok:
  "shape_loop input shape = Inr (shape', rest) \<Longrightarrow> list_all dim_ok shape \<Longrightarrow> length shape \<le> 3 \<Longrightarrow>
    list_all dim_ok shape' \<and> length shape' \<le> 3"
proof (induction input shape rule: shape_loop.induct)
  case (1 input shape)
  have ok: "dim_ok (int n)" if "0 < n" "\<not> 2147483647 < n" for n using that by (simp add: dim_ok_def)
  note loop = 1(2)[unfolded shape_loop.simps[of input shape] Let_def]
  show ?case
  proof (cases "\<exists>n. parseUnsigned 64 (takeWhile is_digit (skipWhitespace input)) ''shape dimension'' = Inr n
      \<and> shape_loop (tl (skipWhitespace (dropWhile is_digit (skipWhitespace input)))) (shape @ [int n]) = Inr (shape', rest)
      \<and> 0 < n \<and> \<not> 2147483647 < n \<and> length shape \<noteq> 3
      \<and> hd (skipWhitespace (dropWhile is_digit (skipWhitespace input))) = CHR '',''
      \<and> skipWhitespace (dropWhile is_digit (skipWhitespace input)) \<noteq> []
      \<and> takeWhile is_digit (skipWhitespace input) \<noteq> []
      \<and> \<not> (skipWhitespace input \<noteq> [] \<and> hd (skipWhitespace input) = CHR 0x5D)")
    case True
    then obtain n where n: "parseUnsigned 64 (takeWhile is_digit (skipWhitespace input)) ''shape dimension'' = Inr n"
      "shape_loop (tl (skipWhitespace (dropWhile is_digit (skipWhitespace input)))) (shape @ [int n]) = Inr (shape', rest)"
      "0 < n" "\<not> 2147483647 < n" "length shape \<noteq> 3"
      "hd (skipWhitespace (dropWhile is_digit (skipWhitespace input))) = CHR '',''"
      "skipWhitespace (dropWhile is_digit (skipWhitespace input)) \<noteq> []"
      "takeWhile is_digit (skipWhitespace input) \<noteq> []"
      "\<not> (skipWhitespace input \<noteq> [] \<and> hd (skipWhitespace input) = CHR 0x5D)" by blast
    show ?thesis
      by (rule 1(1)[OF refl n(9) n(5) refl refl n(8) n(1) _ _ n(2)]) (use n 1(3,4) ok in auto)
  next
    case False
    then show ?thesis using loop 1(3,4) ok by (auto split: if_splits sum.splits)
  qed
qed

lemma parseShape_ok:
  assumes "parseShape v = Inr shape"
  shows "list_all dim_ok shape \<and> 1 \<le> length shape \<and> length shape \<le> 3"
proof -
  obtain s rest where "shape_loop s [] = Inr (shape, rest)" "shape \<noteq> []"
    using assms by (auto simp: parseShape_def Let_def res_simps split: if_splits prod.splits)
  then show ?thesis using shape_loop_ok[of s "[]" shape rest] by (cases shape) auto
qed

lemma unat_max64: "unat (- 1 :: u64) = 2 ^ 64 - 1"
  by (simp add: unsigned_minus_1_eq_mask mask_eq_exp_minus_1)

lemma count_elements_ok:
  assumes "count_elements e d = Inr r" "dim_ok d"
  shows "unat r = unat e * nat d"
proof -
  define w where "w = (word_of_int d :: u64)"
  have u: "unat w = nat d" using assms(2)
    by (simp add: w_def dim_ok_def unsigned_of_int take_bit_int_eq_self)
  have r: "r = e * w" "\<not> (- 1) div w < e" using assms(1) by (auto simp: count_elements_def w_def Let_def split: if_splits)
  then have "e \<le> (- 1) div w" by simp
  then have "unat e \<le> unat ((- 1) div w :: u64)" by (simp add: word_le_nat_alt)
  then have "unat e \<le> (2 ^ 64 - 1) div nat d" by (simp add: unat_div u unat_max64)
  then have "unat e * nat d \<le> 2 ^ 64 - 1"
    by (meson div_times_less_eq_dividend le_trans mult_le_mono1)
  then have "unat e * unat w < 2 ^ LENGTH(64)" by (simp add: u)
  then show ?thesis using r(1) u unat_mult_lem by metis
qed

lemma elements_ok:
  "efold count_elements e shape = Inr r \<Longrightarrow> list_all dim_ok shape \<Longrightarrow> unat r = unat e * prod_list (map nat shape)"
proof (induction shape arbitrary: e)
  case (Cons d shape)
  then obtain e1 where e1: "count_elements e d = Inr e1" "efold count_elements e1 shape = Inr r"
    by (auto simp: res_simps)
  show ?case using Cons.IH[OF e1(2)] count_elements_ok[OF e1(1)] Cons.prems by simp
qed simp

lemma elementSize_range: "elementSize t = Inr w \<Longrightarrow> w = 1 \<or> w = 2 \<or> w = 4 \<or> w = 8"
  by (cases t) (auto simp: elementSize_def)

lemma expected_bytes_ok:
  assumes "expected_bytes t shape m = Inr n" "list_all dim_ok shape"
  shows "\<exists>w. elementSize t = Inr w \<and> unat n = prod_list (map nat shape) * w \<and> unat n \<le> unat m"
proof -
  obtain e w where e: "efold count_elements 1 shape = Inr e" and w: "elementSize t = Inr w"
    and fits: "e \<le> (- 1) div (word_of_nat w :: u64)" "e * word_of_nat w \<le> m" and n: "n = e * word_of_nat w"
    using assms(1) by (auto simp: expected_bytes_def Let_def res_simps)
  have uw: "unat (word_of_nat w :: u64) = w" using elementSize_range[OF w] by auto
  have "unat e \<le> unat ((- 1) div (word_of_nat w) :: u64)" using fits(1) by (simp add: word_le_nat_alt)
  then have "unat e \<le> (2 ^ 64 - 1) div w" by (simp add: unat_div uw unat_max64)
  then have "unat e * w \<le> 2 ^ 64 - 1"
    by (meson div_times_less_eq_dividend le_trans mult_le_mono1)
  then have "unat e * unat (word_of_nat w :: u64) < 2 ^ LENGTH(64)" by (simp add: uw)
  then have "unat n = unat e * w" using n uw unat_mult_lem by metis
  then show ?thesis using w elements_ok[OF e assms(2)] fits(2) n by (simp add: word_le_nat_alt)
qed

lemma length_reverse_groups [simp]: "length (reverse_groups w bs) = length bs"
proof (induction w bs rule: reverse_groups.induct)
  case (1 w bs)
  then show ?case by (subst reverse_groups.simps) auto
qed

lemma length_host_payload [simp]: "length (host_payload little w bs) = length bs"
  by (simp add: host_payload_def)

lemma takeWhile_digits:
  "list_all is_digit ds \<Longrightarrow> rest \<noteq> [] \<Longrightarrow> \<not> is_digit (hd rest) \<Longrightarrow>
    takeWhile is_digit (ds @ rest) = ds \<and> dropWhile is_digit (ds @ rest) = rest"
  by (induction ds) (auto, (cases rest, auto)+)

lemma skip_digit: "is_digit c \<Longrightarrow> skipWhitespace (c # s) = c # s"
  by (auto simp: skipWhitespace_def is_space_def is_digit_def)

lemma parse_commas:
  assumes "dims \<noteq> []" "list_all dim_ok dims" "length shape + length dims \<le> 3"
  shows "shape_loop (join '','' (map (\<lambda>d. to_string (nat d)) dims) @ '']'' @ rest) shape = Inr (shape @ dims, rest)"
  using assms
proof (induction dims arbitrary: shape)
  case (Cons d dims)
  let ?s = "to_string (nat d)"
  have ds: "?s \<noteq> []" "list_all is_digit ?s" using to_string_digits by auto
  have h: "is_digit (hd ?s)" using ds by (cases ?s) auto
  have range: "0 < nat d" "\<not> 2 ^ 31 - 1 < nat d" "nat d < 2 ^ 64" "int (nat d) = d"
    using Cons.prems(2) by (auto simp: dim_ok_def)
  have nd: "\<not> is_digit CHR '',''" "\<not> is_digit CHR '']''" by (auto simp: is_digit_def)
  have hd': "hd ?s \<noteq> CHR '']''" using h nd by metis
  show ?case
  proof (cases dims)
    case Nil
    have t: "takeWhile is_digit (?s @ '']'' @ rest) = ?s \<and> dropWhile is_digit (?s @ '']'' @ rest) = '']'' @ rest"
      using takeWhile_digits[OF ds(2), of "'']'' @ rest"] nd by simp
    have sk: "skipWhitespace (?s @ '']'' @ rest) = ?s @ '']'' @ rest"
      using skip_digit[OF h, of "tl ?s @ '']'' @ rest"] ds(1) by (cases ?s) auto
    have sk2: "skipWhitespace ('']'' @ rest) = '']'' @ rest" by (simp add: skipWhitespace_def is_space_def)
    show ?thesis using Cons.prems Nil t sk sk2 ds range hd'
      by (subst shape_loop.simps) (auto simp: parseUnsigned_def from_chars_unsigned_def Let_def)
  next
    case (Cons d' dims')
    let ?tail = "join '','' (map (\<lambda>d. to_string (nat d)) dims) @ '']'' @ rest"
    have t: "takeWhile is_digit (?s @ '','' @ ?tail) = ?s \<and> dropWhile is_digit (?s @ '','' @ ?tail) = '','' @ ?tail"
      using takeWhile_digits[OF ds(2), of "'','' @ ?tail"] nd by simp
    have sk: "skipWhitespace (?s @ '','' @ ?tail) = ?s @ '','' @ ?tail"
      using skip_digit[OF h, of "tl ?s @ '','' @ ?tail"] ds(1) by (cases ?s) auto
    have sk2: "skipWhitespace ('','' @ ?tail) = '','' @ ?tail" by (simp add: skipWhitespace_def is_space_def)
    have eq: "join '','' (map (\<lambda>d. to_string (nat d)) (d # dims)) @ '']'' @ rest = ?s @ '','' @ ?tail"
      using Cons by simp
    have "shape_loop ?tail (shape @ [d]) = Inr (shape @ d # dims, rest)"
      using Cons.IH[of "shape @ [d]"] Cons.prems Cons by simp
    then show ?thesis using Cons.prems t sk sk2 ds range hd' unfolding eq
      by (subst shape_loop.simps) (auto simp: parseUnsigned_def from_chars_unsigned_def Let_def)
  qed
qed simp

lemma shape_text:
  assumes "dims \<noteq> []" "length dims \<le> 3" "\<forall>d \<in> set dims. 1 \<le> d \<and> d < 2 ^ 31"
  shows "parseShape (''['' @ join '','' (map (\<lambda>d. to_string (nat d)) dims) @ '']'') = Inr dims"
proof -
  have "shape_loop (join '','' (map (\<lambda>d. to_string (nat d)) dims) @ '']'' @ []) [] = Inr ([] @ dims, [])"
    by (rule parse_commas) (use assms in \<open>auto simp: list_all_iff dim_ok_def\<close>)
  then show ?thesis using assms(1)
    by (simp add: parseShape_def skipWhitespace_def is_space_def Let_def)
qed

lemma frame_fields:
  assumes "parseNDArrayFrame little attrs ts m = Inr f"
  shows "\<exists>w payload. elementSize (nf_dataType f) = Inr w \<and> attrs kNTNDArrayPayloadField = Some payload
    \<and> nf_payload f = host_payload little w (string_bytes payload)
    \<and> list_all dim_ok (nf_shape f) \<and> 1 \<le> length (nf_shape f) \<and> length (nf_shape f) \<le> 3
    \<and> length (nf_payload f) = prod_list (map nat (nf_shape f)) * w \<and> length (nf_payload f) \<le> unat m
    \<and> validateColorShape (nf_colorMode f) (nf_shape f) = Inr ()
    \<and> - (2 ^ 31) \<le> nf_uniqueId f \<and> nf_uniqueId f < 2 ^ 31 \<and> int (nf_dataTimestampNs f) = ts \<and> 0 < ts"
proof -
  obtain shp dt n w pl where fields: "parseShape shp = Inr (nf_shape f)" "0 < ts" "nf_dataTimestampNs f = nat ts"
      "validateColorShape (nf_colorMode f) (nf_shape f) = Inr ()"
      "- (2 ^ 31) \<le> nf_uniqueId f" "nf_uniqueId f < 2 ^ 31"
      "expected_bytes (nf_dataType f) (nf_shape f) m = Inr n" "length pl = unat n"
      "elementSize (nf_dataType f) = Inr w" "attrs kNTNDArrayPayloadField = Some pl"
      "nf_payload f = host_payload little w (string_bytes pl)"
    using assms by (auto simp: parseNDArrayFrame_def required_def res_simps)
  have shape: "list_all dim_ok (nf_shape f)" "1 \<le> length (nf_shape f)" "length (nf_shape f) \<le> 3"
    using parseShape_ok[OF fields(1)] by auto
  have "length (nf_payload f) = unat n" using fields by (simp add: string_bytes_def)
  with expected_bytes_ok[OF fields(7) shape(1)] fields shape show ?thesis by auto
qed

section \<open>Properties\<close>


definition demo_attrs :: NDArrayAttrs where
  "demo_attrs = [''schema'' \<mapsto> kNTNDArrayRedisSchema, ''data_type'' \<mapsto> ''3'', ''shape'' \<mapsto> ''[2,1]'',
     ''color_mode'' \<mapsto> ''mono'', ''unique_id'' \<mapsto> ''-7'', ''_'' \<mapsto> ''abcd'']"

lemma demo_frame_accepted: "\<exists>f. parseNDArrayFrame little demo_attrs 5 64 = Inr f"
proof -
  have sh: "parseShape ''[2,1]'' = Inr [2, 1]"
    using shape_text[of "[2, 1]"] by (simp add: to_string.simps char_of_def bit_0)
  show ?thesis
    by (simp add: parseNDArrayFrame_def demo_attrs_def required_def kNTNDArrayRedisSchema_def
        kNTNDArrayPayloadField_def sh parseDataType_def parseUnsigned_def from_chars_unsigned_def
        parseSigned_def from_chars_signed_def parseColorMode_def validateColorShape_def parse_provenance_def
        parseOptionalUnsigned_def expected_bytes_def count_elements_def elementSize_def data_types_def
        digits_value_def is_digit_def Let_def)
qed


text \<open>
  a shape of one to three positive 32-bit dimensions, written as a JSON array, is read back
  exactly.
\<close>

theorem shape_round_trip:
  assumes "dims \<noteq> []" "length dims \<le> 3" "\<forall>d \<in> set dims. 1 \<le> d \<and> d < 2 ^ 31"
  shows "parseShape (''['' @ join '','' (map (\<lambda>d. to_string (nat d)) dims) @ '']'') = Inr dims"
  using assms by (rule shape_text)

theorem shape_round_trip_witness:
  "parseShape (''['' @ join '','' (map (\<lambda>d. to_string (nat d)) [640, 480, 3]) @ '']'') = Inr [640, 480, 3]"
  by (rule shape_round_trip) auto

text \<open>
  counting skipped frames is serial arithmetic modulo 2^32: after \<open>n\<close> missing frames the gap
  is \<open>n\<close>, across the rollover of the id too, as long as it is within the configured ceiling and
  below half the range; a step backwards is a discontinuity and never a count.
\<close>

theorem frame_gap_serial_arithmetic:
  assumes "n + 1 < 2 ^ 31" "n \<le> unat maxFrameGap" "0 < k" "k \<le> 2 ^ 31"
  shows "assessNDArrayFrameGap previous (previous + word_of_nat (n + 1)) maxFrameGap
      = \<lparr>fg_skipped = n, fg_discontinuity = False\<rparr>
    \<and> assessNDArrayFrameGap previous (previous - word_of_nat k) maxFrameGap
      = \<lparr>fg_skipped = 0, fg_discontinuity = True\<rparr>"
proof -
  have u: "unat (word_of_nat (n + 1) :: u32) = n + 1"
    using assms(1) by (intro unat_word_of_nat) simp
  have le: "(word_of_nat (n + 1) :: u32) \<le> 1 \<longleftrightarrow> n = 0" unfolding word_le_nat_alt u by simp
  have hi: "\<not> (0x80000000 :: u32) \<le> word_of_nat (n + 1)" unfolding word_le_nat_alt u using assms(1) by simp
  have pred: "(word_of_nat (n + 1) :: u32) - 1 = word_of_nat n" by simp
  have un: "unat (word_of_nat n :: u32) = n"
    using assms(1) by (intro unat_word_of_nat) simp
  have gap: "\<not> maxFrameGap < word_of_nat n" unfolding word_less_nat_alt un using assms(2) by simp
  have 1: "assessNDArrayFrameGap previous (previous + word_of_nat (n + 1)) maxFrameGap
      = \<lparr>fg_skipped = n, fg_discontinuity = False\<rparr>"
    using le hi gap un pred by (simp add: assessNDArrayFrameGap_def Let_def del: of_nat_add of_nat_Suc)
  have "(- word_of_nat k :: u32) = word_of_nat (2 ^ 32 - k)" using assms(4) by (simp add: of_nat_diff)
  then have uk: "unat (- word_of_nat k :: u32) = 2 ^ 32 - k"
    using assms(3) by (simp only: unat_word_of_nat) (simp add: unat_word_of_nat)
  have "(0x80000000 :: u32) \<le> - word_of_nat k" unfolding word_le_nat_alt uk using assms(4) by simp
  moreover have "\<not> (- word_of_nat k :: u32) \<le> 1" unfolding word_le_nat_alt uk using assms(4) by simp
  ultimately have "assessNDArrayFrameGap previous (previous - word_of_nat k) maxFrameGap
      = \<lparr>fg_skipped = 0, fg_discontinuity = True\<rparr>"
    by (simp add: assessNDArrayFrameGap_def Let_def)
  with 1 show ?thesis by blast
qed

theorem frame_gap_serial_arithmetic_witness:
  "assessNDArrayFrameGap 0xfffffffe (0xfffffffe + word_of_nat (3 + 1)) 10000
     = \<lparr>fg_skipped = 3, fg_discontinuity = False\<rparr>"
  using frame_gap_serial_arithmetic[of 3 10000 1 "0xfffffffe"] by simp

text \<open>The shape reader accepts a comma before the closing bracket, which JSON does not.\<close>

lemma trailing_comma_accepted: "parseShape ''[2,]'' = Inr [2]"
  by (simp add: parseShape_def skipWhitespace_def is_space_def is_digit_def digits_value_def parseUnsigned_def
      from_chars_unsigned_def Let_def shape_loop.simps[of "''2,]''" "[]"] shape_loop.simps[of "'']''" "[2]"])

end
