(* ===== verification/NTNDArray_Value.thy ===== *)
theory NTNDArray_Value
  imports NTNDArray_Frame Value_Util
begin

text \<open>
  The second half of \<open>src/src/ntndarray.cpp\<close>: an accepted frame laid out as an NTNDArray value.
  The members of the normative type are a record; the pixels are the numbers a host of the given
  byte order reads when the payload bytes are copied into an array of the element type (the bit
  pattern, for floating point).
\<close>

section \<open>Values\<close>

record nd_time =
  nt_secondsPastEpoch :: nat
  nt_nanoseconds :: nat
  nt_userTag :: nat

record nd_dimension =
  dm_size :: int
  dm_offset :: int
  dm_fullSize :: int
  dm_binning :: int
  dm_reverse :: bool

record nd_attribute =
  at_name :: string
  at_value :: nat
  at_descriptor :: string
  at_alarm :: AlarmState
  at_timeStamp :: nd_time
  at_sourceType :: int
  at_source :: string

record nd_value =
  ndv_member :: string
  ndv_pixels :: "nat list"
  ndv_codecName :: string
  ndv_compressedSize :: nat
  ndv_uncompressedSize :: nat
  ndv_uniqueId :: int
  ndv_dataTimeStamp :: nd_time
  ndv_timeStamp :: nd_time
  ndv_alarm :: AlarmState
  ndv_dimension :: "nd_dimension list"
  ndv_attribute :: "nd_attribute list"

definition assignTimestamp :: "nat \<Rightarrow> nd_time" where
  "assignTimestamp ns = \<lparr>nt_secondsPastEpoch = ns div 1000000000, nt_nanoseconds = ns mod 1000000000,
     nt_userTag = 0\<rparr>"

text \<open>\<open>applyTimestamp\<close> with its default argument: the current time, or zero.\<close>

definition stamp_now :: "nat option \<Rightarrow> nd_time" where
  "stamp_now now = assignTimestamp (case now of None \<Rightarrow> 0 | Some t \<Rightarrow> t)"

fun groups :: "nat \<Rightarrow> u8 list \<Rightarrow> u8 list list" where
  "groups w bs = (if w = 0 \<or> length bs < w then [] else take w bs # groups w (drop w bs))"

declare groups.simps [simp del]

definition le_number :: "u8 list \<Rightarrow> nat" where
  "le_number bs = foldr (\<lambda>b v. unat b + 256 * v) bs 0"

definition host_number :: "bool \<Rightarrow> u8 list \<Rightarrow> nat" where
  "host_number little bs = le_number (if little then bs else rev bs)"

definition assignPixels :: "bool \<Rightarrow> nat \<Rightarrow> u8 list \<Rightarrow> nat list" where
  "assignPixels little width payload = map (host_number little) (groups width payload)"

fun pixel_member :: "PrimitiveType \<Rightarrow> string option" where
  "pixel_member Int8 = Some ''value->byteValue''"
| "pixel_member UInt8 = Some ''value->ubyteValue''"
| "pixel_member Int16 = Some ''value->shortValue''"
| "pixel_member UInt16 = Some ''value->ushortValue''"
| "pixel_member Int32 = Some ''value->intValue''"
| "pixel_member UInt32 = Some ''value->uintValue''"
| "pixel_member Int64 = Some ''value->longValue''"
| "pixel_member UInt64 = Some ''value->ulongValue''"
| "pixel_member Float32 = Some ''value->floatValue''"
| "pixel_member Float64 = Some ''value->doubleValue''"
| "pixel_member Boolean = None"
| "pixel_member String = None"

definition frame_dimension :: "int \<Rightarrow> nd_dimension" where
  "frame_dimension d = \<lparr>dm_size = d, dm_offset = 0, dm_fullSize = d, dm_binning = 1, dm_reverse = False\<rparr>"

definition frame_attribute :: "nat \<Rightarrow> string \<Rightarrow> string \<Rightarrow> nat \<Rightarrow> string \<Rightarrow> nd_attribute" where
  "frame_attribute ns name descriptor v source =
     \<lparr>at_name = name, at_value = v, at_descriptor = descriptor, at_alarm = no_alarm,
      at_timeStamp = assignTimestamp ns, at_sourceType = 0, at_source = source\<rparr>"

definition frame_attributes :: "NDArrayFrame \<Rightarrow> nd_attribute list" where
  "frame_attributes f =
     (let p = nf_provenance f; add = frame_attribute (nf_dataTimestampNs f);
          optional = (\<lambda>name descriptor v. case v of None \<Rightarrow> [] | Some n \<Rightarrow> [add name descriptor n ''envelope''])
      in [add ''ColorMode'' ''NDColorMode_t'' (color_code (nf_colorMode f)) ''driver'',
          add ''AcquisitionTimeNs'' ''POSIX nanoseconds'' (nf_dataTimestampNs f) ''Redis Stream ID'',
          add ''AcquisitionTimeSource'' ''NDTimeSource'' (time_source_code (tp_source p)) ''envelope'']
         @ optional ''AcquisitionTimeUncertaintyNs'' ''nanoseconds'' (tp_uncertaintyNs p)
         @ optional ''CameraTimestamp'' ''camera clock ticks'' (tp_cameraTimestamp p)
         @ optional ''CameraTimestampFrequency'' ''ticks per second'' (tp_cameraTimestampHz p))"

text \<open>\<open>None\<close> is the \<open>std::logic_error\<close> for a type that is not numeric.\<close>

definition populateNTNDArrayValue :: "bool \<Rightarrow> nat option \<Rightarrow> NDArrayFrame \<Rightarrow> nd_value option" where
  "populateNTNDArrayValue little now f =
     (case (pixel_member (nf_dataType f), elementSize (nf_dataType f)) of
        (Some member, Inr width) \<Rightarrow> Some
          \<lparr>ndv_member = member, ndv_pixels = assignPixels little width (nf_payload f),
           ndv_codecName = [], ndv_compressedSize = length (nf_payload f),
           ndv_uncompressedSize = length (nf_payload f), ndv_uniqueId = nf_uniqueId f,
           ndv_dataTimeStamp = assignTimestamp (nf_dataTimestampNs f), ndv_timeStamp = stamp_now now,
           ndv_alarm = no_alarm, ndv_dimension = map frame_dimension (nf_shape f),
           ndv_attribute = frame_attributes f\<rparr>
      | _ \<Rightarrow> None)"

definition setNTNDArrayInvalidAlarm :: "nat option \<Rightarrow> string \<Rightarrow> nd_value \<Rightarrow> nd_value" where
  "setNTNDArrayInvalidAlarm now reason v =
     v\<lparr>ndv_alarm := \<lparr>st_severity = epicsSevInvalid, st_status = epicsAlarmUDF, st_message = reason\<rparr>,
       ndv_timeStamp := stamp_now now\<rparr>"

definition createEmptyNTNDArray :: "nat option \<Rightarrow> string \<Rightarrow> nd_value" where
  "createEmptyNTNDArray now reason =
     setNTNDArrayInvalidAlarm now reason
       \<lparr>ndv_member = ''value->ubyteValue'', ndv_pixels = [], ndv_codecName = [], ndv_compressedSize = 0,
        ndv_uncompressedSize = 0, ndv_uniqueId = 0, ndv_dataTimeStamp = assignTimestamp 0,
        ndv_timeStamp = assignTimestamp 0, ndv_alarm = no_alarm, ndv_dimension = [], ndv_attribute = []\<rparr>"

section \<open>Lemmas\<close>

lemma groups_reverse:
  "0 < w \<Longrightarrow> groups w (reverse_groups w bs) = map rev (groups w bs)"
proof (induction w bs rule: groups.induct)
  case (1 w bs)
  show ?case
  proof (cases "length bs < w")
    case True
    then show ?thesis using 1(2) by (subst (1 2) groups.simps) simp
  next
    case False
    then have ne: "bs \<noteq> []" using 1(2) by auto
    have "reverse_groups w bs = rev (take w bs) @ reverse_groups w (drop w bs)"
      using 1(2) ne by (subst reverse_groups.simps) simp
    then show ?thesis using 1 False by (subst (1 2) groups.simps) simp
  qed
qed

lemma groups_one: "groups (Suc 0) bs = map (\<lambda>b. [b]) bs"
proof (induction bs)
  case (Cons b bs)
  then show ?case by (subst groups.simps) simp
qed (simp add: groups.simps)

lemma pixels_host_independent:
  assumes "0 < w"
  shows "assignPixels little w (host_payload little w bs) = map le_number (groups w bs)"
proof (cases "1 < w \<and> \<not> little")
  case True
  then show ?thesis
    by (simp add: assignPixels_def host_payload_def groups_reverse host_number_def)
next
  case False
  then have "little \<or> w = Suc 0" using assms by auto
  then show ?thesis
    by (auto simp: assignPixels_def host_payload_def host_number_def groups_one)
qed

lemma length_groups: "0 < w \<Longrightarrow> length bs = n * w \<Longrightarrow> length (groups w bs) = n"
proof (induction n arbitrary: bs)
  case 0
  then show ?case by (simp add: groups.simps)
next
  case (Suc n)
  then show ?case by (subst groups.simps) simp
qed

section \<open>Properties\<close>

text \<open>
  C18: the pixels that are served do not depend on the byte order of the host: each one is the
  little-endian number of its group of payload bytes, and there are exactly as many as the shape
  says.
\<close>

theorem pixels_are_little_endian:
  assumes "parseNDArrayFrame little attrs ts m = Inr f"
  shows "\<exists>w payload v. elementSize (nf_dataType f) = Inr w \<and> attrs kNTNDArrayPayloadField = Some payload
    \<and> populateNTNDArrayValue little now f = Some v
    \<and> ndv_pixels v = map le_number (groups w (string_bytes payload))
    \<and> length (ndv_pixels v) = prod_list (map nat (nf_shape f))"
proof -
  obtain w payload where w: "elementSize (nf_dataType f) = Inr w" "attrs kNTNDArrayPayloadField = Some payload"
      "nf_payload f = host_payload little w (string_bytes payload)"
      "length (nf_payload f) = prod_list (map nat (nf_shape f)) * w"
    using frame_fields[OF assms] by blast
  have pos: "0 < w" using elementSize_range[OF w(1)] by auto
  obtain member where m: "pixel_member (nf_dataType f) = Some member"
    using w(1) by (cases "nf_dataType f") (auto simp: elementSize_def)
  have "length (string_bytes payload) = prod_list (map nat (nf_shape f)) * w" using w(3,4) by simp
  then have "length (groups w (string_bytes payload)) = prod_list (map nat (nf_shape f))"
    by (rule length_groups[OF pos])
  then show ?thesis using w m pixels_host_independent[OF pos]
    by (auto simp: populateNTNDArrayValue_def)
qed

theorem pixels_are_little_endian_witness:
  "\<exists>f v. parseNDArrayFrame False demo_attrs 5 64 = Inr f \<and> populateNTNDArrayValue False None f = Some v
     \<and> ndv_pixels v = map le_number (groups 2 (string_bytes ''abcd''))"
proof -
  obtain f where f: "parseNDArrayFrame False demo_attrs 5 64 = Inr f" using demo_frame_accepted by blast
  obtain w payload v where v: "elementSize (nf_dataType f) = Inr w" "demo_attrs kNTNDArrayPayloadField = Some payload"
      "populateNTNDArrayValue False None f = Some v" "ndv_pixels v = map le_number (groups w (string_bytes payload))"
    using pixels_are_little_endian[OF f, of None] by blast
  have "payload = ''abcd''" using v(2) by (simp add: demo_attrs_def kNTNDArrayPayloadField_def)
  moreover have "w = 2" using v(1) f
    by (auto simp: parseNDArrayFrame_def demo_attrs_def required_def res_simps parseDataType_def parseUnsigned_def
        from_chars_unsigned_def digits_value_def is_digit_def data_types_def elementSize_def)
  ultimately show ?thesis using f v by auto
qed

end
