(* ===== verification/Secrets.thy ===== *)
theory Secrets
  imports Prelude
begin

text \<open>
  Secret input, \<open>src/secrets.cpp\<close>: the bounded reading of a secret file and the choice between
  an environment variable and its \<open>_FILE\<close> form. The operating system is a parameter: what
  \<open>open\<close> and \<open>fstat\<close> report for a path and the results of the successive \<open>read\<close> calls.
  A secret is accepted exactly when the file holds it on one line with at most one line ending.
\<close>

section \<open>Model\<close>

datatype secret_error =
    SecretError string string
  | MutuallyExclusive string

text \<open>
  What the calls on the descriptor return. \<open>Chunk\<close> is a successful \<open>read\<close>, empty at the end of
  the file; \<open>Eintr\<close> and \<open>ReadFailed\<close> are negative returns. A list of results is followed by
  end of file.
\<close>

datatype read_result = Chunk string | Eintr | ReadFailed

record handle =
  hd_regular :: "bool option"
  hd_size :: int
  hd_reads :: "read_result list"

type_synonym files = "string \<Rightarrow> string + handle"

definition secret_limit :: nat where
  "secret_limit = 16384"

fun read_loop :: "nat \<Rightarrow> string \<Rightarrow> read_result list \<Rightarrow> string option" where
  "read_loop room acc [] = Some acc"
| "read_loop room acc (Chunk s # rs) =
     (if \<not> length acc < room then Some acc
      else if s = [] then Some acc
      else read_loop room (acc @ take (room - length acc) s) rs)"
| "read_loop room acc (Eintr # rs) =
     (if \<not> length acc < room then Some acc else read_loop room acc rs)"
| "read_loop room acc (ReadFailed # rs) =
     (if \<not> length acc < room then Some acc else None)"

definition strip_line_end :: "string \<Rightarrow> string" where
  "strip_line_end s =
     (if s \<noteq> [] \<and> last s = CHR 0x0A
      then (let t = butlast s in if t \<noteq> [] \<and> last t = CHR 0x0D then butlast t else t)
      else s)"

definition checked_secret :: "string \<Rightarrow> string \<Rightarrow> secret_error + string" where
  "checked_secret setting value =
     (if secret_limit < length value then Inl (SecretError setting ''secret exceeds 16384 bytes'')
      else if value = [] then Inl (SecretError setting ''secret file must not be empty'')
      else if CHR 0x0D \<in> set value \<or> CHR 0x0A \<in> set value \<or> CHR 0x00 \<in> set value
      then Inl (SecretError setting ''secret must be one line without NUL'')
      else Inr value)"

definition readSecretFile :: "files \<Rightarrow> string \<Rightarrow> string \<Rightarrow> secret_error + string" where
  "readSecretFile fs path setting =
     (if path = [] \<or> CHR 0x00 \<in> set path
      then Inl (SecretError setting ''secret file path must be nonempty text'')
      else case fs path of
        Inl reason \<Rightarrow> Inl (SecretError setting (''cannot open secret file: '' @ reason))
      | Inr fd \<Rightarrow>
          (case hd_regular fd of
            None \<Rightarrow> Inl (SecretError setting ''cannot inspect secret file'')
          | Some regular \<Rightarrow>
              if \<not> regular then Inl (SecretError setting ''secret input must be a regular file'')
              else if int (secret_limit + 2) < hd_size fd
              then Inl (SecretError setting ''secret exceeds 16384 bytes'')
              else case read_loop (secret_limit + 3) [] (hd_reads fd) of
                None \<Rightarrow> Inl (SecretError setting ''cannot read secret file'')
              | Some buffer \<Rightarrow>
                  checked_secret setting (strip_line_end buffer)))"

definition credentialFromEnvironment :: "files \<Rightarrow> (string \<Rightarrow> string option) \<Rightarrow> string
    \<Rightarrow> secret_error + string" where
  "credentialFromEnvironment fs getenv name =
     (let direct = getenv name; fileName = name @ ''_FILE'' in
      case getenv fileName of
        Some (c # file) \<Rightarrow>
          if (case direct of None \<Rightarrow> False | Some d \<Rightarrow> d \<noteq> []) then Inl (MutuallyExclusive name)
          else readSecretFile fs (c # file) fileName
      | _ \<Rightarrow> Inr (case direct of None \<Rightarrow> [] | Some d \<Rightarrow> d))"

section \<open>What a file holds\<close>

text \<open>The bytes the successful reads deliver up to the end of the file.\<close>

fun delivered :: "read_result list \<Rightarrow> string" where
  "delivered [] = []"
| "delivered (Chunk s # rs) = (if s = [] then [] else s @ delivered rs)"
| "delivered (Eintr # rs) = delivered rs"
| "delivered (ReadFailed # rs) = []"

definition secret_ok :: "string \<Rightarrow> bool" where
  "secret_ok s = (s \<noteq> [] \<and> length s \<le> secret_limit \<and> CHR 0x0D \<notin> set s \<and> CHR 0x0A \<notin> set s \<and> CHR 0x00 \<notin> set s)"

section \<open>Lemmas\<close>

lemma read_loop_full: "room \<le> length acc \<Longrightarrow> read_loop room acc rs = Some acc"
  by (induction room acc rs rule: read_loop.induct) auto

lemma read_loop_delivered:
  assumes "ReadFailed \<notin> set rs" "length acc \<le> room"
  shows "read_loop room acc rs = Some (acc @ take (room - length acc) (delivered rs))"
  using assms
proof (induction room acc rs rule: read_loop.induct)
  case (2 room acc s rs)
  show ?case
  proof (cases "length acc < room \<and> s \<noteq> []")
    case True
    then have "length (acc @ take (room - length acc) s) \<le> room" by auto
    with 2 True show ?thesis
      by (auto simp: min_def not_le)
  next
    case False
    with 2 show ?thesis by auto
  qed
qed auto

lemma strip_line_end_cases:
  "strip_line_end s = t \<Longrightarrow> \<exists>eol \<in> {[], [CHR 0x0A], [CHR 0x0D, CHR 0x0A]}. s = t @ eol"
  by (cases s rule: rev_cases; cases "butlast s" rule: rev_cases)
    (auto simp: strip_line_end_def Let_def butlast_append split: if_splits)

lemma strip_line_end_ok:
  assumes "secret_ok t" "eol \<in> {[], [CHR 0x0A], [CHR 0x0D, CHR 0x0A]}"
  shows "strip_line_end (t @ eol) = t"
proof -
  have "last t \<noteq> CHR 0x0A" "last t \<noteq> CHR 0x0D"
    using assms(1) by (metis last_in_set secret_ok_def)+
  with assms show ?thesis
    by (auto simp: strip_line_end_def secret_ok_def Let_def butlast_append)
qed

lemma checked_secret_Inr: "checked_secret setting v = Inr s \<longleftrightarrow> secret_ok s \<and> s = v"
  by (auto simp: checked_secret_def secret_ok_def)

lemma readSecretFile_regular:
  assumes "path \<noteq> []" "CHR 0x00 \<notin> set path" "fs path = Inr fd" "hd_regular fd = Some True"
    "hd_size fd \<le> int (secret_limit + 2)" "ReadFailed \<notin> set (hd_reads fd)"
  shows "readSecretFile fs path setting = Inr s \<longleftrightarrow>
    secret_ok s \<and> s = strip_line_end (take (secret_limit + 3) (delivered (hd_reads fd)))"
proof -
  have "read_loop (secret_limit + 3) [] (hd_reads fd) = Some (take (secret_limit + 3) (delivered (hd_reads fd)))"
    using read_loop_delivered [OF assms(6), of "[]" "secret_limit + 3"] by simp
  then show ?thesis
    using assms by (simp add: readSecretFile_def checked_secret_Inr)
qed

section \<open>Properties\<close>

text \<open>
  C22: reading a secret from a regular file that can be read (in any number of pieces, with
  interrupted calls) succeeds exactly when the file holds the secret followed by nothing, a line
  feed, or a carriage return and a line feed, where the secret has 1 to 16384 bytes and no carriage
  return, line feed or NUL; then the secret is returned without the line ending.
\<close>

theorem secret_is_the_single_line:
  assumes "path \<noteq> []" "CHR 0x00 \<notin> set path" "fs path = Inr fd" "hd_regular fd = Some True"
    "hd_size fd \<le> int (secret_limit + 2)" "ReadFailed \<notin> set (hd_reads fd)"
  shows "readSecretFile fs path setting = Inr s \<longleftrightarrow> secret_ok s \<and>
    (\<exists>eol \<in> {[], [CHR 0x0A], [CHR 0x0D, CHR 0x0A]}. delivered (hd_reads fd) = s @ eol)"
proof -
  define d where "d = delivered (hd_reads fd)"
  define eols :: "string set" where "eols = {[], [CHR 0x0A], [CHR 0x0D, CHR 0x0A]}"
  have short: "length eol \<le> 2" if "eol \<in> eols" for eol using that by (auto simp: eols_def)
  have "s = strip_line_end (take (secret_limit + 3) d) \<longleftrightarrow> (\<exists>eol \<in> eols. d = s @ eol)" if ok: "secret_ok s"
  proof
    assume "s = strip_line_end (take (secret_limit + 3) d)"
    then have "strip_line_end (take (secret_limit + 3) d) = s" by (rule sym)
    then have "\<exists>eol \<in> eols. take (secret_limit + 3) d = s @ eol"
      unfolding eols_def by (rule strip_line_end_cases)
    then obtain eol where eol: "eol \<in> eols" "take (secret_limit + 3) d = s @ eol" by blast
    have "length (take (secret_limit + 3) d) < secret_limit + 3"
      using ok short [OF eol(1)] unfolding eol(2) by (simp add: secret_ok_def)
    then have "take (secret_limit + 3) d = d" by simp
    with eol show "\<exists>eol \<in> eols. d = s @ eol" by metis
  next
    assume "\<exists>eol \<in> eols. d = s @ eol"
    then obtain eol where eol: "eol \<in> eols" "d = s @ eol" by blast
    then have "length d \<le> secret_limit + 3" using ok short [OF eol(1)] by (simp add: secret_ok_def)
    then show "s = strip_line_end (take (secret_limit + 3) d)"
      using eol strip_line_end_ok [OF ok, of eol] by (simp add: eols_def)
  qed
  then show ?thesis
    unfolding readSecretFile_regular [of path fs fd, OF assms] d_def eols_def by (intro conj_cong refl)
qed

theorem secret_is_the_single_line_witness:
  "readSecretFile (\<lambda>_. Inr \<lparr>hd_regular = Some True, hd_size = 4,
      hd_reads = [Chunk ''p'', Eintr, Chunk ''w'', Chunk [CHR 0x0D, CHR 0x0A]]\<rparr>) ''/k'' ''x'' = Inr ''pw''"
proof -
  let ?fd = "\<lparr>hd_regular = Some True, hd_size = 4,
      hd_reads = [Chunk ''p'', Eintr, Chunk ''w'', Chunk [CHR 0x0D, CHR 0x0A]]\<rparr>"
  have "secret_ok ''pw''" by (simp add: secret_ok_def secret_limit_def)
  then show ?thesis
    using secret_is_the_single_line [of "''/k''" "\<lambda>_. Inr ?fd" ?fd "''x''" "''pw''"]
    by (simp add: secret_limit_def)
qed

end
