(* ===== verification/Source_Health.thy ===== *)
theory Source_Health
  imports Config_Types
begin

text \<open>
  Source health, \<open>src/source_health.cpp\<close>: the record of the samples a runtime has accepted from
  its Redis stream and the assessment that combines it with the state of the stream reader. The
  reader's status is a value of the Redis adapter and an argument here; the steady clock counts
  nanoseconds and its zero is the default time point.
\<close>

section \<open>Model\<close>

datatype StreamKind = Missing | Invalid | Stream | UnknownKind

record ReaderStatus =
  rr_active :: bool
  rr_connected :: bool
  rr_inspected :: bool
  rr_streamKind :: StreamKind
  rr_epoch :: u64
  rr_readRejections :: u64
  rr_inspectionRejections :: u64
  rr_inspectionFailures :: u64

record SourceStatus =
  ss_pv :: string
  ss_backend :: string
  ss_key :: string
  ss_role :: string
  ss_state :: string
  ss_error :: string
  ss_inspection :: string
  ss_required :: bool
  ss_valid :: bool
  ss_fresh :: bool
  ss_stale :: bool
  ss_ready :: bool
  ss_staleAfterMs :: u32
  ss_readerProbeMs :: u32
  ss_lastValidAgeMs :: int
  ss_lastValidCursor :: string
  ss_lastValidEpoch :: u64
  ss_invalidSamples :: u64
  ss_staleTransitions :: u64
  ss_staleCallbacks :: u64
  ss_reader :: ReaderStatus

record SourceSampleState =
  sa_valid :: bool
  sa_wasStale :: bool
  sa_cursor :: string
  sa_error :: string
  sa_epoch :: u64
  sa_invalidSamples :: u64
  sa_staleTransitions :: u64
  sa_staleCallbacks :: u64
  sa_acceptedReadRejections :: u64
  sa_seenEpoch :: u64
  sa_received :: int

definition fresh_sample :: SourceSampleState where
  "fresh_sample = \<lparr>sa_valid = False, sa_wasStale = False, sa_cursor = [],
     sa_error = ''No valid source data'', sa_epoch = 0, sa_invalidSamples = 0, sa_staleTransitions = 0,
     sa_staleCallbacks = 0, sa_acceptedReadRejections = 0, sa_seenEpoch = 0, sa_received = 0\<rparr>"

definition accept_sample :: "string \<Rightarrow> u64 \<Rightarrow> int \<Rightarrow> SourceSampleState \<Rightarrow> SourceSampleState" where
  "accept_sample cursor capturedEpoch now sample = sample\<lparr>sa_valid := True, sa_wasStale := False,
     sa_cursor := cursor, sa_epoch := capturedEpoch, sa_seenEpoch := capturedEpoch, sa_received := now,
     sa_error := []\<rparr>"

definition reject_sample :: "string \<Rightarrow> u64 \<Rightarrow> SourceSampleState \<Rightarrow> SourceSampleState" where
  "reject_sample reason capturedEpoch sample = sample\<lparr>sa_valid := False, sa_seenEpoch := capturedEpoch,
     sa_error := reason, sa_invalidSamples := sa_invalidSamples sample + 1\<rparr>"

fun streamKindName :: "StreamKind \<Rightarrow> string" where
  "streamKindName Missing = ''missing''"
| "streamKindName Invalid = ''wrong-type''"
| "streamKindName Stream = ''stream''"
| "streamKindName UnknownKind = ''unknown''"

text \<open>The cascade that names the state of the source: its state, its error and whether it is ready.\<close>

definition source_state :: "bool \<Rightarrow> SourceSampleState \<Rightarrow> ReaderStatus \<Rightarrow> bool \<Rightarrow> bool
    \<Rightarrow> string \<times> string \<times> bool" where
  "source_state active sample reader valid stale =
     (if \<not> active \<or> \<not> rr_active reader then (''inactive'', [], False)
      else if \<not> rr_connected reader then (''disconnected'', ''Source reader disconnected'', False)
      else if rr_streamKind reader = Missing then (''missing'', ''Source stream missing'', False)
      else if rr_streamKind reader = Invalid
      then (''wrong-type'', ''Source key is not a Redis stream'', False)
      else if sa_acceptedReadRejections sample < rr_readRejections reader
      then (''read-rejected'', ''Source read rejected; waiting for valid data'', False)
      else if \<not> sa_valid sample \<and> sa_seenEpoch sample = rr_epoch reader
      then (''invalid'', sa_error sample, False)
      else if sa_epoch sample \<noteq> rr_epoch reader
      then (''waiting'', ''Waiting for valid data in current source epoch'', False)
      else if \<not> valid then (''invalid'', sa_error sample, False)
      else if stale then (''stale'', ''Source freshness deadline exceeded'', False)
      else (''ready'', [], True))"

definition inspection_state :: "u32 \<Rightarrow> ReaderStatus \<Rightarrow> string" where
  "inspection_state probeMs reader =
     (if probeMs = 0 then ''disabled'' else if rr_inspected reader then ''available''
      else if rr_inspectionRejections reader \<noteq> 0 then ''rejected''
      else if rr_inspectionFailures reader \<noteq> 0 then ''unavailable'' else ''pending'')"

definition source_age :: "SourceSampleState \<Rightarrow> int \<Rightarrow> int" where
  "source_age sample now =
     (if sa_received sample \<noteq> 0 then max 0 ((now - sa_received sample) div 1000000) else -1)"

definition source_stale :: "PVConfig \<Rightarrow> SourceSampleState \<Rightarrow> ReaderStatus \<Rightarrow> int \<Rightarrow> bool" where
  "source_stale config sample reader now = (sa_valid sample \<and> sa_epoch sample = rr_epoch reader
     \<and> sh_staleAfterMs (pv_sourceHealth config) \<noteq> 0
     \<and> uint (sh_staleAfterMs (pv_sourceHealth config)) \<le> source_age sample now)"

definition assessSource :: "SourceSampleState \<Rightarrow> ReaderStatus \<Rightarrow> PVConfig \<Rightarrow> string \<Rightarrow> RouteConfig
    \<Rightarrow> string \<Rightarrow> bool \<Rightarrow> u32 \<Rightarrow> int \<Rightarrow> SourceStatus \<times> SourceSampleState" where
  "assessSource sample reader config name route role active probeMs now =
     (let staleAfter = sh_staleAfterMs (pv_sourceHealth config);
          age = source_age sample now;
          valid = (sa_valid sample \<and> sa_epoch sample = rr_epoch reader);
          stale = source_stale config sample reader now;
          sample' = sample\<lparr>sa_staleTransitions := (if stale \<and> \<not> sa_wasStale sample
              then sa_staleTransitions sample + 1 else sa_staleTransitions sample), sa_wasStale := stale\<rparr>;
          st = source_state active sample reader valid stale
      in (\<lparr>ss_pv = name, ss_backend = rt_backend route, ss_key = rt_key route, ss_role = role,
           ss_state = fst st, ss_error = fst (snd st), ss_inspection = inspection_state probeMs reader,
           ss_required = sh_required (pv_sourceHealth config), ss_valid = valid,
           ss_fresh = (valid \<and> \<not> stale), ss_stale = stale, ss_ready = snd (snd st),
           ss_staleAfterMs = staleAfter, ss_readerProbeMs = probeMs, ss_lastValidAgeMs = age,
           ss_lastValidCursor = sa_cursor sample, ss_lastValidEpoch = sa_epoch sample,
           ss_invalidSamples = sa_invalidSamples sample,
           ss_staleTransitions = sa_staleTransitions sample',
           ss_staleCallbacks = sa_staleCallbacks sample, ss_reader = reader\<rparr>, sample'))"

section \<open>Reference notions\<close>

definition reader_healthy :: "SourceSampleState \<Rightarrow> ReaderStatus \<Rightarrow> bool" where
  "reader_healthy sample reader \<longleftrightarrow> rr_active reader \<and> rr_connected reader
     \<and> rr_streamKind reader \<notin> {Missing, Invalid}
     \<and> rr_readRejections reader \<le> sa_acceptedReadRejections sample"

definition within_deadline :: "PVConfig \<Rightarrow> SourceSampleState \<Rightarrow> int \<Rightarrow> bool" where
  "within_deadline config sample now \<longleftrightarrow> sh_staleAfterMs (pv_sourceHealth config) = 0
     \<or> sa_received sample = 0
     \<or> now - sa_received sample < uint (sh_staleAfterMs (pv_sourceHealth config)) * 1000000"

section \<open>Lemmas\<close>

lemma source_state_ready:
  "snd (snd (source_state active sample reader valid stale)) \<longleftrightarrow>
     active \<and> reader_healthy sample reader \<and> sa_epoch sample = rr_epoch reader \<and> valid \<and> \<not> stale
       \<and> (sa_valid sample \<or> sa_seenEpoch sample \<noteq> rr_epoch reader)"
  "fst (source_state active sample reader valid stale) = ''ready'' \<longleftrightarrow>
     snd (snd (source_state active sample reader valid stale))"
  by (auto simp: source_state_def reader_healthy_def linorder_not_less)

lemma source_stale_iff:
  "source_stale config sample reader now \<longleftrightarrow>
     sa_valid sample \<and> sa_epoch sample = rr_epoch reader \<and> \<not> within_deadline config sample now"
proof (cases "sh_staleAfterMs (pv_sourceHealth config) = 0")
  case False
  then have pos: "0 < uint (sh_staleAfterMs (pv_sourceHealth config))" (is "0 < ?s")
    by (metis uint_0_iff uint_ge_0 order_le_less)
  then have "?s \<le> max 0 (d div 1000000) \<longleftrightarrow> ?s * 1000000 \<le> d" for d :: int by linarith
  with pos False show ?thesis
    by (simp add: source_stale_def source_age_def within_deadline_def linorder_not_less)
qed (simp add: source_stale_def within_deadline_def)

section \<open>Properties\<close>

text \<open>
  a source is reported ready exactly when its runtime and reader are active and connected, the
  key holds a stream (or has not been inspected), no read has been rejected since the last accepted
  sample, the last sample was valid and belongs to the reader's current epoch, and the freshness
  deadline (if one is configured) has not passed since that sample was received. The state is
  then \<open>ready\<close> and in no other case, and a stale source is valid, not fresh and not ready.
\<close>

theorem source_ready_exactly:
  "(let status = fst (assessSource sample reader config name route role active probeMs now) in
    (ss_ready status \<longleftrightarrow> active \<and> reader_healthy sample reader \<and> sa_valid sample
       \<and> sa_epoch sample = rr_epoch reader \<and> within_deadline config sample now)
    \<and> (ss_state status = ''ready'' \<longleftrightarrow> ss_ready status)
    \<and> (ss_stale status \<longleftrightarrow> sa_valid sample \<and> sa_epoch sample = rr_epoch reader
         \<and> \<not> within_deadline config sample now)
    \<and> (ss_fresh status \<longleftrightarrow> ss_valid status \<and> \<not> ss_stale status))"
  unfolding assessSource_def Let_def by (simp add: source_state_ready source_stale_iff) blast

end
