(* ===== verification/Yaml_Reader.thy ===== *)
theory Yaml_Reader
  imports Secrets Endpoints Float_Arith
begin

text \<open>
  The helpers of \<open>src/config.cpp\<close> on YAML nodes: required keys, the kinds of nodes, unknown keys,
  checked numbers, and the validation of the whole document before it is read. The YAML library is
  a parameter, the record \<open>yaml\<close>: the nodes of one document with the operations the source calls.
  Nodes are compared by identity, so aliases and recursive documents are covered. The validation
  is proved equal to a reference that knows neither ancestors nor counters.
\<close>

section \<open>The document\<close>

datatype ykind = KUndefined | KNull | KScalar | KSequence | KMap

text \<open>
  \<open>y_get\<close> is \<open>operator[]\<close> with a text on a mapping, \<open>None\<close> for the node that is not defined.
  \<open>y_string\<close> to \<open>y_f64\<close> are the conversions \<open>as<T>\<close>, which throw with a text.
\<close>

record 'n yaml =
  y_kind :: "'n \<Rightarrow> ykind"
  y_text :: "'n \<Rightarrow> string"
  y_items :: "'n \<Rightarrow> 'n list"
  y_entries :: "'n \<Rightarrow> ('n \<times> 'n) list"
  y_get :: "'n \<Rightarrow> string \<Rightarrow> 'n option"
  y_string :: "'n \<Rightarrow> string + string"
  y_bool :: "'n \<Rightarrow> string + bool"
  y_i16 :: "'n \<Rightarrow> string + u16"
  y_u16 :: "'n \<Rightarrow> string + u16"
  y_i32 :: "'n \<Rightarrow> string + u32"
  y_u32 :: "'n \<Rightarrow> string + u32"
  y_i64 :: "'n \<Rightarrow> string + u64"
  y_u64 :: "'n \<Rightarrow> string + u64"
  y_f32 :: "'n \<Rightarrow> string + fp"
  y_f64 :: "'n \<Rightarrow> string + fp"

text \<open>
  The exceptions of the reader: \<open>Fail\<close> is thrown by \<open>fail\<close> with its path and message,
  \<open>Raised\<close> is an exception of the YAML library that is not caught, the others come from the
  secret reader and the endpoint registry.
\<close>

datatype cfg_error =
    Fail string string
  | Raised string
  | BadSecret secret_error
  | BadEndpoint endpoint_error

abbreviation fail :: "string \<Rightarrow> string \<Rightarrow> cfg_error + 'a" where
  "fail path msg \<equiv> Inl (Fail path msg)"

definition rethrow :: "('e \<Rightarrow> 'f) \<Rightarrow> 'e + 'a \<Rightarrow> 'f + 'a" where
  "rethrow h r = (case r of Inl e \<Rightarrow> Inl (h e) | Inr v \<Rightarrow> Inr v)"

section \<open>Helpers\<close>

definition to_lower :: "char \<Rightarrow> char" where
  "to_lower c = (if 65 \<le> (of_char c :: nat) \<and> (of_char c :: nat) \<le> 90 then char_of (of_char c + 32 :: nat) else c)"

definition lowerCopy :: "string \<Rightarrow> string" where
  "lowerCopy = map to_lower"

definition quoted :: "string \<Rightarrow> string" where
  "quoted s = [CHR 0x27] @ s @ [CHR 0x27]"

definition index_path :: "string \<Rightarrow> nat \<Rightarrow> string" where
  "index_path path i = path @ ''['' @ to_string i @ '']''"

definition requireNode :: "'n yaml \<Rightarrow> 'n \<Rightarrow> string \<Rightarrow> string \<Rightarrow> cfg_error + 'n" where
  "requireNode Y parent key path =
     of_opt (Fail path (''missing required key '' @ quoted key)) (y_get Y parent key)"

definition requireMap :: "'n yaml \<Rightarrow> 'n \<Rightarrow> string \<Rightarrow> cfg_error + 'n" where
  "requireMap Y node path =
     (if y_kind Y node \<noteq> KMap then fail path ''expected mapping'' else Inr node)"

definition requireSequence :: "'n yaml \<Rightarrow> 'n \<Rightarrow> string \<Rightarrow> cfg_error + 'n" where
  "requireSequence Y node path =
     (if y_kind Y node \<noteq> KSequence then fail path ''expected sequence'' else Inr node)"

definition rejectUnknownKeys :: "'n yaml \<Rightarrow> 'n \<Rightarrow> string \<Rightarrow> string list \<Rightarrow> cfg_error + unit" where
  "rejectUnknownKeys Y node path allowed =
     ebind (requireMap Y node path) (\<lambda>m.
     efold (\<lambda>_ (k, _).
       ebind (rethrow Raised (y_string Y k)) (\<lambda>key.
       if key \<notin> set allowed then fail (path @ ''.'' @ key) ''unknown key'' else Inr ()))
       () (y_entries Y m))"

function validateTree :: "'n yaml \<Rightarrow> 'n \<Rightarrow> string \<Rightarrow> 'n list \<Rightarrow> nat \<Rightarrow> cfg_error + nat" where
  "validateTree Y node path ancestors visited =
     (if 1000000 < visited + 1 \<or> 64 \<le> length ancestors
      then fail path ''configuration structure exceeds validation bounds''
      else if node \<in> set ancestors then fail path ''recursive YAML aliases are unsupported''
      else case y_kind Y node of
        KMap \<Rightarrow>
          ebind (efold (\<lambda>(keys, v) (k, child).
              if y_kind Y k \<noteq> KScalar then fail path ''mapping keys must be scalar strings''
              else ebind (rethrow Raised (y_string Y k)) (\<lambda>key.
              if key \<in> set keys then fail (path @ ''.'' @ key) ''duplicate key''
              else ebind (validateTree Y child (path @ ''.'' @ key) (node # ancestors) v) (\<lambda>v'.
                Inr (key # keys, v'))))
            ([], visited + 1) (y_entries Y node)) (\<lambda>(keys, v). Inr v)
      | KSequence \<Rightarrow>
          efold (\<lambda>v (i, child). validateTree Y child (index_path path i) (node # ancestors) v)
            (visited + 1) (enumerate 0 (y_items Y node))
      | _ \<Rightarrow> Inr (visited + 1))"
  by pat_completeness auto
termination
  by (relation "measure (\<lambda>(Y, node, path, ancestors, visited). 64 - length ancestors)") auto

declare validateTree.simps [simp del]

text \<open>
  \<open>parseNumeric\<close> by the kind of its type: any conversion, an unsigned one, a floating-point one,
  and the two byte types that are read through wider ones.
\<close>

definition parse_as :: "('n \<Rightarrow> string + 'a) \<Rightarrow> 'n \<Rightarrow> string \<Rightarrow> cfg_error + 'a" where
  "parse_as conv node path = rethrow (Fail path) (conv node)"

definition starts_negative :: "string \<Rightarrow> bool" where
  "starts_negative text =
     (case dropWhile (\<lambda>c. c \<in> {CHR 0x20, CHR 0x09, CHR 0x0D, CHR 0x0A}) text of
        [] \<Rightarrow> False | c # _ \<Rightarrow> c = CHR 0x2D)"

definition parse_unsigned :: "'n yaml \<Rightarrow> ('n \<Rightarrow> string + 'a) \<Rightarrow> 'n \<Rightarrow> string \<Rightarrow> cfg_error + 'a" where
  "parse_unsigned Y conv node path =
     (if starts_negative (y_text Y node) then fail path ''negative unsigned value''
      else parse_as conv node path)"

definition parse_float :: "('n \<Rightarrow> string + fp) \<Rightarrow> 'n \<Rightarrow> string \<Rightarrow> cfg_error + fp" where
  "parse_float conv node path =
     ebind (parse_as conv node path) (\<lambda>v. if \<not> fp_finite v then fail path ''must be finite'' else Inr v)"

definition parse_i8 :: "'n yaml \<Rightarrow> 'n \<Rightarrow> string \<Rightarrow> cfg_error + u8" where
  "parse_i8 Y node path =
     ebind (parse_as (y_i32 Y) node path) (\<lambda>v.
     if sint v < -128 \<or> sint v > 127 then fail path ''outside int8 range'' else Inr (ucast v))"

definition parse_u8 :: "'n yaml \<Rightarrow> 'n \<Rightarrow> string \<Rightarrow> cfg_error + u8" where
  "parse_u8 Y node path =
     ebind (parse_unsigned Y (y_u32 Y) node path) (\<lambda>v.
     if v > 255 then fail path ''outside uint8 range'' else Inr (ucast v))"

abbreviation parse_int :: "'n yaml \<Rightarrow> 'n \<Rightarrow> string \<Rightarrow> cfg_error + u32" where
  "parse_int Y \<equiv> parse_as (y_i32 Y)"

abbreviation parse_u16 :: "'n yaml \<Rightarrow> 'n \<Rightarrow> string \<Rightarrow> cfg_error + u16" where
  "parse_u16 Y \<equiv> parse_unsigned Y (y_u16 Y)"

abbreviation parse_u32 :: "'n yaml \<Rightarrow> 'n \<Rightarrow> string \<Rightarrow> cfg_error + u32" where
  "parse_u32 Y \<equiv> parse_unsigned Y (y_u32 Y)"

abbreviation parse_u64 :: "'n yaml \<Rightarrow> 'n \<Rightarrow> string \<Rightarrow> cfg_error + u64" where
  "parse_u64 Y \<equiv> parse_unsigned Y (y_u64 Y)"

abbreviation parse_double :: "'n yaml \<Rightarrow> 'n \<Rightarrow> string \<Rightarrow> cfg_error + fp" where
  "parse_double Y \<equiv> parse_float (y_f64 Y)"

definition parseString :: "'n yaml \<Rightarrow> 'n \<Rightarrow> string \<Rightarrow> cfg_error + string" where
  "parseString Y = parse_as (y_string Y)"

text \<open>An optional key: its value when the node is defined, the default of the member otherwise.\<close>

definition optional :: "'n option \<Rightarrow> ('n \<Rightarrow> 'e + 'a) \<Rightarrow> 'a \<Rightarrow> 'e + 'a" where
  "optional node parse initial = (case node of None \<Rightarrow> Inr initial | Some n \<Rightarrow> parse n)"

section \<open>The reference for the validation\<close>

fun children :: "'n yaml \<Rightarrow> 'n \<Rightarrow> 'n list" where
  "children Y n = (case y_kind Y n of KMap \<Rightarrow> map snd (y_entries Y n) | KSequence \<Rightarrow> y_items Y n | _ \<Rightarrow> [])"

declare children.simps [simp del]

text \<open>The keys of a mapping: scalars that convert to pairwise different texts.\<close>

definition key_texts :: "'n yaml \<Rightarrow> 'n \<Rightarrow> string list option" where
  "key_texts Y n = (if list_all (\<lambda>(k, _). y_kind Y k = KScalar) (y_entries Y n)
     then case emap (\<lambda>(k, _). y_string Y k) (y_entries Y n) of Inl _ \<Rightarrow> None | Inr ks \<Rightarrow> Some ks
     else None)"

definition keys_ok :: "'n yaml \<Rightarrow> 'n \<Rightarrow> bool" where
  "keys_ok Y n = (y_kind Y n = KMap \<longrightarrow> (case key_texts Y n of None \<Rightarrow> False | Some ks \<Rightarrow> distinct ks))"

text \<open>The number of nodes of the tree a node unfolds to, if it has at most the given depth.\<close>

fun tree_size :: "nat \<Rightarrow> 'n yaml \<Rightarrow> 'n \<Rightarrow> nat option" where
  "tree_size 0 Y n = None"
| "tree_size (Suc d) Y n =
     (if \<not> keys_ok Y n then None
      else if list_all (\<lambda>c. tree_size d Y c \<noteq> None) (children Y n)
      then Some (Suc (sum_list (map (\<lambda>c. the (tree_size d Y c)) (children Y n))))
      else None)"

section \<open>Lemmas on the helpers\<close>

lemma rethrow_eq_Inr [res_simps]: "rethrow h r = Inr v \<longleftrightarrow> r = Inr v"
  by (auto simp: rethrow_def split: sum.splits)

lemma rethrow_simps [simp]: "rethrow h (Inr v) = Inr v" "rethrow h (Inl e) = Inl (h e)"
  by (simp_all add: rethrow_def)

lemma requireMap_eq_Inr [res_simps]: "requireMap Y n path = Inr m \<longleftrightarrow> y_kind Y n = KMap \<and> m = n"
  by (auto simp: requireMap_def)

lemma requireSequence_eq_Inr [res_simps]:
  "requireSequence Y n path = Inr m \<longleftrightarrow> y_kind Y n = KSequence \<and> m = n"
  by (auto simp: requireSequence_def)

lemma requireNode_eq_Inr [res_simps]: "requireNode Y parent key path = Inr n \<longleftrightarrow> y_get Y parent key = Some n"
  by (simp add: requireNode_def res_simps)

lemma if_fail_eq_Inr [res_simps]:
  "(if b then fail path msg else r) = Inr v \<longleftrightarrow> \<not> b \<and> r = Inr v"
  by simp

text \<open>A member read from an optional key has a property its default has and its reader ensures.\<close>

lemma optional_rule:
  assumes "optional node parse initial = Inr v" "P initial"
    and "\<And>n v. node = Some n \<Longrightarrow> parse n = Inr v \<Longrightarrow> P v"
  shows "P v"
  using assms by (cases node) (auto simp: optional_def)

lemma optional_simps [simp]: "optional None parse initial = Inr initial" "optional (Some n) parse initial = parse n"
  by (simp_all add: optional_def)

lemma parse_float_finite: "parse_float conv n path = Inr v \<Longrightarrow> fp_finite v"
  by (auto simp: parse_float_def res_simps)

section \<open>Lemmas on the validation\<close>

lemma efold_sums:
  assumes "\<And>v x. x \<in> set xs \<Longrightarrow> v + sz x \<le> (B::nat) \<Longrightarrow> f v x = Inr (v + sz x)"
    and "v + sum_list (map sz xs) \<le> B"
  shows "efold f v xs = Inr (v + sum_list (map sz xs))"
  using assms by (induction xs arbitrary: v) (auto simp: add.assoc)

lemma efold_adds:
  assumes "efold f v xs = Inr v'"
    and "\<And>v x v'. x \<in> set xs \<Longrightarrow> f v x = Inr v' \<Longrightarrow> sz x \<noteq> None \<and> v' = v + the (sz x)"
  shows "list_all (\<lambda>x. sz x \<noteq> None) xs \<and> v' = v + (sum_list (map (\<lambda>x. the (sz x)) xs) :: nat)"
  using assms
proof (induction xs arbitrary: v)
  case (Cons x xs)
  from Cons.prems(1) obtain u where u: "f v x = Inr u" "efold f u xs = Inr v'" by (auto simp: res_simps)
  have "list_all (\<lambda>x. sz x \<noteq> None) xs \<and> v' = u + sum_list (map (\<lambda>x. the (sz x)) xs)"
    using Cons.IH [OF u(2)] Cons.prems(2) by auto
  with Cons.prems(2) [OF _ u(1)] show ?case by auto
qed simp

text \<open>The step of the loop over a mapping, with the validation of a child as its argument.\<close>

definition map_step :: "'n yaml \<Rightarrow> string \<Rightarrow> ('n \<Rightarrow> string \<Rightarrow> nat \<Rightarrow> cfg_error + nat)
    \<Rightarrow> string list \<times> nat \<Rightarrow> 'n \<times> 'n \<Rightarrow> cfg_error + string list \<times> nat" where
  "map_step Y path child = (\<lambda>(keys, v) (k, c).
     if y_kind Y k \<noteq> KScalar then fail path ''mapping keys must be scalar strings''
     else ebind (rethrow Raised (y_string Y k)) (\<lambda>key.
     if key \<in> set keys then fail (path @ ''.'' @ key) ''duplicate key''
     else ebind (child c (path @ ''.'' @ key) v) (\<lambda>v'. Inr (key # keys, v'))))"

lemma map_step_eq_Inr:
  "map_step Y path child (keys, v) (k, c) = Inr (keys', v') \<longleftrightarrow>
     (\<exists>key. y_kind Y k = KScalar \<and> y_string Y k = Inr key \<and> key \<notin> set keys
        \<and> child c (path @ ''.'' @ key) v = Inr v' \<and> keys' = key # keys)"
  by (auto simp: map_step_def res_simps)

definition texts_ok :: "'n yaml \<Rightarrow> ('n \<times> 'n) list \<Rightarrow> string list \<Rightarrow> bool" where
  "texts_ok Y es ks = (list_all (\<lambda>(k, _). y_kind Y k = KScalar) es \<and> emap (\<lambda>(k, _). y_string Y k) es = Inr ks)"

lemma texts_ok_simps:
  "texts_ok Y [] ks \<longleftrightarrow> ks = []"
  "texts_ok Y ((k, c) # es) ks \<longleftrightarrow>
     (\<exists>key rest. y_kind Y k = KScalar \<and> y_string Y k = Inr key \<and> texts_ok Y es rest \<and> ks = key # rest)"
  by (auto simp: texts_ok_def res_simps)

lemma keys_ok_iff: "keys_ok Y n \<longleftrightarrow> y_kind Y n \<noteq> KMap \<or> (\<exists>ks. texts_ok Y (y_entries Y n) ks \<and> distinct ks)"
  by (auto simp: keys_ok_def key_texts_def texts_ok_def split: sum.splits)

lemma map_fold_success:
  assumes "texts_ok Y es ks" "distinct ks" "set ks \<inter> set keys = {}"
    and "\<And>c p v. c \<in> snd ` set es \<Longrightarrow> v + sz c \<le> (B::nat) \<Longrightarrow> child c p v = Inr (v + sz c)"
    and "v + sum_list (map (sz \<circ> snd) es) \<le> B"
  shows "efold (map_step Y path child) (keys, v) es = Inr (rev ks @ keys, v + sum_list (map (sz \<circ> snd) es))"
  using assms
proof (induction es arbitrary: ks keys v)
  case (Cons e es)
  obtain k c where e: "e = (k, c)" by fastforce
  obtain key rest where k: "y_kind Y k = KScalar" "y_string Y k = Inr key" "texts_ok Y es rest" "ks = key # rest"
    using Cons.prems(1) by (auto simp: e texts_ok_simps)
  have "child c (path @ ''.'' @ key) v = Inr (v + sz c)"
    using Cons.prems(4,5) by (auto simp: e)
  then have step: "map_step Y path child (keys, v) e = Inr (key # keys, v + sz c)"
    using k Cons.prems(3) by (simp add: e map_step_eq_Inr)
  have "efold (map_step Y path child) (key # keys, v + sz c) es
      = Inr (rev rest @ key # keys, v + sz c + sum_list (map (sz \<circ> snd) es))"
    using Cons.prems k by (intro Cons.IH) (auto simp: e)
  then show ?case using step by (simp add: k(4)) (simp add: e add.assoc comp_def)
qed (simp add: texts_ok_simps)

lemma map_fold_inv:
  assumes "efold (map_step Y path child) (keys, v) es = Inr (keys', v')" "distinct keys"
    and "\<And>c p v v'. c \<in> snd ` set es \<Longrightarrow> child c p v = Inr v' \<Longrightarrow> sz c \<noteq> None \<and> v' = v + the (sz c)"
  shows "(\<exists>ks. texts_ok Y es ks \<and> distinct (rev ks @ keys)) \<and> list_all (\<lambda>e. sz (snd e) \<noteq> None) es
    \<and> v' = v + (sum_list (map (\<lambda>e. the (sz (snd e))) es) :: nat)"
  using assms
proof (induction es arbitrary: keys v)
  case (Cons e es)
  obtain k c where e: "e = (k, c)" by fastforce
  from Cons.prems(1) obtain key u where s: "y_kind Y k = KScalar" "y_string Y k = Inr key" "key \<notin> set keys"
      "child c (path @ ''.'' @ key) v = Inr u"
      "efold (map_step Y path child) (key # keys, u) es = Inr (keys', v')"
    by (auto simp: e res_simps map_step_eq_Inr)
  have "(\<exists>ks. texts_ok Y es ks \<and> distinct (rev ks @ key # keys)) \<and> list_all (\<lambda>e. sz (snd e) \<noteq> None) es
      \<and> v' = u + sum_list (map (\<lambda>e. the (sz (snd e))) es)"
    using Cons.IH [OF s(5)] s(3) Cons.prems(2,3) by auto
  moreover have "sz c \<noteq> None \<and> u = v + the (sz c)" using Cons.prems(3) [OF _ s(4)] by (simp add: e)
  ultimately obtain ks where ks: "texts_ok Y es ks" "distinct (rev ks @ key # keys)"
      "list_all (\<lambda>e. sz (snd e) \<noteq> None) es" "v' = u + sum_list (map (\<lambda>e. the (sz (snd e))) es)"
      "sz c \<noteq> None" "u = v + the (sz c)" by blast
  have "texts_ok Y (e # es) (key # ks) \<and> distinct (rev (key # ks) @ keys)"
    using s(1,2) ks(1,2) by (auto simp: e texts_ok_simps)
  moreover have "list_all (\<lambda>e. sz (snd e) \<noteq> None) (e # es)"
      "v' = v + sum_list (map (\<lambda>e. the (sz (snd e))) (e # es))" using ks by (simp_all add: e)
  ultimately show ?case by blast
qed (auto simp: texts_ok_simps)

lemma validateTree_unfold:
  "validateTree Y node path ancestors visited =
     (if 1000000 < visited + 1 \<or> 64 \<le> length ancestors
      then fail path ''configuration structure exceeds validation bounds''
      else if node \<in> set ancestors then fail path ''recursive YAML aliases are unsupported''
      else case y_kind Y node of
        KMap \<Rightarrow> ebind (efold (map_step Y path (\<lambda>c p. validateTree Y c p (node # ancestors)))
            ([], visited + 1) (y_entries Y node)) (\<lambda>(keys, v). Inr v)
      | KSequence \<Rightarrow> efold (\<lambda>v (i, child). validateTree Y child (index_path path i) (node # ancestors) v)
            (visited + 1) (enumerate 0 (y_items Y node))
      | _ \<Rightarrow> Inr (visited + 1))"
  unfolding map_step_def by (rule validateTree.simps)

lemma validateTree_inv:
  assumes "validateTree Y n path ancestors v = Inr v'" "length ancestors + d = 64"
  shows "tree_size d Y n \<noteq> None \<and> v' = v + the (tree_size d Y n)"
  using assms
proof (induction d arbitrary: n path ancestors v v')
  case 0
  then show ?case by (simp add: validateTree_unfold)
next
  case (Suc d)
  note run = Suc.prems(1)
  have child: "tree_size d Y c \<noteq> None \<and> u' = u + the (tree_size d Y c)"
    if "validateTree Y c p (n # ancestors) u = Inr u'" for c p u u'
    using Suc.IH [OF that] Suc.prems(2) by simp
  have bounds: "\<not> (1000000 < v + 1 \<or> 64 \<le> length ancestors)" "n \<notin> set ancestors"
    using run by (auto simp: validateTree_unfold split: if_splits)
  show ?case
  proof (cases "y_kind Y n")
    case KMap
    then obtain keys where f: "efold (map_step Y path (\<lambda>c p. validateTree Y c p (n # ancestors)))
        ([], v + 1) (y_entries Y n) = Inr (keys, v')"
      using run bounds by (subst (asm) validateTree_unfold) (auto simp: res_simps)
    have "(\<exists>ks. texts_ok Y (y_entries Y n) ks \<and> distinct (rev ks @ []))
        \<and> list_all (\<lambda>e. tree_size d Y (snd e) \<noteq> None) (y_entries Y n)
        \<and> v' = v + 1 + sum_list (map (\<lambda>e. the (tree_size d Y (snd e))) (y_entries Y n))"
      by (rule map_fold_inv [OF f]) (use child in auto)
    then show ?thesis
      using KMap by (auto simp: keys_ok_iff children.simps list_all_iff comp_def)
  next
    case KSequence
    then have f: "efold (\<lambda>u (i, c). validateTree Y c (index_path path i) (n # ancestors) u)
        (v + 1) (enumerate 0 (y_items Y n)) = Inr v'"
      using run bounds by (subst (asm) validateTree_unfold) auto
    have "list_all (\<lambda>x. tree_size d Y (snd x) \<noteq> None) (enumerate 0 (y_items Y n))
        \<and> v' = v + 1 + sum_list (map (\<lambda>x. the (tree_size d Y (snd x))) (enumerate 0 (y_items Y n)))"
      by (rule efold_adds [OF f]) (use child in auto)
    then have "list_all (\<lambda>c. tree_size d Y c \<noteq> None) (map snd (enumerate 0 (y_items Y n)))
        \<and> v' = v + 1 + sum_list (map (\<lambda>c. the (tree_size d Y c)) (map snd (enumerate 0 (y_items Y n))))"
      by (simp add: list_all_iff comp_def del: map_snd_enumerate)
    then show ?thesis using KSequence by (simp add: keys_ok_def children.simps)
  qed (use run bounds in \<open>auto simp: validateTree_unfold keys_ok_def children.simps\<close>)
qed

lemma validateTree_bound:
  assumes "validateTree Y n path ancestors v = Inr v'" "length ancestors + d = 64"
  shows "v' \<le> 1000000"
  using assms
proof (induction d arbitrary: n path ancestors v v')
  case 0
  then show ?case by (simp add: validateTree_unfold)
next
  case (Suc d)
  have child: "u' \<le> 1000000" if "validateTree Y c p (n # ancestors) u = Inr u'" for c p u u'
    using Suc.IH [OF that] Suc.prems(2) by simp
  have step: "snd t \<le> 1000000"
    if "map_step Y path (\<lambda>c p. validateTree Y c p (n # ancestors)) s e = Inr t" for s e t
    using that child by (cases s; cases e; cases t) (auto simp: map_step_eq_Inr)
  have bounds: "\<not> (1000000 < v + 1 \<or> 64 \<le> length ancestors)" "n \<notin> set ancestors"
    using Suc.prems(1) by (auto simp: validateTree_unfold split: if_splits)
  show ?case
  proof (cases "y_kind Y n")
    case KMap
    then obtain keys where f: "efold (map_step Y path (\<lambda>c p. validateTree Y c p (n # ancestors)))
        ([], v + 1) (y_entries Y n) = Inr (keys, v')"
      using Suc.prems(1) bounds by (subst (asm) validateTree_unfold) (auto simp: res_simps)
    have "snd (keys, v') \<le> 1000000"
      by (rule efold_invariant [OF f]) (use bounds step in auto)
    then show ?thesis by simp
  next
    case KSequence
    then have f: "efold (\<lambda>u (i, c). validateTree Y c (index_path path i) (n # ancestors) u)
        (v + 1) (enumerate 0 (y_items Y n)) = Inr v'"
      using Suc.prems(1) bounds by (subst (asm) validateTree_unfold) auto
    show ?thesis
      by (rule efold_invariant [OF f]) (use bounds child in auto)
  qed (use Suc.prems(1) bounds in \<open>auto simp: validateTree_unfold\<close>)
qed

text \<open>Unfolding deeper does not change the size, and a child is smaller than its parent.\<close>

lemma tree_size_mono: "tree_size d Y n = Some s \<Longrightarrow> tree_size (d + k) Y n = Some s"
proof (induction d arbitrary: n s)
  case (Suc d)
  have "tree_size (d + k) Y c = tree_size d Y c" if "tree_size d Y c \<noteq> None" for c
    using Suc.IH that by auto
  with Suc.prems show ?case
    by (auto simp: list_all_iff split: if_splits intro!: arg_cong [where f = sum_list] map_cong)
qed simp

lemma tree_size_child:
  assumes "tree_size (Suc d) Y n = Some s" "c \<in> set (children Y n)"
  shows "\<exists>t < s. tree_size d Y c = Some t"
proof -
  obtain t where t: "tree_size d Y c = Some t"
    using assms by (auto simp: list_all_iff split: if_splits)
  have "the (tree_size d Y c) \<le> sum_list (map (\<lambda>c. the (tree_size d Y c)) (children Y n))"
    using assms(2) by (intro member_le_sum_list) auto
  with t assms(1) show ?thesis by (auto split: if_splits)
qed

lemma validateTree_success:
  assumes "tree_size d Y n = Some s" "length ancestors + d = 64" "v + s \<le> 1000000"
    and "\<forall>a \<in> set ancestors. \<exists>t > s. tree_size 64 Y a = Some t"
  shows "validateTree Y n path ancestors v = Inr (v + s)"
  using assms
proof (induction d arbitrary: n s path ancestors v)
  case (Suc d)
  let ?sz = "\<lambda>c. the (tree_size d Y c)"
  have s: "keys_ok Y n" "list_all (\<lambda>c. tree_size d Y c \<noteq> None) (children Y n)"
      "s = Suc (sum_list (map ?sz (children Y n)))"
    using Suc.prems(1) by (auto split: if_splits)
  have full: "tree_size 64 Y n = Some s"
    using tree_size_mono [OF Suc.prems(1), of "length ancestors"] Suc.prems(2)
    by (simp add: add.commute del: tree_size.simps)
  have fresh: "n \<notin> set ancestors" using Suc.prems(4) full by auto
  have child: "validateTree Y c p (n # ancestors) u = Inr (u + ?sz c)"
    if c: "c \<in> set (children Y n)" and u: "u + ?sz c \<le> 1000000" for c p u
  proof -
    obtain t where t: "t < s" "tree_size d Y c = Some t" using tree_size_child [OF Suc.prems(1) c] by blast
    have "\<forall>a \<in> set (n # ancestors). \<exists>t' > t. tree_size 64 Y a = Some t'"
      using Suc.prems(4) full t(1) by (auto intro: less_trans)
    with Suc.IH [OF t(2), of "n # ancestors" u p] t u Suc.prems(2) show ?thesis by simp
  qed
  have ok: "\<not> (1000000 < v + 1 \<or> 64 \<le> length ancestors)" using Suc.prems(2,3) s(3) by auto
  show ?case
  proof (cases "y_kind Y n")
    case KMap
    then obtain ks where ks: "texts_ok Y (y_entries Y n) ks" "distinct ks" using s(1) by (auto simp: keys_ok_iff)
    have kids: "map snd (y_entries Y n) = children Y n" using KMap by (simp add: children.simps)
    then have sum: "sum_list (map (?sz \<circ> snd) (y_entries Y n)) = sum_list (map ?sz (children Y n))"
      by (simp flip: map_map)
    have "efold (map_step Y path (\<lambda>c p. validateTree Y c p (n # ancestors))) ([], v + 1) (y_entries Y n)
        = Inr (rev ks @ [], v + 1 + sum_list (map (?sz \<circ> snd) (y_entries Y n)))"
    proof (rule map_fold_success [OF ks, where B = 1000000])
      show "validateTree Y c p (n # ancestors) u = Inr (u + ?sz c)"
        if "c \<in> snd ` set (y_entries Y n)" "u + ?sz c \<le> 1000000" for c p u
        using child [OF _ that(2)] that(1) by (simp flip: kids)
      show "v + 1 + sum_list (map (?sz \<circ> snd) (y_entries Y n)) \<le> 1000000"
        unfolding sum using Suc.prems(3) s(3) by simp
    qed simp
    then show ?thesis unfolding sum using KMap ok fresh s(3) by (subst validateTree_unfold) simp
  next
    case KSequence
    have kids: "map snd (enumerate 0 (y_items Y n)) = children Y n" using KSequence by (simp add: children.simps)
    then have sum: "sum_list (map (?sz \<circ> snd) (enumerate 0 (y_items Y n))) = sum_list (map ?sz (children Y n))"
      by (simp flip: map_map)
    have "efold (\<lambda>u (i, c). validateTree Y c (index_path path i) (n # ancestors) u) (v + 1) (enumerate 0 (y_items Y n))
        = Inr (v + 1 + sum_list (map (?sz \<circ> snd) (enumerate 0 (y_items Y n))))"
    proof (rule efold_sums [where B = 1000000])
      fix u x assume x: "x \<in> set (enumerate 0 (y_items Y n))" and u: "u + (?sz \<circ> snd) x \<le> 1000000"
      have "snd x \<in> set (children Y n)" using x unfolding kids [symmetric] set_map by (rule imageI)
      with child [of "snd x" u] u
      show "(case x of (i, c) \<Rightarrow> validateTree Y c (index_path path i) (n # ancestors) u) = Inr (u + (?sz \<circ> snd) x)"
        by (cases x) simp
    next
      show "v + 1 + sum_list (map (?sz \<circ> snd) (enumerate 0 (y_items Y n))) \<le> 1000000"
        unfolding sum using Suc.prems(3) s(3) by simp
    qed
    then show ?thesis unfolding sum using KSequence ok fresh s(3) by (subst validateTree_unfold) simp
  qed (use ok fresh s(3) in \<open>auto simp: validateTree_unfold children.simps\<close>)
qed simp

section \<open>Properties\<close>

text \<open>
  C20: the validation accepts a document exactly when it unfolds to a tree of depth at most 64 with
  at most a million nodes in which every mapping has pairwise different scalar keys, and then it
  has counted the nodes of that tree. In particular no document with a recursive alias is accepted,
  and the check for ancestors never refuses one that is not recursive.
\<close>

theorem validateTree_exact:
  "validateTree Y doc path [] 0 = Inr v \<longleftrightarrow> tree_size 64 Y doc = Some v \<and> v \<le> 1000000"
proof
  assume run: "validateTree Y doc path [] 0 = Inr v"
  show "tree_size 64 Y doc = Some v \<and> v \<le> 1000000"
    using validateTree_inv [OF run, of 64] validateTree_bound [OF run, of 64] by auto
next
  assume "tree_size 64 Y doc = Some v \<and> v \<le> 1000000"
  then show "validateTree Y doc path [] 0 = Inr v"
    using validateTree_success [of 64 Y doc v "[]" 0 path] by simp
qed

end
