(* ===== verification/Config_Sections.thy ===== *)
theory Config_Sections
  imports Yaml_Reader
begin

text \<open>
  The sections of the configuration file, \<open>src/config.cpp\<close>: one reader for each of the access
  policy, Redis backends, ChannelFinder, PVs with their routes, metadata, alarms, transform and
  initial value, RPC services, discovery and operation limits. Each reader takes the document, the
  node and the path it reports errors at. The lemmas state for each section what a value that was
  read satisfies.
\<close>

section \<open>File names\<close>

text \<open>
  The operations of \<open>std::filesystem::path\<close> that are used, on POSIX names. \<open>lexically_normal\<close> is
  only applied to absolute names.
\<close>

definition is_absolute :: "string \<Rightarrow> bool" where
  "is_absolute p = (case p of [] \<Rightarrow> False | c # _ \<Rightarrow> c = CHR ''/'')"

definition path_join :: "string \<Rightarrow> string \<Rightarrow> string" where
  "path_join a b = (if is_absolute b then b else if a = [] \<or> last a = CHR ''/'' then a @ b else a @ ''/'' @ b)"

fun split_on :: "char \<Rightarrow> string \<Rightarrow> string list" where
  "split_on sep [] = [[]]"
| "split_on sep (c # s) =
     (if c = sep then [] # split_on sep s
      else case split_on sep s of [] \<Rightarrow> [[c]] | w # ws \<Rightarrow> (c # w) # ws)"

definition normal_step :: "string \<Rightarrow> string list \<Rightarrow> string list" where
  "normal_step name stack =
     (if name = ''.'' then stack else if name = ''..'' then drop 1 stack else name # stack)"

definition lexically_normal :: "string \<Rightarrow> string" where
  "lexically_normal p =
     (let parts = split_on (CHR ''/'') p;
          stack = fold normal_step (filter (\<lambda>w. w \<noteq> []) parts) []
      in ''/'' @ join ''/'' (rev stack)
           @ (if last parts \<in> {[], ''.'', ''..''} \<and> stack \<noteq> [] then ''/'' else []))"

text \<open>What the reader asks of the host: its files, its working directory and \<open>inet_pton\<close> for IPv4.\<close>

record host =
  h_files :: files
  h_cwd :: string
  h_inet4 :: "string \<Rightarrow> bool"

section \<open>Access control\<close>

definition parseAccessAssignment :: "'n yaml \<Rightarrow> 'n \<Rightarrow> string \<Rightarrow> cfg_error + AccessAssignment" where
  "parseAccessAssignment Y node path =
     ebind (rejectUnknownKeys Y node path [''asg'', ''asl'']) (\<lambda>_.
     ebind (optional (y_get Y node ''asg'') (\<lambda>n. parseString Y n (path @ ''.asg'')) (aa_asg default_assignment)) (\<lambda>asg.
     ebind (optional (y_get Y node ''asl'') (\<lambda>n. ebind (parse_int Y n (path @ ''.asl'')) (\<lambda>v. Inr (sint v)))
       (aa_asl default_assignment)) (\<lambda>asl.
     ebind (ensure (asg \<noteq> []) (Fail (path @ ''.asg'') ''must not be empty'')) (\<lambda>_.
     ebind (ensure (asl = 0 \<or> asl = 1) (Fail (path @ ''.asl'') ''must be 0 or 1'')) (\<lambda>_.
     Inr \<lparr>aa_asg = asg, aa_asl = asl\<rparr>)))))"

text \<open>The entries of a mapping of texts, written into a map in the order of the file.\<close>

definition parse_texts :: "'n yaml \<Rightarrow> 'n \<Rightarrow> string \<Rightarrow> string \<Rightarrow> string \<Rightarrow> cfg_error + (string, string) omap" where
  "parse_texts Y node path keyName emptyMessage =
     efold (\<lambda>m (k, v).
       ebind (parseString Y k (path @ keyName)) (\<lambda>name.
       ebind (ensure (name \<noteq> []) (Fail path emptyMessage)) (\<lambda>_.
       ebind (parseString Y v (path @ ''.'' @ name)) (\<lambda>text.
       Inr (omap_assign name text m))))) [] (y_entries Y node)"

definition parse_watch :: "'n yaml \<Rightarrow> AccessWatchConfig \<Rightarrow> string \<Rightarrow> 'n \<Rightarrow> cfg_error + AccessWatchConfig" where
  "parse_watch Y initial path node =
     ebind (requireMap Y node (path @ ''.watch'')) (\<lambda>watch.
     ebind (rejectUnknownKeys Y watch (path @ ''.watch'') [''enabled'', ''interval_ms'', ''settle_ms'']) (\<lambda>_.
     ebind (optional (y_get Y watch ''enabled'') (\<lambda>n. rethrow Raised (y_bool Y n)) (aw_enabled initial)) (\<lambda>enabled.
     ebind (optional (y_get Y watch ''interval_ms'') (\<lambda>n. parse_u32 Y n (path @ ''.watch.interval_ms''))
       (aw_intervalMs initial)) (\<lambda>interval.
     ebind (optional (y_get Y watch ''settle_ms'') (\<lambda>n. parse_u32 Y n (path @ ''.watch.settle_ms''))
       (aw_settleMs initial)) (\<lambda>settle.
     ebind (ensure (\<not> (interval < 100 \<or> interval > 60000))
       (Fail (path @ ''.watch.interval_ms'') ''must be between 100 and 60000'')) (\<lambda>_.
     ebind (ensure (\<not> settle > 60000) (Fail (path @ ''.watch.settle_ms'') ''must not exceed 60000'')) (\<lambda>_.
     Inr \<lparr>aw_enabled = enabled, aw_intervalMs = interval, aw_settleMs = settle\<rparr>)))))))"

definition parse_defaults :: "'n yaml \<Rightarrow> AccessDefaultsConfig \<Rightarrow> string \<Rightarrow> 'n \<Rightarrow> cfg_error + AccessDefaultsConfig" where
  "parse_defaults Y initial path node =
     ebind (requireMap Y node (path @ ''.defaults'')) (\<lambda>defaults.
     ebind (rejectUnknownKeys Y defaults (path @ ''.defaults'') [''pv'', ''rpc'', ''admin_read'', ''admin_write'']) (\<lambda>_.
     ebind (optional (y_get Y defaults ''pv'') (\<lambda>n. parseAccessAssignment Y n (path @ ''.defaults.pv'')) (ad_pv initial)) (\<lambda>pv.
     ebind (optional (y_get Y defaults ''rpc'') (\<lambda>n. parseAccessAssignment Y n (path @ ''.defaults.rpc'')) (ad_rpc initial)) (\<lambda>rpc.
     ebind (optional (y_get Y defaults ''admin_read'')
       (\<lambda>n. parseAccessAssignment Y n (path @ ''.defaults.admin_read'')) (ad_adminRead initial)) (\<lambda>adminRead.
     ebind (optional (y_get Y defaults ''admin_write'')
       (\<lambda>n. parseAccessAssignment Y n (path @ ''.defaults.admin_write'')) (ad_adminWrite initial)) (\<lambda>adminWrite.
     Inr \<lparr>ad_pv = pv, ad_rpc = rpc, ad_adminRead = adminRead, ad_adminWrite = adminWrite\<rparr>))))))"

definition parseAccessConfig :: "host \<Rightarrow> 'n yaml \<Rightarrow> 'n option \<Rightarrow> string \<Rightarrow> string \<Rightarrow> cfg_error + AccessConfig" where
  "parseAccessConfig H Y maybe directory path =
     (case maybe of None \<Rightarrow> Inr default_access | Some node \<Rightarrow>
      ebind (rejectUnknownKeys Y node path [''enabled'', ''file'', ''macros'', ''watch'', ''defaults'']) (\<lambda>_.
      ebind (optional (y_get Y node ''enabled'') (\<lambda>n. rethrow Raised (y_bool Y n)) (ac_enabled default_access)) (\<lambda>enabled.
      ebind (optional (y_get Y node ''file'') (\<lambda>n. parseString Y n (path @ ''.file'')) (ac_file default_access)) (\<lambda>file.
      ebind (optional (y_get Y node ''macros'')
        (\<lambda>n. ebind (requireMap Y n (path @ ''.macros'')) (\<lambda>m.
           parse_texts Y m (path @ ''.macros'') ''.<name>'' ''macro name must not be empty''))
        (ac_macros default_access)) (\<lambda>macros.
      ebind (optional (y_get Y node ''watch'') (parse_watch Y (ac_watch default_access) path) (ac_watch default_access)) (\<lambda>watch.
      ebind (optional (y_get Y node ''defaults'') (parse_defaults Y (ac_defaults default_access) path)
        (ac_defaults default_access)) (\<lambda>defaults.
      if \<not> enabled then
        (if file \<noteq> [] \<or> macros \<noteq> [] \<or> y_get Y node ''watch'' \<noteq> None \<or> y_get Y node ''defaults'' \<noteq> None
         then fail path ''access settings require enabled: true''
         else Inr \<lparr>ac_enabled = enabled, ac_file = file, ac_macros = macros, ac_watch = watch, ac_defaults = defaults\<rparr>)
      else if file = [] then fail (path @ ''.file'') ''is required when access control is enabled''
      else (let policyPath = (if \<not> is_absolute file then path_join directory file else file) in
        Inr \<lparr>ac_enabled = enabled, ac_file = lexically_normal (path_join (h_cwd H) policyPath), ac_macros = macros,
          ac_watch = watch, ac_defaults = defaults\<rparr>))))))))"

section \<open>Names of types, shapes and display forms\<close>

definition parsePrimitiveType :: "'n yaml \<Rightarrow> 'n \<Rightarrow> string \<Rightarrow> cfg_error + PrimitiveType" where
  "parsePrimitiveType Y node path =
     ebind (parseString Y node path) (\<lambda>text. let type = lowerCopy text in
     if type = ''bool'' \<or> type = ''boolean'' then Inr Boolean
     else if type = ''int8'' then Inr Int8
     else if type = ''uint8'' then Inr UInt8
     else if type = ''int16'' then Inr Int16
     else if type = ''uint16'' then Inr UInt16
     else if type = ''int32'' then Inr Int32
     else if type = ''uint32'' then Inr UInt32
     else if type = ''int64'' then Inr Int64
     else if type = ''uint64'' then Inr UInt64
     else if type = ''float32'' \<or> type = ''float'' then Inr Float32
     else if type = ''float64'' \<or> type = ''double'' then Inr Float64
     else if type = ''string'' then Inr String
     else fail path (''unsupported primitive type '' @ quoted type))"

definition parseShape :: "'n yaml \<Rightarrow> 'n \<Rightarrow> string \<Rightarrow> cfg_error + Shape" where
  "parseShape Y node path =
     ebind (parseString Y node path) (\<lambda>text. let shape = lowerCopy text in
     if shape = ''scalar'' then Inr Scalar
     else if shape = ''array'' then Inr Array
     else fail path (''unsupported shape '' @ quoted shape))"

definition parseDisplayForm :: "'n yaml \<Rightarrow> 'n \<Rightarrow> string \<Rightarrow> cfg_error + DisplayForm" where
  "parseDisplayForm Y node path =
     ebind (parseString Y node path) (\<lambda>text. let form = lowerCopy text in
     if form = ''default'' then Inr DefaultForm
     else if form = ''string'' then Inr StringForm
     else if form = ''binary'' then Inr BinaryForm
     else if form = ''decimal'' then Inr DecimalForm
     else if form = ''hex'' then Inr HexForm
     else if form = ''exponential'' then Inr ExponentialForm
     else if form = ''engineering'' then Inr EngineeringForm
     else fail path (''unsupported display form '' @ quoted form))"

section \<open>Initial values\<close>

definition fmap_res :: "('a \<Rightarrow> 'b) \<Rightarrow> 'e + 'a \<Rightarrow> 'e + 'b" where
  "fmap_res f r = ebind r (\<lambda>v. Inr (f v))"

definition parseScalarInitial :: "'n yaml \<Rightarrow> PrimitiveType \<Rightarrow> 'n \<Rightarrow> string \<Rightarrow> cfg_error + TypedValue" where
  "parseScalarInitial Y type node path = (case type of
       Boolean \<Rightarrow> fmap_res TVBool (rethrow Raised (y_bool Y node))
     | Int8 \<Rightarrow> fmap_res TVI8 (parse_i8 Y node path)
     | UInt8 \<Rightarrow> fmap_res TVU8 (parse_u8 Y node path)
     | Int16 \<Rightarrow> fmap_res TVI16 (parse_as (y_i16 Y) node path)
     | UInt16 \<Rightarrow> fmap_res TVU16 (parse_u16 Y node path)
     | Int32 \<Rightarrow> fmap_res TVI32 (parse_int Y node path)
     | UInt32 \<Rightarrow> fmap_res TVU32 (parse_u32 Y node path)
     | Int64 \<Rightarrow> fmap_res TVI64 (parse_as (y_i64 Y) node path)
     | UInt64 \<Rightarrow> fmap_res TVU64 (parse_u64 Y node path)
     | Float32 \<Rightarrow> fmap_res TVF32 (parse_float (y_f32 Y) node path)
     | Float64 \<Rightarrow> fmap_res TVF64 (parse_double Y node path)
     | String \<Rightarrow> fmap_res TVString (parseString Y node path))"

definition parseArrayInitial :: "'n yaml \<Rightarrow> ('n \<Rightarrow> string \<Rightarrow> cfg_error + 'a) \<Rightarrow> 'n \<Rightarrow> string \<Rightarrow> cfg_error + 'a list" where
  "parseArrayInitial Y parse node path =
     ebind (requireSequence Y node path) (\<lambda>_.
     emap (\<lambda>(index, n). parse n (index_path path index)) (enumerate 0 (y_items Y node)))"

definition parseInitialValue :: "'n yaml \<Rightarrow> 'n option \<Rightarrow> PrimitiveType \<Rightarrow> Shape \<Rightarrow> string \<Rightarrow> cfg_error + TypedValue" where
  "parseInitialValue Y maybe type shape path =
     (case maybe of None \<Rightarrow> Inr TVNone | Some node \<Rightarrow>
      (case shape of
         Scalar \<Rightarrow> parseScalarInitial Y type node path
       | Array \<Rightarrow> (case type of
             Int8 \<Rightarrow> fmap_res TVI8s (parseArrayInitial Y (parse_i8 Y) node path)
           | UInt8 \<Rightarrow> fmap_res TVU8s (parseArrayInitial Y (parse_u8 Y) node path)
           | Int16 \<Rightarrow> fmap_res TVI16s (parseArrayInitial Y (parse_as (y_i16 Y)) node path)
           | UInt16 \<Rightarrow> fmap_res TVU16s (parseArrayInitial Y (parse_u16 Y) node path)
           | Int32 \<Rightarrow> fmap_res TVI32s (parseArrayInitial Y (parse_int Y) node path)
           | UInt32 \<Rightarrow> fmap_res TVU32s (parseArrayInitial Y (parse_u32 Y) node path)
           | Int64 \<Rightarrow> fmap_res TVI64s (parseArrayInitial Y (parse_as (y_i64 Y)) node path)
           | UInt64 \<Rightarrow> fmap_res TVU64s (parseArrayInitial Y (parse_u64 Y) node path)
           | Float32 \<Rightarrow> fmap_res TVF32s (parseArrayInitial Y (parse_float (y_f32 Y)) node path)
           | Float64 \<Rightarrow> fmap_res TVF64s (parseArrayInitial Y (parse_double Y) node path)
           | _ \<Rightarrow> fail path ''array initial value is unsupported for this type'')))"

section \<open>Routes and backends\<close>

definition parseRoute :: "'n yaml \<Rightarrow> 'n \<Rightarrow> string \<Rightarrow> cfg_error + RouteConfig" where
  "parseRoute Y node path =
     ebind (rejectUnknownKeys Y node path [''backend'', ''key'']) (\<lambda>_.
     ebind (optional (y_get Y node ''backend'') (\<lambda>n. parseString Y n (path @ ''.backend'')) []) (\<lambda>backend.
     ebind (requireNode Y node ''key'' path) (\<lambda>keyNode.
     ebind (parseString Y keyNode (path @ ''.key'')) (\<lambda>key.
     ebind (ensure (key \<noteq> []) (Fail (path @ ''.key'') ''must not be empty'')) (\<lambda>_.
     Inr \<lparr>rt_backend = backend, rt_key = key\<rparr>)))))"

definition parseConfirm :: "'n yaml \<Rightarrow> 'n \<Rightarrow> string \<Rightarrow> cfg_error + ConfirmConfig" where
  "parseConfirm Y node path =
     ebind (rejectUnknownKeys Y node path [''backend'', ''key'', ''timeout_ms'']) (\<lambda>_.
     ebind (optional (y_get Y node ''backend'') (\<lambda>n. parseString Y n (path @ ''.backend'')) []) (\<lambda>backend.
     ebind (requireNode Y node ''key'' path) (\<lambda>keyNode.
     ebind (parseString Y keyNode (path @ ''.key'')) (\<lambda>key.
     ebind (optional (y_get Y node ''timeout_ms'')
       (\<lambda>n. fmap_res sint (parse_int Y n (path @ ''.timeout_ms''))) 250) (\<lambda>timeout.
     ebind (ensure (key \<noteq> []) (Fail (path @ ''.key'') ''must not be empty'')) (\<lambda>_.
     ebind (ensure (\<not> (timeout \<le> 0 \<or> timeout > 300000)) (Fail (path @ ''.timeout_ms'') ''must be 1..300000'')) (\<lambda>_.
     Inr \<lparr>cf_backend = backend, cf_key = key, cf_timeoutMs = timeout\<rparr>)))))))"

definition parse_credential :: "host \<Rightarrow> 'n yaml \<Rightarrow> 'n \<Rightarrow> string \<Rightarrow> string \<Rightarrow> string \<Rightarrow> cfg_error + string" where
  "parse_credential H Y node path directory name =
     (let file = name @ ''_file'' in
      if y_get Y node name \<noteq> None \<and> y_get Y node file \<noteq> None
      then fail path (name @ '' and '' @ file @ '' are mutually exclusive'')
      else case y_get Y node file of
        Some n \<Rightarrow>
          ebind (parseString Y n (path @ ''.'' @ file)) (\<lambda>input.
          ebind (ensure (input \<noteq> []) (Fail (path @ ''.'' @ file) ''must not be empty'')) (\<lambda>_.
          rethrow BadSecret (readSecretFile (h_files H)
            (if is_absolute input then input else path_join directory input) (path @ ''.'' @ file))))
      | None \<Rightarrow> (case y_get Y node name of Some n \<Rightarrow> parseString Y n (path @ ''.'' @ name) | None \<Rightarrow> Inr []))"

definition parseRedisConfig :: "host \<Rightarrow> 'n yaml \<Rightarrow> 'n \<Rightarrow> string \<Rightarrow> string \<Rightarrow> cfg_error + RedisConfig" where
  "parseRedisConfig H Y node path directory =
     ebind (rejectUnknownKeys Y node path [''base_key'', ''host'', ''port'', ''user'', ''password'', ''user_file'',
       ''password_file'', ''workers'', ''readers'', ''reader_probe_ms'']) (\<lambda>_.
     ebind (requireNode Y node ''base_key'' path) (\<lambda>baseNode.
     ebind (parseString Y baseNode (path @ ''.base_key'')) (\<lambda>baseKey.
     ebind (requireNode Y node ''host'' path) (\<lambda>hostNode.
     ebind (parseString Y hostNode (path @ ''.host'')) (\<lambda>hostName.
     ebind (requireNode Y node ''port'' path) (\<lambda>portNode.
     ebind (parse_u16 Y portNode (path @ ''.port'')) (\<lambda>port.
     ebind (parse_credential H Y node path directory ''user'') (\<lambda>user.
     ebind (parse_credential H Y node path directory ''password'') (\<lambda>password.
     ebind (optional (y_get Y node ''workers'') (\<lambda>n. parse_u16 Y n (path @ ''.workers'')) (rd_workers default_redis)) (\<lambda>workers.
     ebind (optional (y_get Y node ''readers'') (\<lambda>n. parse_u16 Y n (path @ ''.readers'')) (rd_readers default_redis)) (\<lambda>readers.
     ebind (optional (y_get Y node ''reader_probe_ms'') (\<lambda>n. parse_u32 Y n (path @ ''.reader_probe_ms''))
       (rd_readerProbeMs default_redis)) (\<lambda>probe.
     ebind (ensure (\<not> (probe \<noteq> 0 \<and> (probe < 100 \<or> probe > 60000)))
       (Fail (path @ ''.reader_probe_ms'') ''must be zero (disabled) or 100..60000'')) (\<lambda>_.
     ebind (ensure (hostName \<noteq> []) (Fail (path @ ''.host'') ''must not be empty'')) (\<lambda>_.
     ebind (ensure (port \<noteq> 0) (Fail (path @ ''.port'') ''must be 1..65535'')) (\<lambda>_.
     ebind (ensure (\<not> (workers = 0 \<or> workers > 256)) (Fail (path @ ''.workers'') ''must be 1..256'')) (\<lambda>_.
     ebind (ensure (\<not> (readers = 0 \<or> readers > 256)) (Fail (path @ ''.readers'') ''must be 1..256'')) (\<lambda>_.
     Inr \<lparr>rd_baseKey = baseKey, rd_host = hostName, rd_port = port, rd_user = user, rd_password = password,
       rd_workers = workers, rd_readers = readers, rd_readerProbeMs = probe\<rparr>)))))))))))))))))"

definition parseChannelFinderConfig :: "'n yaml \<Rightarrow> 'n option \<Rightarrow> string \<Rightarrow> cfg_error + ChannelFinderConfig" where
  "parseChannelFinderConfig Y maybe path =
     (case maybe of None \<Rightarrow> Inr default_channel_finder | Some node \<Rightarrow>
      ebind (rejectUnknownKeys Y node path [''url'', ''owner'', ''tags'', ''properties'']) (\<lambda>_.
      ebind (optional (y_get Y node ''url'') (\<lambda>n. parseString Y n (path @ ''.url'')) (ch_url default_channel_finder)) (\<lambda>url.
      ebind (optional (y_get Y node ''owner'')
        (\<lambda>n. ebind (parseString Y n (path @ ''.owner'')) (\<lambda>v.
                     if v = [] then fail (path @ ''.owner'') ''must not be empty'' else Inr v))
        (ch_owner default_channel_finder)) (\<lambda>owner.
      ebind (optional (y_get Y node ''tags'')
        (\<lambda>n. ebind (requireSequence Y n (path @ ''.tags'')) (\<lambda>tags.
                     emap (\<lambda>(index, t). ebind (parseString Y t (index_path (path @ ''.tags'') index)) (\<lambda>tag.
                                        if tag = [] then fail (index_path (path @ ''.tags'') index) ''must not be empty'' else Inr tag))
               (enumerate 0 (y_items Y tags))))
        (ch_tags default_channel_finder)) (\<lambda>tags.
      ebind (optional (y_get Y node ''properties'')
        (\<lambda>n. ebind (requireMap Y n (path @ ''.properties'')) (\<lambda>m.
           parse_texts Y m (path @ ''.properties'') ''.<name>'' ''property name must not be empty''))
        (ch_properties default_channel_finder)) (\<lambda>properties.
      Inr \<lparr>ch_url = url, ch_owner = owner, ch_tags = tags, ch_properties = properties\<rparr>))))))"

definition resolveBackendAlias :: "string \<Rightarrow> string \<Rightarrow> RedisBackendConfigs \<Rightarrow> bool \<Rightarrow> cfg_error + string" where
  "resolveBackendAlias alias path backends legacySingleBackend =
     (if alias = [] then
        (if length backends = 1 then Inr (fst (hd backends))
         else fail path ''must be set when multiple redis_backends are configured'')
      else
        (let resolved = (if legacySingleBackend \<and> alias = ''redis''
               \<and> omap_find backends kDefaultRedisBackendAlias \<noteq> None then kDefaultRedisBackendAlias else alias)
         in if omap_find backends resolved = None then fail path (''unknown redis backend '' @ quoted resolved)
            else Inr resolved))"

section \<open>Metadata, alarms and transforms\<close>

definition parseLimitConfig :: "'n yaml \<Rightarrow> 'n option \<Rightarrow> LimitConfig \<Rightarrow> string \<Rightarrow> bool \<Rightarrow> cfg_error + LimitConfig" where
  "parseLimitConfig Y maybe config path control =
     (case maybe of None \<Rightarrow> Inr config | Some node \<Rightarrow>
      ebind (rejectUnknownKeys Y node path (if control then [''low'', ''high'', ''min_step''] else [''low'', ''high''])) (\<lambda>_.
      ebind (optional (y_get Y node ''low'') (\<lambda>n. fmap_res Some (parse_double Y n (path @ ''.low''))) (lc_low config)) (\<lambda>low.
      ebind (optional (y_get Y node ''high'') (\<lambda>n. fmap_res Some (parse_double Y n (path @ ''.high''))) (lc_high config)) (\<lambda>high.
      ebind (ensure (case (low, high) of (Some l, Some h) \<Rightarrow> \<not> fp_less h l | _ \<Rightarrow> True)
        (Fail path ''low must not exceed high'')) (\<lambda>_.
      Inr \<lparr>lc_low = low, lc_high = high\<rparr>)))))"

definition parseMetadata :: "'n yaml \<Rightarrow> 'n option \<Rightarrow> string \<Rightarrow> cfg_error + MetadataConfig" where
  "parseMetadata Y maybe path =
     (case maybe of None \<Rightarrow> Inr default_metadata | Some node \<Rightarrow>
      ebind (rejectUnknownKeys Y node path [''description'', ''units'', ''precision'', ''form'', ''display'', ''control'', ''min_step'']) (\<lambda>_.
      ebind (optional (y_get Y node ''description'') (\<lambda>n. parseString Y n (path @ ''.description''))
        (md_description default_metadata)) (\<lambda>description.
      ebind (optional (y_get Y node ''units'') (\<lambda>n. parseString Y n (path @ ''.units'')) (md_units default_metadata)) (\<lambda>units.
      ebind (optional (y_get Y node ''precision'')
        (\<lambda>n. fmap_res (\<lambda>v. Some (sint v)) (parse_int Y n (path @ ''.precision''))) (md_precision default_metadata)) (\<lambda>precision.
      ebind (optional (y_get Y node ''form'') (\<lambda>n. fmap_res Some (parseDisplayForm Y n (path @ ''.form'')))
        (md_form default_metadata)) (\<lambda>form.
      ebind (parseLimitConfig Y (y_get Y node ''display'') (md_display default_metadata) (path @ ''.display'') False) (\<lambda>display.
      ebind (parseLimitConfig Y (y_get Y node ''control'') (md_control default_metadata) (path @ ''.control'') True) (\<lambda>control.
      ebind (optional (y_get Y node ''min_step'') (\<lambda>n. fmap_res Some (parse_double Y n (path @ ''.min_step'')))
        (md_minStep default_metadata)) (\<lambda>ownStep.
      ebind (optional (case y_get Y node ''control'' of None \<Rightarrow> None | Some c \<Rightarrow> y_get Y c ''min_step'')
        (\<lambda>n. fmap_res Some (parse_double Y n (path @ ''.control.min_step''))) ownStep) (\<lambda>minStep.
      ebind (ensure (case minStep of Some m \<Rightarrow> \<not> fp_less m (Fin 0) | None \<Rightarrow> True)
        (Fail (path @ ''.min_step'') ''must not be negative'')) (\<lambda>_.
      Inr \<lparr>md_description = description, md_units = units, md_precision = precision, md_form = form,
        md_display = display, md_control = control, md_minStep = minStep\<rparr>)))))))))))"

text \<open>The loop over the thresholds: each one that is set must not be below the previous one.\<close>

fun thresholds_ordered :: "fp option \<Rightarrow> fp option list \<Rightarrow> bool" where
  "thresholds_ordered previous [] = True"
| "thresholds_ordered previous (None # ts) = thresholds_ordered previous ts"
| "thresholds_ordered previous (Some t # ts) =
     ((case previous of None \<Rightarrow> True | Some p \<Rightarrow> \<not> fp_less t p) \<and> thresholds_ordered (Some t) ts)"

definition parseAlarmConfig :: "'n yaml \<Rightarrow> 'n option \<Rightarrow> string \<Rightarrow> cfg_error + AlarmConfig" where
  "parseAlarmConfig Y maybe path =
     (case maybe of None \<Rightarrow> Inr default_alarm | Some node \<Rightarrow>
      (let threshold = (\<lambda>key. optional (y_get Y node key)
             (\<lambda>n. fmap_res Some (parse_double Y n (path @ ''.'' @ key))) None) in
      ebind (rejectUnknownKeys Y node path [''low_alarm'', ''low_warning'', ''high_warning'', ''high_alarm'', ''hysteresis'']) (\<lambda>_.
      ebind (threshold ''low_alarm'') (\<lambda>lowAlarm.
      ebind (threshold ''low_warning'') (\<lambda>lowWarning.
      ebind (threshold ''high_warning'') (\<lambda>highWarning.
      ebind (threshold ''high_alarm'') (\<lambda>highAlarm.
      ebind (optional (y_get Y node ''hysteresis'') (\<lambda>n. parse_double Y n (path @ ''.hysteresis''))
        (al_hysteresis default_alarm)) (\<lambda>hysteresis.
      ebind (ensure (\<not> fp_less hysteresis (Fin 0)) (Fail (path @ ''.hysteresis'') ''must not be negative'')) (\<lambda>_.
      ebind (ensure (thresholds_ordered None [lowAlarm, lowWarning, highWarning, highAlarm])
        (Fail path ''alarm thresholds must be ordered low_alarm <= low_warning <= high_warning <= high_alarm'')) (\<lambda>_.
      Inr \<lparr>al_lowAlarm = lowAlarm, al_lowWarning = lowWarning, al_highWarning = highWarning,
        al_highAlarm = highAlarm, al_hysteresis = hysteresis\<rparr>))))))))))"

definition parseTransform :: "'n yaml \<Rightarrow> 'n option \<Rightarrow> string \<Rightarrow> cfg_error + LinearTransformConfig option" where
  "parseTransform Y maybe path =
     (case maybe of None \<Rightarrow> Inr None | Some node \<Rightarrow>
      ebind (rejectUnknownKeys Y node path [''kind'', ''scale'', ''offset'']) (\<lambda>_.
      ebind (optional (y_get Y node ''kind'')
        (\<lambda>n. ebind (parseString Y n (path @ ''.kind'')) (\<lambda>kind.
                     ensure (lowerCopy kind = ''linear'') (Fail (path @ ''.kind'') ''only linear transforms are supported''))) ()) (\<lambda>_.
      ebind (optional (y_get Y node ''scale'') (\<lambda>n. parse_double Y n (path @ ''.scale'')) (Fin 1)) (\<lambda>scale.
      ebind (optional (y_get Y node ''offset'') (\<lambda>n. parse_double Y n (path @ ''.offset'')) (Fin 0)) (\<lambda>offset.
      ebind (ensure (\<not> (fp_eq scale (Fin 0) \<or> \<not> fp_finite (fp_div binary64 (Fin 1) scale)))
        (Fail (path @ ''.scale'') ''must be nonzero with a finite inverse'')) (\<lambda>_.
      Inr (Some \<lparr>tr_scale = scale, tr_offset = offset\<rparr>)))))))"

section \<open>RPC services\<close>

definition parse_rpc_defaults :: "'n yaml \<Rightarrow> 'n \<Rightarrow> string \<Rightarrow> cfg_error + (string, string) omap" where
  "parse_rpc_defaults Y d path =
     ebind (requireMap Y d path) (\<lambda>_.
     efold (\<lambda>m (k, v).
       ebind (parseString Y k (path @ ''.key'')) (\<lambda>key.
       ebind (ensure (key \<noteq> []) (Fail path ''default field names must not be empty'')) (\<lambda>_.
       ebind (parseString Y v (path @ ''.'' @ key)) (\<lambda>text.
       Inr (omap_emplace key text m))))) [] (y_entries Y d))"

definition parse_timeout :: "'n yaml \<Rightarrow> 'n \<Rightarrow> string \<Rightarrow> string \<Rightarrow> u32 \<Rightarrow> u32 \<Rightarrow> cfg_error + u32" where
  "parse_timeout Y node path key fallback minimum =
     ebind (optional (y_get Y node key) (\<lambda>n. parse_u32 Y n (path @ ''.'' @ key)) fallback) (\<lambda>v.
     if v < minimum \<or> v > 300000 then fail (path @ ''.'' @ key) ''outside supported range'' else Inr v)"

definition parse_method_defaults :: "'n yaml \<Rightarrow> string \<Rightarrow> 'n \<Rightarrow> cfg_error + (string, (string, string) omap) omap" where
  "parse_method_defaults Y path n =
     ebind (requireMap Y n (path @ ''.method_defaults'')) (\<lambda>_.
     efold (\<lambda>m (k, v).
       ebind (parseString Y k (path @ ''.method_defaults.key'')) (\<lambda>method.
       ebind (ensure (method \<noteq> []) (Fail (path @ ''.method_defaults'') ''method names must not be empty'')) (\<lambda>_.
       ebind (parse_rpc_defaults Y v (path @ ''.method_defaults.'' @ method)) (\<lambda>defaults.
       Inr (omap_emplace method defaults m))))) [] (y_entries Y n))"

definition parseRpcService :: "'n yaml \<Rightarrow> 'n \<Rightarrow> string \<Rightarrow> cfg_error + RpcServiceConfig" where
  "parseRpcService Y node path =
     ebind (rejectUnknownKeys Y node path [''endpoint'', ''service'', ''suffix'', ''defaults'', ''method_defaults'', ''access'',
       ''optional'', ''discovery_timeout_ms'', ''timeout_ms'', ''retry_interval_ms'']) (\<lambda>_.
     ebind (requireNode Y node ''endpoint'' path) (\<lambda>endpointNode.
     ebind (parseString Y endpointNode (path @ ''.endpoint'')) (\<lambda>endpoint.
     ebind (requireNode Y node ''service'' path) (\<lambda>serviceNode.
     ebind (parseString Y serviceNode (path @ ''.service'')) (\<lambda>service.
     ebind (optional (y_get Y node ''suffix'') (\<lambda>n. parseString Y n (path @ ''.suffix'')) (rs_suffix default_rpc_service)) (\<lambda>suffix.
     ebind (optional (y_get Y node ''defaults'') (\<lambda>n. parse_rpc_defaults Y n (path @ ''.defaults''))
       (rs_defaults default_rpc_service)) (\<lambda>defaults.
     ebind (optional (y_get Y node ''method_defaults'') (parse_method_defaults Y path)
       (rs_methodDefaults default_rpc_service)) (\<lambda>methodDefaults.
     ebind (optional (y_get Y node ''optional'') (\<lambda>n. parse_as (y_bool Y) n (path @ ''.optional''))
       (rs_optional default_rpc_service)) (\<lambda>isOptional.
     ebind (parse_timeout Y node path ''discovery_timeout_ms'' (rs_discoveryTimeoutMs default_rpc_service) 1) (\<lambda>discoveryTimeout.
     ebind (parse_timeout Y node path ''timeout_ms'' (rs_timeoutMs default_rpc_service) 1) (\<lambda>timeout.
     ebind (parse_timeout Y node path ''retry_interval_ms'' (rs_retryIntervalMs default_rpc_service) 100) (\<lambda>retryInterval.
     ebind (optional (y_get Y node ''access'') (\<lambda>n. fmap_res Some (parseAccessAssignment Y n (path @ ''.access'')))
       (rs_access default_rpc_service)) (\<lambda>access.
     ebind (ensure (endpoint \<noteq> []) (Fail (path @ ''.endpoint'') ''must not be empty'')) (\<lambda>_.
     ebind (ensure (service \<noteq> []) (Fail (path @ ''.service'') ''must not be empty'')) (\<lambda>_.
     Inr \<lparr>rs_endpoint = endpoint, rs_service = service, rs_suffix = suffix, rs_defaults = defaults,
       rs_methodDefaults = methodDefaults, rs_optional = isOptional, rs_discoveryTimeoutMs = discoveryTimeout,
       rs_timeoutMs = timeout, rs_retryIntervalMs = retryInterval, rs_access = access\<rparr>)))))))))))))))"

section \<open>PVs\<close>

definition parse_kind :: "'n yaml \<Rightarrow> string \<Rightarrow> 'n \<Rightarrow> cfg_error + PVKind" where
  "parse_kind Y path n =
     ebind (parseString Y n (path @ ''.kind'')) (\<lambda>text.
     (let kind = lowerCopy text in
     if kind = ''ntndarray'' then Inr NTNDArray
     else if kind \<noteq> ''value'' \<and> kind \<noteq> ''scalar'' \<and> kind \<noteq> ''array''
     then fail (path @ ''.kind'') (''unsupported PV kind '' @ quoted kind)
     else Inr (pv_kind default_pv)))"

definition parse_aliases :: "'n yaml \<Rightarrow> string \<Rightarrow> 'n \<Rightarrow> cfg_error + string list" where
  "parse_aliases Y path n =
     ebind (requireSequence Y n (path @ ''.aliases'')) (\<lambda>aliases.
     ebind (ensure (y_items Y aliases \<noteq> []) (Fail (path @ ''.aliases'') ''must not be empty'')) (\<lambda>_.
     emap (\<lambda>(index, a).
       ebind (parseString Y a (index_path (path @ ''.aliases'') index)) (\<lambda>alias.
       if alias = [] then fail (index_path (path @ ''.aliases'') index) ''must not be empty'' else Inr alias))
       (enumerate 0 (y_items Y aliases))))"

text \<open>The type, shape and frame limits of a PV, which depend on its kind.\<close>

definition parse_value_type :: "'n yaml \<Rightarrow> 'n \<Rightarrow> string \<Rightarrow> PVKind \<Rightarrow> cfg_error + PrimitiveType \<times> Shape \<times> u64 \<times> u32" where
  "parse_value_type Y node path kind =
     (if kind = NTNDArray then
        ebind (rejectUnknownKeys Y node path [''name'', ''aliases'', ''kind'', ''read'', ''max_frame_bytes'', ''max_frame_gap'',
          ''access'', ''source_health'']) (\<lambda>_.
        ebind (optional (y_get Y node ''max_frame_bytes'') (\<lambda>n. parse_u64 Y n (path @ ''.max_frame_bytes''))
          (pv_maxFrameBytes default_pv)) (\<lambda>frameBytes.
        ebind (ensure (\<not> (frameBytes = 0 \<or> frameBytes > 1024 * 1024 * 1024))
          (Fail (path @ ''.max_frame_bytes'') ''must be 1..1073741824'')) (\<lambda>_.
        ebind (optional (y_get Y node ''max_frame_gap'') (\<lambda>n. parse_u32 Y n (path @ ''.max_frame_gap''))
          (pv_maxFrameGap default_pv)) (\<lambda>frameGap.
        ebind (ensure (\<not> frameGap > 2147483646) (Fail (path @ ''.max_frame_gap'') ''must be 0..2147483646'')) (\<lambda>_.
        Inr (UInt8, Array, frameBytes, frameGap))))))
      else
        ebind (ensure (y_get Y node ''max_frame_bytes'' = None) (Fail (path @ ''.max_frame_bytes'') ''requires kind: ntndarray'')) (\<lambda>_.
        ebind (ensure (y_get Y node ''max_frame_gap'' = None) (Fail (path @ ''.max_frame_gap'') ''requires kind: ntndarray'')) (\<lambda>_.
        ebind (requireNode Y node ''type'' path) (\<lambda>typeNode.
        ebind (parsePrimitiveType Y typeNode (path @ ''.type'')) (\<lambda>type.
        ebind (requireNode Y node ''shape'' path) (\<lambda>shapeNode.
        ebind (parseShape Y shapeNode (path @ ''.shape'')) (\<lambda>shape.
        Inr (type, shape, pv_maxFrameBytes default_pv, pv_maxFrameGap default_pv))))))))"

definition parse_source_health :: "'n yaml \<Rightarrow> string \<Rightarrow> 'n \<Rightarrow> cfg_error + SourceHealthConfig" where
  "parse_source_health Y path health =
     ebind (rejectUnknownKeys Y health (path @ ''.source_health'') [''required'', ''stale_after_ms'']) (\<lambda>_.
     ebind (optional (y_get Y health ''required'') (\<lambda>n. parse_as (y_bool Y) n (path @ ''.source_health.required''))
       (sh_required default_source_health)) (\<lambda>required.
     ebind (optional (y_get Y health ''stale_after_ms'') (\<lambda>n. parse_u32 Y n (path @ ''.source_health.stale_after_ms''))
       (sh_staleAfterMs default_source_health)) (\<lambda>staleAfter.
     ebind (ensure (\<not> staleAfter > 86400000) (Fail (path @ ''.source_health.stale_after_ms'') ''must be 0..86400000'')) (\<lambda>_.
     Inr \<lparr>sh_required = required, sh_staleAfterMs = staleAfter\<rparr>))))"

definition has_thresholds :: "AlarmConfig \<Rightarrow> bool" where
  "has_thresholds a = (al_lowAlarm a \<noteq> None \<or> al_lowWarning a \<noteq> None \<or> al_highWarning a \<noteq> None \<or> al_highAlarm a \<noteq> None)"

definition has_limits :: "MetadataConfig \<Rightarrow> bool" where
  "has_limits m = (lc_low (md_display m) \<noteq> None \<or> lc_high (md_display m) \<noteq> None \<or> lc_low (md_control m) \<noteq> None
     \<or> lc_high (md_control m) \<noteq> None \<or> md_minStep m \<noteq> None)"

text \<open>The combinations that are refused once all members are read.\<close>

definition check_pv :: "PVConfig \<Rightarrow> string \<Rightarrow> cfg_error + PVConfig" where
  "check_pv pv path =
     ebind (ensure (\<not> (pv_shape pv = Array \<and> \<not> isArrayElementTypeSupported (pv_type pv)))
       (Fail (path @ ''.type'') ''this array element type is unsupported'')) (\<lambda>_.
     ebind (ensure (\<not> (pv_transform pv \<noteq> None \<and> \<not> isFloatingPointType (pv_type pv)))
       (Fail (path @ ''.transform'') ''linear transforms are only supported for floating-point PVs'')) (\<lambda>_.
     ebind (ensure (\<not> (pv_shape pv = Array \<and> has_thresholds (pv_alarms pv)))
       (Fail (path @ ''.alarm'') ''array threshold alarms are unsupported'')) (\<lambda>_.
     ebind (ensure (\<not> (\<not> isNumericType (pv_type pv) \<and> has_limits (pv_metadata pv)))
       (Fail (path @ ''.metadata'') ''display/control numeric limits require a numeric type'')) (\<lambda>_.
     ebind (ensure (\<not> (\<not> isNumericType (pv_type pv) \<and> has_thresholds (pv_alarms pv)))
       (Fail (path @ ''.alarm'') ''threshold alarms require a numeric type'')) (\<lambda>_.
     Inr pv)))))"

definition parsePV :: "'n yaml \<Rightarrow> 'n \<Rightarrow> string \<Rightarrow> cfg_error + PVConfig" where
  "parsePV Y node path =
     ebind (rejectUnknownKeys Y node path [''name'', ''aliases'', ''kind'', ''max_frame_bytes'', ''max_frame_gap'', ''type'', ''shape'',
       ''read'', ''write'', ''confirm'', ''metadata'', ''alarm'', ''transform'', ''initial'', ''access'', ''source_health'']) (\<lambda>_.
     ebind (requireNode Y node ''name'' path) (\<lambda>nameNode.
     ebind (parseString Y nameNode (path @ ''.name'')) (\<lambda>name.
     ebind (ensure (name \<noteq> []) (Fail (path @ ''.name'') ''must not be empty'')) (\<lambda>_.
     ebind (optional (y_get Y node ''aliases'') (parse_aliases Y path) (pv_aliases default_pv)) (\<lambda>aliases.
     ebind (optional (y_get Y node ''kind'') (parse_kind Y path) (pv_kind default_pv)) (\<lambda>kind.
     ebind (parse_value_type Y node path kind) (\<lambda>(type, shape, frameBytes, frameGap).
     ebind (requireNode Y node ''read'' path) (\<lambda>readNode.
     ebind (parseRoute Y readNode (path @ ''.read'')) (\<lambda>read.
     ebind (optional (y_get Y node ''write'') (\<lambda>n. fmap_res Some (parseRoute Y n (path @ ''.write''))) None) (\<lambda>write.
     ebind (optional (y_get Y node ''confirm'')
       (\<lambda>n. if write = None then fail (path @ ''.confirm'') ''requires a write route''
            else fmap_res Some (parseConfirm Y n (path @ ''.confirm''))) None) (\<lambda>confirm.
     ebind (parseMetadata Y (y_get Y node ''metadata'') (path @ ''.metadata'')) (\<lambda>metadata.
     ebind (parseAlarmConfig Y (y_get Y node ''alarm'') (path @ ''.alarm'')) (\<lambda>alarms.
     ebind (parseTransform Y (y_get Y node ''transform'') (path @ ''.transform'')) (\<lambda>transform.
     ebind (parseInitialValue Y (y_get Y node ''initial'') type shape (path @ ''.initial'')) (\<lambda>initialValue.
     ebind (optional (y_get Y node ''access'') (\<lambda>n. fmap_res Some (parseAccessAssignment Y n (path @ ''.access''))) None) (\<lambda>access.
     ebind (optional (y_get Y node ''source_health'') (parse_source_health Y path) default_source_health) (\<lambda>health.
     check_pv \<lparr>pv_name = name, pv_aliases = aliases, pv_kind = kind, pv_type = type, pv_shape = shape, pv_read = read,
       pv_write = write, pv_confirm = confirm, pv_metadata = metadata, pv_alarms = alarms, pv_transform = transform,
       pv_initialValue = initialValue, pv_access = access, pv_maxFrameBytes = frameBytes, pv_maxFrameGap = frameGap,
       pv_sourceHealth = health\<rparr> path)))))))))))))))))"

section \<open>Discovery and operation limits\<close>

definition bounded :: "'n yaml \<Rightarrow> 'n \<Rightarrow> string \<Rightarrow> string \<Rightarrow> u64 \<Rightarrow> u64 \<Rightarrow> u64 \<Rightarrow> cfg_error + u64" where
  "bounded Y node path key initial low high =
     ebind (optional (y_get Y node key) (\<lambda>n. parse_u64 Y n (path @ ''.'' @ key)) initial) (\<lambda>v.
     if v < low \<or> v > high then fail (path @ ''.'' @ key) ''outside supported range'' else Inr v)"

definition reject_duplicate_keys :: "'n yaml \<Rightarrow> 'n \<Rightarrow> string \<Rightarrow> cfg_error + string list" where
  "reject_duplicate_keys Y node path =
     efold (\<lambda>keys (k, _).
       ebind (rethrow Raised (y_string Y k)) (\<lambda>key.
       if key \<in> set keys then fail (path @ ''.'' @ key) ''duplicate key'' else Inr (key # keys)))
       [] (y_entries Y node)"

definition parseDiscovery :: "host \<Rightarrow> 'n yaml \<Rightarrow> 'n option \<Rightarrow> cfg_error + DiscoveryConfig" where
  "parseDiscovery H Y maybe =
     (case maybe of None \<Rightarrow> Inr default_discovery | Some node \<Rightarrow>
      ebind (rejectUnknownKeys Y node ''root.discovery'' [''enabled'', ''bind_address'', ''udp_port'', ''timeout_ms'', ''max_holdoff_ms'',
        ''max_records'', ''max_bytes'']) (\<lambda>_.
      ebind (reject_duplicate_keys Y node ''root.discovery'') (\<lambda>_.
      ebind (optional (y_get Y node ''enabled'') (\<lambda>n. parse_as (y_bool Y) n ''root.discovery.enabled'')
        (dc_enabled default_discovery)) (\<lambda>enabled.
      ebind (optional (y_get Y node ''bind_address'') (\<lambda>n. parseString Y n ''root.discovery.bind_address'')
        (dc_bindAddress default_discovery)) (\<lambda>address.
      ebind (ensure (h_inet4 H address) (Fail ''root.discovery.bind_address'' ''expected an IPv4 address'')) (\<lambda>_.
      ebind (bounded Y node ''root.discovery'' ''udp_port'' (ucast (dc_udpPort default_discovery)) 0 65535) (\<lambda>udpPort.
      ebind (bounded Y node ''root.discovery'' ''timeout_ms'' (ucast (dc_timeoutMs default_discovery)) 1 300000) (\<lambda>timeout.
      ebind (bounded Y node ''root.discovery'' ''max_holdoff_ms'' (ucast (dc_maxHoldoffMs default_discovery)) 0 60000) (\<lambda>holdoff.
      ebind (bounded Y node ''root.discovery'' ''max_records'' (ucast (dc_maxRecords default_discovery)) 1 1000000) (\<lambda>records.
      ebind (bounded Y node ''root.discovery'' ''max_bytes'' (dc_maxBytes default_discovery) 1024 (1024 * 1024 * 1024)) (\<lambda>maxBytes.
      Inr \<lparr>dc_enabled = enabled, dc_bindAddress = address, dc_udpPort = ucast udpPort, dc_timeoutMs = ucast timeout,
        dc_maxHoldoffMs = ucast holdoff, dc_maxRecords = ucast records, dc_maxBytes = maxBytes\<rparr>)))))))))))"

definition parseOperationLimits :: "'n yaml \<Rightarrow> 'n option \<Rightarrow> cfg_error + OperationLimitsConfig" where
  "parseOperationLimits Y maybe =
     (case maybe of None \<Rightarrow> Inr default_limits | Some node \<Rightarrow>
      (let limit = bounded Y node ''root.limits''; giga = 1024 * 1024 * 1024 in
      ebind (requireMap Y node ''root.limits'') (\<lambda>_.
      ebind (rejectUnknownKeys Y node ''root.limits'' [''write_workers'', ''queued_writes_per_pv'', ''queued_write_bytes'', ''rpc_workers'',
        ''queued_rpc_per_method'', ''queued_rpc_bytes'', ''max_payload_bytes'', ''operation_timeout_ms'', ''alarm_queue_entries'',
        ''alarm_state_bytes'']) (\<lambda>_.
      ebind (limit ''write_workers'' (ucast (ol_writeWorkers default_limits)) 1 64) (\<lambda>writeWorkers.
      ebind (limit ''queued_writes_per_pv'' (ucast (ol_queuedWritesPerPV default_limits)) 1 4096) (\<lambda>writesPerPV.
      ebind (limit ''queued_write_bytes'' (ol_queuedWriteBytes default_limits) 1024 giga) (\<lambda>writeBytes.
      ebind (limit ''rpc_workers'' (ucast (ol_rpcWorkers default_limits)) 1 64) (\<lambda>rpcWorkers.
      ebind (limit ''queued_rpc_per_method'' (ucast (ol_queuedRpcPerMethod default_limits)) 1 4096) (\<lambda>rpcPerMethod.
      ebind (limit ''queued_rpc_bytes'' (ol_queuedRpcBytes default_limits) 1024 giga) (\<lambda>rpcBytes.
      ebind (limit ''max_payload_bytes'' (ol_maxPayloadBytes default_limits) 1 giga) (\<lambda>payload.
      ebind (limit ''alarm_queue_entries'' (ucast (ol_alarmQueueEntries default_limits)) 1 1000000) (\<lambda>entries.
      ebind (limit ''alarm_state_bytes'' (ol_alarmStateBytes default_limits) 1024 giga) (\<lambda>state.
      ebind (ensure (\<not> ucast (ucast entries :: u32) > state div kAlarmQueueEntryBytes)
        (Fail ''root.limits.alarm_state_bytes'' ''must cover the reserved alarm queue'')) (\<lambda>_.
      ebind (optional (y_get Y node ''operation_timeout_ms'')
        (\<lambda>_. fmap_res (\<lambda>v. Some (ucast v)) (limit ''operation_timeout_ms'' 0 1 300000))
        (ol_operationTimeoutMs default_limits)) (\<lambda>timeout.
      Inr \<lparr>ol_writeWorkers = ucast writeWorkers, ol_queuedWritesPerPV = ucast writesPerPV, ol_queuedWriteBytes = writeBytes,
        ol_rpcWorkers = ucast rpcWorkers, ol_queuedRpcPerMethod = ucast rpcPerMethod, ol_queuedRpcBytes = rpcBytes,
        ol_maxPayloadBytes = payload, ol_operationTimeoutMs = timeout, ol_alarmQueueEntries = ucast entries,
        ol_alarmStateBytes = state\<rparr>)))))))))))))))"

end
