(* ===== verification/Config_Load.thy ===== *)
theory Config_Load
  imports Config_Sections
begin

text \<open>
  The configuration as a whole, \<open>parseConfig\<close> and \<open>summarizeConfig\<close> of \<open>src/config.cpp\<close>: the order
  of the checks, the choice between one legacy backend and named backends, the loop over the PVs
  with the endpoint namespace and the subscribed keys, the RPC services and the budget of alarm
  states.
\<close>

section \<open>Parts of the root\<close>

definition validateTopLevelSchema :: "'n yaml \<Rightarrow> 'n \<Rightarrow> cfg_error + unit" where
  "validateTopLevelSchema Y doc =
     ensure (\<not> (y_get Y doc ''PVList'' \<noteq> None \<or> y_get Y doc ''PVBase'' \<noteq> None \<or> y_get Y doc ''RedisBase'' \<noteq> None))
       (Fail ''root'' ''old flat prototype schema is not supported'')"

definition parse_server :: "'n yaml \<Rightarrow> 'n \<Rightarrow> cfg_error + ServerConfig" where
  "parse_server Y doc =
     ebind (requireNode Y doc ''server'' ''root'') (\<lambda>found.
     ebind (requireMap Y found ''root.server'') (\<lambda>node.
     ebind (rejectUnknownKeys Y node ''root.server'' [''instance'', ''namespace'', ''interfaces'', ''tcp_port'', ''udp_port'', ''auto_beacon'']) (\<lambda>_.
     ebind (requireNode Y node ''instance'' ''root.server'') (\<lambda>instanceNode.
     ebind (parseString Y instanceNode ''root.server.instance'') (\<lambda>inst.
     ebind (optional (y_get Y node ''namespace'') (\<lambda>n. parseString Y n ''root.server.namespace'') []) (\<lambda>nameSpace.
     ebind (optional (y_get Y node ''interfaces'')
       (\<lambda>n. ebind (requireSequence Y n ''root.server.interfaces'') (\<lambda>is.
                    emap (\<lambda>(index, i). parseString Y i (index_path ''root.server.interfaces'' index)) (enumerate 0 (y_items Y is)))) []) (\<lambda>interfaces.
     ebind (optional (y_get Y node ''tcp_port'') (\<lambda>n. fmap_res Some (parse_u16 Y n ''root.server.tcp_port'')) None) (\<lambda>tcpPort.
     ebind (optional (y_get Y node ''udp_port'') (\<lambda>n. fmap_res Some (parse_u16 Y n ''root.server.udp_port'')) None) (\<lambda>udpPort.
     ebind (optional (y_get Y node ''auto_beacon'') (\<lambda>n. rethrow Raised (y_bool Y n)) True) (\<lambda>beacon.
     ebind (ensure (inst \<noteq> []) (Fail ''root.server.instance'' ''must not be empty'')) (\<lambda>_.
     Inr \<lparr>sv_instance = inst, sv_nameSpace = nameSpace, sv_interfaces = interfaces, sv_tcpPort = tcpPort,
       sv_udpPort = udpPort, sv_autoBeacon = beacon\<rparr>)))))))))))"

definition add_backend :: "host \<Rightarrow> 'n yaml \<Rightarrow> string \<Rightarrow> RedisBackendConfigs \<Rightarrow> 'n \<times> 'n \<Rightarrow> cfg_error + RedisBackendConfigs" where
  "add_backend H Y directory backends entry =
     ebind (parseString Y (fst entry) ''root.redis_backends.<alias>'') (\<lambda>alias.
     ebind (ensure (alias \<noteq> []) (Fail ''root.redis_backends'' ''backend alias must not be empty'')) (\<lambda>_.
     ebind (parseRedisConfig H Y (snd entry) (''root.redis_backends.'' @ alias) directory) (\<lambda>config.
     if omap_find backends alias \<noteq> None
     then fail (''root.redis_backends.'' @ alias) (''duplicate redis backend alias '' @ quoted alias)
     else Inr (omap_emplace alias config backends))))"

definition parse_backends :: "host \<Rightarrow> 'n yaml \<Rightarrow> 'n \<Rightarrow> string \<Rightarrow> cfg_error + RedisBackendConfigs" where
  "parse_backends H Y doc directory =
     (let hasLegacyRedis = (y_get Y doc ''redis'' \<noteq> None);
          hasRedisBackends = (y_get Y doc ''redis_backends'' \<noteq> None)
      in if hasLegacyRedis = hasRedisBackends
         then fail ''root'' (''specify exactly one of '' @ quoted ''redis'' @ '' or '' @ quoted ''redis_backends'')
         else if hasLegacyRedis then
           ebind (requireNode Y doc ''redis'' ''root'') (\<lambda>node.
           ebind (parseRedisConfig H Y node ''root.redis'' directory) (\<lambda>config.
           Inr (omap_emplace kDefaultRedisBackendAlias config [])))
         else
           ebind (requireNode Y doc ''redis_backends'' ''root'') (\<lambda>found.
           ebind (requireMap Y found ''root.redis_backends'') (\<lambda>node.
           ebind (ensure (y_entries Y node \<noteq> []) (Fail ''root.redis_backends'' ''must not be empty'')) (\<lambda>_.
           efold (add_backend H Y directory) [] (y_entries Y node)))))"

definition parse_alarm_stream :: "'n yaml \<Rightarrow> 'n \<Rightarrow> RedisBackendConfigs \<Rightarrow> bool \<Rightarrow> cfg_error + AlarmStreamConfig" where
  "parse_alarm_stream Y doc backends legacy =
     ebind (optional (y_get Y doc ''alarms'')
       (\<lambda>n. ebind (rejectUnknownKeys Y n ''root.alarms'' [''backend'', ''stream'']) (\<lambda>_.
                    ebind (optional (y_get Y n ''backend'') (\<lambda>b. parseString Y b ''root.alarms.backend'') []) (\<lambda>backend.
                    ebind (optional (y_get Y n ''stream'') (\<lambda>s. parseString Y s ''root.alarms.stream'') (as_stream (cfg_alarms default_app))) (\<lambda>stream.
                    Inr (backend, stream))))) ([], as_stream (cfg_alarms default_app))) (\<lambda>(backend, stream).
     ebind (ensure (stream \<noteq> []) (Fail ''root.alarms.stream'' ''must not be empty'')) (\<lambda>_.
     ebind (resolveBackendAlias backend ''root.alarms.backend'' backends legacy) (\<lambda>resolved.
     Inr \<lparr>as_backend = resolved, as_stream = stream\<rparr>)))"

section \<open>The PVs\<close>

text \<open>The state of the loop: the namespace, the subscribed keys and the PVs read so far.\<close>

record pv_loop =
  pl_endpoints :: EndpointRegistry
  pl_keys :: "(string \<times> string) list"
  pl_pvs :: "PVConfig list"

definition resolve_pv :: "RedisBackendConfigs \<Rightarrow> bool \<Rightarrow> string \<Rightarrow> PVConfig \<Rightarrow> cfg_error + PVConfig" where
  "resolve_pv backends legacy path pv =
     ebind (resolveBackendAlias (rt_backend (pv_read pv)) (path @ ''.read.backend'') backends legacy) (\<lambda>read.
     ebind ((case pv_write pv of None \<Rightarrow> Inr None | Some w \<Rightarrow>
       fmap_res (\<lambda>b. Some (w\<lparr>rt_backend := b\<rparr>))
         (resolveBackendAlias (rt_backend w) (path @ ''.write.backend'') backends legacy))) (\<lambda>write.
     ebind ((case pv_confirm pv of None \<Rightarrow> Inr None | Some c \<Rightarrow>
       fmap_res (\<lambda>b. Some (c\<lparr>cf_backend := b\<rparr>))
         (resolveBackendAlias (cf_backend c) (path @ ''.confirm.backend'') backends legacy))) (\<lambda>confirm.
     Inr (pv\<lparr>pv_read := (pv_read pv)\<lparr>rt_backend := read\<rparr>, pv_write := write, pv_confirm := confirm\<rparr>))))"

definition read_key :: "PVConfig \<Rightarrow> string \<times> string" where
  "read_key pv = (rt_backend (pv_read pv), rt_key (pv_read pv))"

definition confirm_key :: "PVConfig \<Rightarrow> (string \<times> string) option" where
  "confirm_key pv = (case pv_confirm pv of None \<Rightarrow> None | Some c \<Rightarrow>
     (if cf_backend c \<noteq> rt_backend (pv_read pv) \<or> cf_key c \<noteq> rt_key (pv_read pv)
      then Some (cf_backend c, cf_key c) else None))"

definition duplicate_key :: "string \<Rightarrow> string \<times> string \<Rightarrow> cfg_error" where
  "duplicate_key path key = Fail path (''duplicate subscribed key '' @ quoted (fst key @ '':'' @ snd key))"

definition subscribe :: "string \<Rightarrow> PVConfig \<Rightarrow> (string \<times> string) list \<Rightarrow> cfg_error + (string \<times> string) list" where
  "subscribe path pv keys =
     ebind (ensure (read_key pv \<notin> set keys) (duplicate_key (path @ ''.read.key'') (read_key pv))) (\<lambda>_.
     (case confirm_key pv of
        None \<Rightarrow> Inr (read_key pv # keys)
      | Some key \<Rightarrow>
          (if key \<in> set (read_key pv # keys) then Inl (duplicate_key (path @ ''.confirm.key'') key)
           else Inr (key # read_key pv # keys))))"

definition add_pv_node :: "'n yaml \<Rightarrow> AccessConfig \<Rightarrow> ServerConfig \<Rightarrow> RedisBackendConfigs \<Rightarrow> bool \<Rightarrow> pv_loop
    \<Rightarrow> nat \<times> 'n \<Rightarrow> cfg_error + pv_loop" where
  "add_pv_node Y access server backends legacy loop entry =
     (let path = index_path ''root.pvs'' (fst entry) in
      ebind (parsePV Y (snd entry) path) (\<lambda>pv.
      ebind (ensure (\<not> (pv_access pv \<noteq> None \<and> \<not> ac_enabled access))
        (Fail (path @ ''.access'') ''requires root.access.enabled: true'')) (\<lambda>_.
      (let assigned = (if pv_access pv = None \<and> ac_enabled access
        then pv\<lparr>pv_access := Some (ad_pv (ac_defaults access))\<rparr> else pv) in
      ebind (resolve_pv backends legacy path assigned) (\<lambda>resolved.
      ebind (rethrow BadEndpoint (addPV server resolved path (pl_endpoints loop))) (\<lambda>endpoints.
      ebind (subscribe path resolved (pl_keys loop)) (\<lambda>keys.
      Inr \<lparr>pl_endpoints = endpoints, pl_keys = keys, pl_pvs = pl_pvs loop @ [resolved]\<rparr>)))))))"

definition parse_pvs :: "'n yaml \<Rightarrow> 'n \<Rightarrow> AccessConfig \<Rightarrow> ServerConfig \<Rightarrow> RedisBackendConfigs \<Rightarrow> bool \<Rightarrow> cfg_error + PVConfig list" where
  "parse_pvs Y doc access server backends legacy =
     ebind (optional (y_get Y doc ''pvs'')
       (\<lambda>n. ebind (requireSequence Y n ''root.pvs'') (\<lambda>s. Inr (y_items Y s))) []) (\<lambda>items.
     ebind (rethrow BadEndpoint (addDiagnostics server [])) (\<lambda>endpoints.
     ebind (efold (add_pv_node Y access server backends legacy) \<lparr>pl_endpoints = endpoints, pl_keys = [], pl_pvs = []\<rparr>
       (enumerate 0 items)) (\<lambda>loop.
     Inr (pl_pvs loop))))"

section \<open>RPC services and the alarm budget\<close>

definition parse_rpc_entry :: "'n yaml \<Rightarrow> AccessConfig \<Rightarrow> nat \<times> 'n \<Rightarrow> cfg_error + RpcServiceConfig" where
  "parse_rpc_entry Y access entry =
     (let path = index_path ''root.rpc_services'' (fst entry) in
      ebind (parseRpcService Y (snd entry) path) (\<lambda>service.
      ebind (ensure (\<not> (rs_access service \<noteq> None \<and> \<not> ac_enabled access))
        (Fail (path @ ''.access'') ''requires root.access.enabled: true'')) (\<lambda>_.
      Inr (if rs_access service = None \<and> ac_enabled access
        then service\<lparr>rs_access := Some (ad_rpc (ac_defaults access))\<rparr> else service))))"

definition parse_rpc_services :: "'n yaml \<Rightarrow> 'n \<Rightarrow> AccessConfig \<Rightarrow> cfg_error + RpcServiceConfig list" where
  "parse_rpc_services Y doc access =
     optional (y_get Y doc ''rpc_services'')
       (\<lambda>n. ebind (requireSequence Y n ''root.rpc_services'') (\<lambda>services.
            emap (parse_rpc_entry Y access) (enumerate 0 (y_items Y services)))) []"

definition spend_alarm_bytes :: "ServerConfig \<Rightarrow> u64 \<Rightarrow> PVConfig \<Rightarrow> cfg_error + u64" where
  "spend_alarm_bytes server alarmBytes pv =
     (let nameBytes = length (fullPVName server pv) in
      if alarmBytes < 1024 \<or> unat ((alarmBytes - 1024) div 2) < nameBytes
      then fail ''root.limits.alarm_state_bytes'' ''must cover the reserved alarm queue and current PV states''
      else Inr (alarmBytes - (1024 + 2 * of_nat nameBytes)))"

definition check_alarm_budget :: "OperationLimitsConfig \<Rightarrow> ServerConfig \<Rightarrow> PVConfig list \<Rightarrow> cfg_error + u64" where
  "check_alarm_budget limits server pvs =
     efold (spend_alarm_bytes server)
       (ol_alarmStateBytes limits - ucast (ol_alarmQueueEntries limits) * kAlarmQueueEntryBytes) pvs"

section \<open>The configuration\<close>

definition parseConfig :: "host \<Rightarrow> 'n yaml \<Rightarrow> 'n \<Rightarrow> string \<Rightarrow> cfg_error + AppConfig" where
  "parseConfig H Y doc directory =
     ebind (requireMap Y doc ''root'') (\<lambda>_.
     ebind (validateTopLevelSchema Y doc) (\<lambda>_.
     ebind (validateTree Y doc ''root'' [] 0) (\<lambda>_.
     ebind (rejectUnknownKeys Y doc ''root'' [''schema_version'', ''server'', ''access'', ''redis'', ''redis_backends'', ''alarms'',
       ''channelfinder'', ''discovery'', ''limits'', ''pvs'', ''rpc_services'']) (\<lambda>_.
     ebind (optional (y_get Y doc ''schema_version'') (\<lambda>n. parse_u32 Y n ''root.schema_version'')
       (cfg_schemaVersion default_app)) (\<lambda>schemaVersion.
     ebind (ensure (schemaVersion = 1) (Fail ''root.schema_version'' ''only schema version 1 is supported'')) (\<lambda>_.
     ebind (parseDiscovery H Y (y_get Y doc ''discovery'')) (\<lambda>discovery.
     ebind (parseOperationLimits Y (y_get Y doc ''limits'')) (\<lambda>limits.
     ebind (parseAccessConfig H Y (y_get Y doc ''access'') directory ''root.access'') (\<lambda>access.
     ebind (parse_server Y doc) (\<lambda>server.
     ebind (parseChannelFinderConfig Y (y_get Y doc ''channelfinder'') ''root.channelfinder'') (\<lambda>channelFinder.
     ebind (parse_backends H Y doc directory) (\<lambda>backends.
     (let legacy = (y_get Y doc ''redis'' \<noteq> None) in
     ebind (parse_alarm_stream Y doc backends legacy) (\<lambda>alarms.
     ebind (parse_pvs Y doc access server backends legacy) (\<lambda>pvs.
     ebind (parse_rpc_services Y doc access) (\<lambda>rpcServices.
     ebind (ensure (\<not> (pvs = [] \<and> rpcServices = []))
       (Fail ''root'' (''must define at least one of '' @ quoted ''pvs'' @ '' or '' @ quoted ''rpc_services''))) (\<lambda>_.
     ebind (check_alarm_budget limits server pvs) (\<lambda>_.
     Inr \<lparr>cfg_schemaVersion = schemaVersion, cfg_legacyInput = (y_get Y doc ''schema_version'' = None), cfg_server = server,
       cfg_access = access, cfg_redisBackends = backends, cfg_alarms = alarms, cfg_channelFinder = channelFinder,
       cfg_discovery = discovery, cfg_limits = limits, cfg_pvs = pvs, cfg_rpcServices = rpcServices\<rparr>))))))))))))))))))"

text \<open>
  \<open>loadConfigFile\<close> and \<open>loadConfigString\<close>: the YAML library loads the document, or throws; the
  directory is that of the file, or the working directory. \<open>parent_path\<close> drops the last name.
\<close>

definition parent_path :: "string \<Rightarrow> string" where
  "parent_path p =
     (let dir = rev (dropWhile (\<lambda>c. c = CHR ''/'') (dropWhile (\<lambda>c. c \<noteq> CHR ''/'') (rev p)))
      in if dir = [] \<and> is_absolute p then ''/'' else dir)"

definition loadConfigFile :: "host \<Rightarrow> (string \<Rightarrow> string + 'n yaml \<times> 'n) \<Rightarrow> string \<Rightarrow> cfg_error + AppConfig" where
  "loadConfigFile H loadFile path =
     (let absolutePath = path_join (h_cwd H) path in
      ebind (rethrow Raised (loadFile path)) (\<lambda>(Y, doc).
      parseConfig H Y doc (parent_path absolutePath)))"

definition loadConfigString :: "host \<Rightarrow> (string \<Rightarrow> string + 'n yaml \<times> 'n) \<Rightarrow> string \<Rightarrow> cfg_error + AppConfig" where
  "loadConfigString H load text =
     ebind (rethrow Raised (load text)) (\<lambda>(Y, doc).
     parseConfig H Y doc (h_cwd H))"

section \<open>The summary\<close>

definition summarize_pv :: "ServerConfig \<Rightarrow> PVConfig \<Rightarrow> string" where
  "summarize_pv server pv =
     [CHR 0x0A] @ ''- '' @ fullPVName server pv @ '' [''
     @ (if pv_kind pv = NTNDArray
        then toString_kind (pv_kind pv) @ '' max_frame_bytes='' @ to_string (unat (pv_maxFrameBytes pv))
          @ '' max_frame_gap='' @ to_string (unat (pv_maxFrameGap pv))
        else toString_shape (pv_shape pv) @ '' '' @ toString_type (pv_type pv))
     @ '']'' @ '' read='' @ rt_backend (pv_read pv) @ '':'' @ rt_key (pv_read pv)
     @ (case pv_write pv of None \<Rightarrow> [] | Some w \<Rightarrow> '' write='' @ rt_backend w @ '':'' @ rt_key w)
     @ (case pv_confirm pv of None \<Rightarrow> [] | Some c \<Rightarrow> '' confirm='' @ cf_backend c @ '':'' @ cf_key c)
     @ (if pv_aliases pv = [] then [] else '' aliases='' @ join '','' (pv_aliases pv))
     @ (case pv_access pv of None \<Rightarrow> [] | Some a \<Rightarrow> '' access='' @ aa_asg a @ '':ASL''
         @ (if aa_asl a < 0 then ''-'' @ to_string (nat (- aa_asl a)) else to_string (nat (aa_asl a))))"

definition summarizeConfig :: "AppConfig \<Rightarrow> string" where
  "summarizeConfig config =
     (let server = cfg_server config; access = cfg_access config; onOff = (\<lambda>b. if b then ''enabled'' else ''disabled'') in
      ''instance='' @ sv_instance server
      @ '' namespace='' @ (if sv_nameSpace server = [] then ''<none>'' else sv_nameSpace server)
      @ '' redis_backends='' @ to_string (length (cfg_redisBackends config))
      @ '' pvs='' @ to_string (length (cfg_pvs config))
      @ '' rpc_services='' @ to_string (length (cfg_rpcServices config))
      @ '' access='' @ onOff (ac_enabled access)
      @ (if ac_enabled access
         then [CHR 0x0A] @ ''access_file='' @ ac_file access @ '' watch='' @ onOff (aw_enabled (ac_watch access))
           @ '' macros='' @ to_string (length (ac_macros access))
         else [])
      @ concat (map (\<lambda>(alias, backend). [CHR 0x0A] @ ''backend['' @ alias @ '']='' @ rd_host backend @ '':''
           @ to_string (unat (rd_port backend)) @ '' base_key='' @ rd_baseKey backend) (cfg_redisBackends config))
      @ concat (map (\<lambda>svc. [CHR 0x0A] @ ''- rpc_service '' @ rs_service svc @ '' @ '' @ rs_endpoint svc @ '' -> ''
           @ (if sv_nameSpace server = [] then [] else sv_nameSpace server @ '':'') @ ''<METHOD>'' @ rs_suffix svc)
           (cfg_rpcServices config))
      @ concat (map (summarize_pv server) (cfg_pvs config)))"

end
