(* ===== verification/Config_Correct.thy ===== *)
theory Config_Correct
  imports Config_Load
begin

text \<open>
  What a configuration that was read satisfies, whatever the document: a well-formedness
  predicate for each section, a lemma for each reader, and their combination for the whole
  configuration, with the endpoint namespace, the subscribed keys and the alarm budget.
\<close>

section \<open>Well-formed sections\<close>

definition wf_assignment :: "AccessAssignment \<Rightarrow> bool" where
  "wf_assignment a \<longleftrightarrow> aa_asg a \<noteq> [] \<and> (aa_asl a = 0 \<or> aa_asl a = 1)"

definition wf_texts :: "(string, 'v) omap \<Rightarrow> bool" where
  "wf_texts m \<longleftrightarrow> omap_wf m \<and> omap_find m [] = None"

definition wf_watch :: "AccessWatchConfig \<Rightarrow> bool" where
  "wf_watch w \<longleftrightarrow> 100 \<le> aw_intervalMs w \<and> aw_intervalMs w \<le> 60000 \<and> aw_settleMs w \<le> 60000"

definition wf_defaults :: "AccessDefaultsConfig \<Rightarrow> bool" where
  "wf_defaults d \<longleftrightarrow> wf_assignment (ad_pv d) \<and> wf_assignment (ad_rpc d) \<and> wf_assignment (ad_adminRead d)
     \<and> wf_assignment (ad_adminWrite d)"

definition wf_access :: "AccessConfig \<Rightarrow> bool" where
  "wf_access c \<longleftrightarrow> wf_texts (ac_macros c) \<and> wf_watch (ac_watch c) \<and> wf_defaults (ac_defaults c)
     \<and> (if ac_enabled c then is_absolute (ac_file c) else ac_file c = [] \<and> ac_macros c = [])"

definition wf_route :: "RouteConfig \<Rightarrow> bool" where
  "wf_route r \<longleftrightarrow> rt_key r \<noteq> []"

definition wf_confirm :: "ConfirmConfig \<Rightarrow> bool" where
  "wf_confirm c \<longleftrightarrow> cf_key c \<noteq> [] \<and> 0 < cf_timeoutMs c \<and> cf_timeoutMs c \<le> 300000"

definition wf_redis :: "RedisConfig \<Rightarrow> bool" where
  "wf_redis r \<longleftrightarrow> rd_host r \<noteq> [] \<and> rd_port r \<noteq> 0 \<and> rd_workers r \<noteq> 0 \<and> rd_workers r \<le> 256
     \<and> rd_readers r \<noteq> 0 \<and> rd_readers r \<le> 256
     \<and> (rd_readerProbeMs r = 0 \<or> 100 \<le> rd_readerProbeMs r \<and> rd_readerProbeMs r \<le> 60000)"

definition opt_finite :: "fp option \<Rightarrow> bool" where
  "opt_finite x \<longleftrightarrow> (case x of None \<Rightarrow> True | Some v \<Rightarrow> fp_finite v)"

definition wf_limit :: "LimitConfig \<Rightarrow> bool" where
  "wf_limit l \<longleftrightarrow> opt_finite (lc_low l) \<and> opt_finite (lc_high l)
     \<and> (case (lc_low l, lc_high l) of (Some lo, Some hi) \<Rightarrow> fp_le lo hi | _ \<Rightarrow> True)"

definition wf_metadata :: "MetadataConfig \<Rightarrow> bool" where
  "wf_metadata m \<longleftrightarrow> wf_limit (md_display m) \<and> wf_limit (md_control m) \<and> opt_finite (md_minStep m)
     \<and> (case md_minStep m of None \<Rightarrow> True | Some s \<Rightarrow> fp_le (Fin 0) s)"

definition thresholds :: "AlarmConfig \<Rightarrow> fp list" where
  "thresholds a = map the (filter (\<lambda>t. t \<noteq> None) [al_lowAlarm a, al_lowWarning a, al_highWarning a, al_highAlarm a])"

definition wf_alarm :: "AlarmConfig \<Rightarrow> bool" where
  "wf_alarm a \<longleftrightarrow> list_all fp_finite (thresholds a) \<and> sorted_wrt fp_le (thresholds a)
     \<and> fp_finite (al_hysteresis a) \<and> fp_le (Fin 0) (al_hysteresis a)"

definition wf_transform :: "LinearTransformConfig \<Rightarrow> bool" where
  "wf_transform t \<longleftrightarrow> fp_finite (tr_scale t) \<and> fp_finite (tr_offset t) \<and> \<not> fp_eq (tr_scale t) (Fin 0)
     \<and> fp_finite (fp_div binary64 (Fin 1) (tr_scale t))"

fun value_type :: "TypedValue \<Rightarrow> (PrimitiveType \<times> Shape) option" where
  "value_type TVNone = None"
| "value_type (TVBool _) = Some (Boolean, Scalar)"
| "value_type (TVI8 _) = Some (Int8, Scalar)"
| "value_type (TVU8 _) = Some (UInt8, Scalar)"
| "value_type (TVI16 _) = Some (Int16, Scalar)"
| "value_type (TVU16 _) = Some (UInt16, Scalar)"
| "value_type (TVI32 _) = Some (Int32, Scalar)"
| "value_type (TVU32 _) = Some (UInt32, Scalar)"
| "value_type (TVI64 _) = Some (Int64, Scalar)"
| "value_type (TVU64 _) = Some (UInt64, Scalar)"
| "value_type (TVF32 _) = Some (Float32, Scalar)"
| "value_type (TVF64 _) = Some (Float64, Scalar)"
| "value_type (TVString _) = Some (String, Scalar)"
| "value_type (TVI8s _) = Some (Int8, Array)"
| "value_type (TVU8s _) = Some (UInt8, Array)"
| "value_type (TVI16s _) = Some (Int16, Array)"
| "value_type (TVU16s _) = Some (UInt16, Array)"
| "value_type (TVI32s _) = Some (Int32, Array)"
| "value_type (TVU32s _) = Some (UInt32, Array)"
| "value_type (TVI64s _) = Some (Int64, Array)"
| "value_type (TVU64s _) = Some (UInt64, Array)"
| "value_type (TVF32s _) = Some (Float32, Array)"
| "value_type (TVF64s _) = Some (Float64, Array)"

definition initial_matches :: "PrimitiveType \<Rightarrow> Shape \<Rightarrow> TypedValue \<Rightarrow> bool" where
  "initial_matches type shape v \<longleftrightarrow> v = TVNone \<or> value_type v = Some (type, shape)"

definition wf_pv :: "PVConfig \<Rightarrow> bool" where
  "wf_pv pv \<longleftrightarrow> pv_name pv \<noteq> [] \<and> [] \<notin> set (pv_aliases pv)
     \<and> wf_route (pv_read pv) \<and> (case pv_write pv of None \<Rightarrow> pv_confirm pv = None | Some w \<Rightarrow> wf_route w)
     \<and> (case pv_confirm pv of None \<Rightarrow> True | Some c \<Rightarrow> wf_confirm c)
     \<and> wf_metadata (pv_metadata pv) \<and> wf_alarm (pv_alarms pv)
     \<and> (case pv_transform pv of None \<Rightarrow> True | Some t \<Rightarrow> wf_transform t \<and> isFloatingPointType (pv_type pv))
     \<and> initial_matches (pv_type pv) (pv_shape pv) (pv_initialValue pv)
     \<and> (case pv_access pv of None \<Rightarrow> True | Some a \<Rightarrow> wf_assignment a)
     \<and> sh_staleAfterMs (pv_sourceHealth pv) \<le> 86400000
     \<and> pv_maxFrameBytes pv \<noteq> 0 \<and> pv_maxFrameBytes pv \<le> 1024 * 1024 * 1024 \<and> pv_maxFrameGap pv \<le> 2147483646
     \<and> (if pv_shape pv = Array then isArrayElementTypeSupported (pv_type pv) \<and> \<not> has_thresholds (pv_alarms pv) else True)
     \<and> (if isNumericType (pv_type pv) then True else \<not> has_limits (pv_metadata pv) \<and> \<not> has_thresholds (pv_alarms pv))
     \<and> (if pv_kind pv = NTNDArray then pv_type pv = UInt8 \<and> pv_shape pv = Array else True)"

definition wf_rpc :: "RpcServiceConfig \<Rightarrow> bool" where
  "wf_rpc s \<longleftrightarrow> rs_endpoint s \<noteq> [] \<and> rs_service s \<noteq> []
     \<and> 1 \<le> rs_discoveryTimeoutMs s \<and> rs_discoveryTimeoutMs s \<le> 300000
     \<and> 1 \<le> rs_timeoutMs s \<and> rs_timeoutMs s \<le> 300000
     \<and> 100 \<le> rs_retryIntervalMs s \<and> rs_retryIntervalMs s \<le> 300000
     \<and> (case rs_access s of None \<Rightarrow> True | Some a \<Rightarrow> wf_assignment a)"

definition in_range :: "'a::len word \<Rightarrow> nat \<Rightarrow> nat \<Rightarrow> bool" where
  "in_range w lo hi \<longleftrightarrow> lo \<le> unat w \<and> unat w \<le> hi"

definition wf_discovery :: "DiscoveryConfig \<Rightarrow> bool" where
  "wf_discovery d \<longleftrightarrow> in_range (dc_timeoutMs d) 1 300000 \<and> in_range (dc_maxHoldoffMs d) 0 60000
     \<and> in_range (dc_maxRecords d) 1 1000000 \<and> in_range (dc_maxBytes d) 1024 (2 ^ 30)"

definition wf_limits :: "OperationLimitsConfig \<Rightarrow> bool" where
  "wf_limits l \<longleftrightarrow> in_range (ol_writeWorkers l) 1 64 \<and> in_range (ol_queuedWritesPerPV l) 1 4096
     \<and> in_range (ol_queuedWriteBytes l) 1024 (2 ^ 30) \<and> in_range (ol_rpcWorkers l) 1 64
     \<and> in_range (ol_queuedRpcPerMethod l) 1 4096 \<and> in_range (ol_queuedRpcBytes l) 1024 (2 ^ 30)
     \<and> in_range (ol_maxPayloadBytes l) 1 (2 ^ 30) \<and> in_range (ol_alarmQueueEntries l) 1 1000000
     \<and> in_range (ol_alarmStateBytes l) 1024 (2 ^ 30)
     \<and> 1024 * unat (ol_alarmQueueEntries l) \<le> unat (ol_alarmStateBytes l)
     \<and> (case ol_operationTimeoutMs l of None \<Rightarrow> True | Some t \<Rightarrow> in_range t 1 300000)"

section \<open>Well-formed configurations\<close>

definition subscribed_keys :: "PVConfig \<Rightarrow> (string \<times> string) list" where
  "subscribed_keys pv = read_key pv # (case confirm_key pv of None \<Rightarrow> [] | Some k \<Rightarrow> [k])"

definition backends_resolved :: "RedisBackendConfigs \<Rightarrow> PVConfig \<Rightarrow> bool" where
  "backends_resolved bs pv \<longleftrightarrow> rt_backend (pv_read pv) \<in> fst ` set bs
     \<and> (case pv_write pv of None \<Rightarrow> True | Some w \<Rightarrow> rt_backend w \<in> fst ` set bs)
     \<and> (case pv_confirm pv of None \<Rightarrow> True | Some c \<Rightarrow> cf_backend c \<in> fst ` set bs)"

definition alarm_cost :: "ServerConfig \<Rightarrow> PVConfig \<Rightarrow> nat" where
  "alarm_cost server pv = 1024 + 2 * length (fullPVName server pv)"

definition wf_config :: "AppConfig \<Rightarrow> bool" where
  "wf_config c \<longleftrightarrow> cfg_schemaVersion c = 1 \<and> sv_instance (cfg_server c) \<noteq> []
     \<and> wf_access (cfg_access c) \<and> wf_discovery (cfg_discovery c) \<and> wf_limits (cfg_limits c)
     \<and> cfg_redisBackends c \<noteq> [] \<and> wf_texts (cfg_redisBackends c) \<and> list_all (\<lambda>e. wf_redis (snd e)) (cfg_redisBackends c)
     \<and> as_stream (cfg_alarms c) \<noteq> [] \<and> as_backend (cfg_alarms c) \<in> fst ` set (cfg_redisBackends c)
     \<and> list_all wf_pv (cfg_pvs c) \<and> list_all (backends_resolved (cfg_redisBackends c)) (cfg_pvs c)
     \<and> list_all (\<lambda>pv. (pv_access pv \<noteq> None) = ac_enabled (cfg_access c)) (cfg_pvs c)
     \<and> list_all wf_rpc (cfg_rpcServices c)
     \<and> list_all (\<lambda>s. (rs_access s \<noteq> None) = ac_enabled (cfg_access c)) (cfg_rpcServices c)
     \<and> (cfg_pvs c \<noteq> [] \<or> cfg_rpcServices c \<noteq> [])
     \<and> distinct (concat (map subscribed_keys (cfg_pvs c)))
     \<and> (\<exists>es. configuredEndpoints c = Inr es)
     \<and> 1024 * unat (ol_alarmQueueEntries (cfg_limits c)) + sum_list (map (alarm_cost (cfg_server c)) (cfg_pvs c))
         \<le> unat (ol_alarmStateBytes (cfg_limits c))"

section \<open>Lemmas on the sections\<close>

lemma fmap_res_eq_Inr [res_simps]: "fmap_res f r = Inr y \<longleftrightarrow> (\<exists>x. r = Inr x \<and> y = f x)"
  by (auto simp: fmap_res_def res_simps)

lemma fp_le_iff_not_less: "fp_finite a \<Longrightarrow> fp_finite b \<Longrightarrow> fp_le a b \<longleftrightarrow> \<not> fp_less b a"
  by (cases a; cases b) (auto simp: fp_finite_def fp_le_def)

lemma wf_default_assignment: "wf_assignment default_assignment"
  by (simp add: wf_assignment_def default_assignment_def)

lemma parseAccessAssignment_wf: "parseAccessAssignment Y n path = Inr a \<Longrightarrow> wf_assignment a"
  by (auto simp: parseAccessAssignment_def wf_assignment_def res_simps)

lemma optional_assignment:
  "optional node (\<lambda>n. parseAccessAssignment Y n path) initial = Inr a \<Longrightarrow> wf_assignment initial \<Longrightarrow> wf_assignment a"
  by (erule optional_rule) (auto intro: parseAccessAssignment_wf)

lemma wf_texts_assign: "wf_texts m \<Longrightarrow> k \<noteq> [] \<Longrightarrow> wf_texts (omap_assign k v m)"
  by (auto simp: wf_texts_def omap_simps)

lemma wf_texts_emplace: "wf_texts m \<Longrightarrow> k \<noteq> [] \<Longrightarrow> wf_texts (omap_emplace k v m)"
  by (auto simp: wf_texts_def omap_simps)

lemma wf_texts_Nil [simp]: "wf_texts []"
  by (simp add: wf_texts_def)

lemma parse_texts_wf: "parse_texts Y n path k e = Inr m \<Longrightarrow> wf_texts m"
  unfolding parse_texts_def
  by (erule efold_invariant) (auto simp: res_simps intro: wf_texts_assign)

lemma parse_watch_wf: "parse_watch Y initial path n = Inr w \<Longrightarrow> wf_watch w"
  by (auto simp: parse_watch_def wf_watch_def res_simps)

lemma parse_defaults_wf: "parse_defaults Y d path n = Inr d' \<Longrightarrow> wf_defaults d \<Longrightarrow> wf_defaults d'"
  by (auto simp: parse_defaults_def wf_defaults_def res_simps intro: optional_assignment)

lemma lexically_normal_absolute: "is_absolute (lexically_normal p)"
  by (simp add: lexically_normal_def is_absolute_def Let_def)

lemma default_access_wf: "wf_access default_access"
  by (simp add: wf_access_def default_access_def wf_watch_def wf_defaults_def wf_default_assignment)

lemma parseAccessConfig_wf:
  assumes "parseAccessConfig H Y maybe directory path = Inr c"
  shows "wf_access c"
proof (cases maybe)
  case None
  with assms show ?thesis by (simp add: parseAccessConfig_def default_access_wf)
next
  case (Some node)
  with assms obtain enabled filename macros watch defaults where
    macros: "optional (y_get Y node ''macros'') (\<lambda>n. ebind (requireMap Y n (path @ ''.macros'')) (\<lambda>m.
      parse_texts Y m (path @ ''.macros'') ''.<name>'' ''macro name must not be empty'')) (ac_macros default_access) = Inr macros"
    and watch: "optional (y_get Y node ''watch'') (parse_watch Y (ac_watch default_access) path) (ac_watch default_access) = Inr watch"
    and defaults: "optional (y_get Y node ''defaults'') (parse_defaults Y (ac_defaults default_access) path)
      (ac_defaults default_access) = Inr defaults"
    and c: "c = \<lparr>ac_enabled = enabled, ac_file = filename, ac_macros = macros, ac_watch = watch, ac_defaults = defaults\<rparr>"
    and named: "if enabled then is_absolute filename else filename = [] \<and> macros = []"
    by (auto simp: parseAccessConfig_def res_simps Let_def lexically_normal_absolute split: if_splits)
  have base: "wf_texts (ac_macros default_access)" "wf_watch (ac_watch default_access)" "wf_defaults (ac_defaults default_access)"
    using default_access_wf by (simp_all add: wf_access_def)
  have "wf_texts macros"
    by (rule optional_rule [OF macros]) (auto simp: base res_simps dest: parse_texts_wf)
  moreover have "wf_watch watch" by (rule optional_rule [where P = wf_watch, OF watch base(2)]) (rule parse_watch_wf)
  moreover have "wf_defaults defaults"
    by (rule optional_rule [where P = wf_defaults, OF defaults base(3)]) (blast intro: parse_defaults_wf base(3))
  ultimately show ?thesis using named by (auto simp: wf_access_def c)
qed

lemma parseRoute_wf: "parseRoute Y n path = Inr r \<Longrightarrow> wf_route r"
  by (auto simp: parseRoute_def wf_route_def res_simps)

lemma parseConfirm_wf: "parseConfirm Y n path = Inr c \<Longrightarrow> wf_confirm c"
  by (auto simp: parseConfirm_def wf_confirm_def res_simps)

lemma parseRedisConfig_wf: "parseRedisConfig H Y n path dir = Inr r \<Longrightarrow> wf_redis r"
  by (auto simp: parseRedisConfig_def wf_redis_def res_simps linorder_not_less)

lemma resolveBackendAlias_known:
  assumes "resolveBackendAlias alias path bs legacy = Inr b"
  shows "b \<in> fst ` set bs"
proof (cases "alias = []")
  case True
  with assms show ?thesis by (cases bs) (auto simp: resolveBackendAlias_def split: if_splits)
next
  case False
  with assms have "omap_find bs b \<noteq> None" by (auto simp: resolveBackendAlias_def Let_def split: if_splits)
  then show ?thesis by (auto simp: map_of_eq_None_iff)
qed

lemma optional_double:
  "optional node (\<lambda>n. fmap_res Some (parse_double Y n path)) initial = Inr t \<Longrightarrow> opt_finite initial \<Longrightarrow> opt_finite t"
  by (erule optional_rule) (auto simp: res_simps opt_finite_def dest: parse_float_finite)

lemma optional_finite:
  "optional node (\<lambda>n. parse_double Y n path) initial = Inr t \<Longrightarrow> fp_finite initial \<Longrightarrow> fp_finite t"
  by (erule optional_rule) (auto dest: parse_float_finite)

lemma default_limit_wf: "wf_limit default_limit"
  by (simp add: wf_limit_def default_limit_def opt_finite_def)

lemma parseLimitConfig_wf:
  assumes "parseLimitConfig Y maybe l path ctl = Inr l'" "wf_limit l"
  shows "wf_limit l'"
proof (cases maybe)
  case None
  with assms show ?thesis by (simp add: parseLimitConfig_def)
next
  case (Some n)
  with assms(1) have fin: "opt_finite (lc_low l')" "opt_finite (lc_high l')"
    and ord: "\<And>a b. lc_low l' = Some a \<Longrightarrow> lc_high l' = Some b \<Longrightarrow> \<not> fp_less b a"
    using assms(2) by (auto simp: parseLimitConfig_def res_simps wf_limit_def dest!: optional_double)
  then show ?thesis
    by (auto simp: wf_limit_def opt_finite_def fp_le_iff_not_less split: option.splits)
qed

lemma default_metadata_wf: "wf_metadata default_metadata"
  by (simp add: wf_metadata_def default_metadata_def default_limit_wf opt_finite_def)

lemma parseMetadata_wf:
  assumes "parseMetadata Y maybe path = Inr m"
  shows "wf_metadata m"
proof (cases maybe)
  case None
  with assms show ?thesis by (simp add: parseMetadata_def default_metadata_wf)
next
  case (Some n)
  note wf0 = default_metadata_wf [unfolded wf_metadata_def]
  from Some assms have "wf_limit (md_display m)" "wf_limit (md_control m)" "opt_finite (md_minStep m)"
    and neg: "case md_minStep m of Some s \<Rightarrow> \<not> fp_less s (Fin 0) | None \<Rightarrow> True"
    using wf0 by (auto simp: parseMetadata_def res_simps dest!: parseLimitConfig_wf optional_double)
  then show ?thesis
    by (auto simp: wf_metadata_def opt_finite_def fp_le_iff_not_less fp_finite_def split: option.splits)
qed

text \<open>Adjacent thresholds in order are in order altogether.\<close>

lemma thresholds_ordered_sorted:
  assumes "thresholds_ordered prev ts" "\<forall>t \<in> set ts. opt_finite t" "opt_finite prev"
  shows "sorted_wrt fp_le (map the (filter (\<lambda>t. t \<noteq> None) (prev # ts)))"
  using assms
proof (induction prev ts rule: thresholds_ordered.induct)
  case (2 previous ts)
  then show ?case by (cases previous) simp_all
next
  case (3 prev t ts)
  have rest: "sorted_wrt fp_le (map the (filter (\<lambda>t. t \<noteq> None) (Some t # ts)))"
    using 3 by (cases prev) auto
  show ?case
  proof (cases prev)
    case (Some p)
    have fin: "fp_finite p" "fp_finite t" using 3 Some by (auto simp: opt_finite_def)
    have le: "fp_le p t" using 3 Some fin by (auto simp: fp_le_iff_not_less)
    have "fp_le p u" if "u \<in> set (map the (filter (\<lambda>t. t \<noteq> None) ts))" for u
    proof -
      have "fp_le t u" using rest that by auto
      moreover have "fp_finite u" using that "3.prems"(2) by (auto simp: opt_finite_def)
      ultimately show ?thesis using fp_le_trans fin le by blast
    qed
    with rest le Some show ?thesis by auto
  qed (use rest in simp)
qed simp_all

lemma default_alarm_wf: "wf_alarm default_alarm"
  by (simp add: wf_alarm_def default_alarm_def thresholds_def fp_finite_def fp_le_def)

lemma parseAlarmConfig_wf:
  assumes "parseAlarmConfig Y maybe path = Inr a"
  shows "wf_alarm a"
proof (cases maybe)
  case None
  with assms show ?thesis by (simp add: parseAlarmConfig_def default_alarm_wf)
next
  case (Some n)
  have none: "opt_finite None" by (simp add: opt_finite_def)
  have zero: "fp_finite (al_hysteresis default_alarm)" by (simp add: default_alarm_def fp_finite_def)
  from Some assms have fin: "opt_finite (al_lowAlarm a)" "opt_finite (al_lowWarning a)" "opt_finite (al_highWarning a)"
      "opt_finite (al_highAlarm a)" "fp_finite (al_hysteresis a)"
    and ord: "thresholds_ordered None [al_lowAlarm a, al_lowWarning a, al_highWarning a, al_highAlarm a]"
    and neg: "\<not> fp_less (al_hysteresis a) (Fin 0)"
    using none zero by (auto simp: parseAlarmConfig_def res_simps Let_def dest!: optional_double optional_finite)
  have "sorted_wrt fp_le (thresholds a)"
    using thresholds_ordered_sorted [OF ord] fin(1-4) none by (simp add: thresholds_def)
  moreover have "list_all fp_finite (thresholds a)"
    using fin(1-4) by (auto simp: thresholds_def opt_finite_def)
  moreover have "fp_le (Fin 0) (al_hysteresis a)"
    using fin(5) neg by (simp add: fp_le_iff_not_less fp_finite_def)
  ultimately show ?thesis using fin(5) by (simp add: wf_alarm_def)
qed

lemma parseTransform_wf: "parseTransform Y maybe path = Inr (Some t) \<Longrightarrow> wf_transform t"
  by (cases maybe)
    (auto simp: parseTransform_def res_simps wf_transform_def fp_finite_def dest!: optional_finite)

lemma parseInitialValue_matches: "parseInitialValue Y maybe type shape path = Inr v \<Longrightarrow> initial_matches type shape v"
  by (cases maybe; cases shape; cases type)
    (auto simp: parseInitialValue_def parseScalarInitial_def res_simps initial_matches_def)

lemma parse_aliases_wf: "parse_aliases Y path n = Inr as \<Longrightarrow> [] \<notin> set as"
  by (auto simp: parse_aliases_def res_simps dest: emap_set)

lemma parse_value_type_wf:
  "parse_value_type Y n path kind = Inr (type, shape, fb, fg) \<Longrightarrow>
     fb \<noteq> 0 \<and> fb \<le> 1024 * 1024 * 1024 \<and> fg \<le> 2147483646 \<and> (kind = NTNDArray \<longrightarrow> type = UInt8 \<and> shape = Array)"
  by (cases "kind = NTNDArray")
    (auto simp: parse_value_type_def res_simps linorder_not_less default_pv_def kDefaultNDArrayMaxFrameGap_def)

lemma parse_source_health_wf: "parse_source_health Y path n = Inr h \<Longrightarrow> sh_staleAfterMs h \<le> 86400000"
  by (auto simp: parse_source_health_def res_simps linorder_not_less)

lemma check_pv_eq_Inr: "check_pv pv path = Inr pv' \<longleftrightarrow> pv' = pv
    \<and> (if pv_shape pv = Array then isArrayElementTypeSupported (pv_type pv) \<and> \<not> has_thresholds (pv_alarms pv) else True)
    \<and> (if isNumericType (pv_type pv) then True else \<not> has_limits (pv_metadata pv) \<and> \<not> has_thresholds (pv_alarms pv))
    \<and> (pv_transform pv = None \<or> isFloatingPointType (pv_type pv))"
  by (auto simp: check_pv_def res_simps)

lemma parsePV_wf:
  assumes "parsePV Y node path = Inr pv"
  shows "wf_pv pv"
proof -
  from assms obtain keyNode where
    names: "pv_name pv \<noteq> []" and
    aliases: "optional (y_get Y node ''aliases'') (parse_aliases Y path) (pv_aliases default_pv) = Inr (pv_aliases pv)" and
    vtype: "parse_value_type Y node path (pv_kind pv) = Inr (pv_type pv, pv_shape pv, pv_maxFrameBytes pv, pv_maxFrameGap pv)" and
    read: "parseRoute Y keyNode (path @ ''.read'') = Inr (pv_read pv)" and
    "write": "optional (y_get Y node ''write'') (\<lambda>n. fmap_res Some (parseRoute Y n (path @ ''.write''))) None = Inr (pv_write pv)" and
    confirm: "optional (y_get Y node ''confirm'')
       (\<lambda>n. if pv_write pv = None then fail (path @ ''.confirm'') ''requires a write route''
            else fmap_res Some (parseConfirm Y n (path @ ''.confirm''))) None = Inr (pv_confirm pv)" and
    metadata: "parseMetadata Y (y_get Y node ''metadata'') (path @ ''.metadata'') = Inr (pv_metadata pv)" and
    alarms: "parseAlarmConfig Y (y_get Y node ''alarm'') (path @ ''.alarm'') = Inr (pv_alarms pv)" and
    transform: "parseTransform Y (y_get Y node ''transform'') (path @ ''.transform'') = Inr (pv_transform pv)" and
    initial: "parseInitialValue Y (y_get Y node ''initial'') (pv_type pv) (pv_shape pv) (path @ ''.initial'') = Inr (pv_initialValue pv)" and
    access: "optional (y_get Y node ''access'') (\<lambda>n. fmap_res Some (parseAccessAssignment Y n (path @ ''.access''))) None
      = Inr (pv_access pv)" and
    health: "optional (y_get Y node ''source_health'') (parse_source_health Y path) default_source_health = Inr (pv_sourceHealth pv)" and
    checked: "check_pv pv path = Inr pv"
    by (auto simp: parsePV_def res_simps check_pv_eq_Inr split: prod.splits)
  have 1: "[] \<notin> set (pv_aliases pv)"
    by (rule optional_rule [OF aliases]) (auto simp: default_pv_def dest: parse_aliases_wf)
  have 2: "case pv_write pv of None \<Rightarrow> pv_confirm pv = None | Some w \<Rightarrow> wf_route w"
  proof (cases "pv_write pv")
    case None
    have "pv_confirm pv = None" by (rule optional_rule [OF confirm]) (auto simp: None)
    with None show ?thesis by simp
  next
    case (Some w)
    have "case pv_write pv of None \<Rightarrow> True | Some w \<Rightarrow> wf_route w"
      by (rule optional_rule [OF "write"]) (auto simp: res_simps dest: parseRoute_wf)
    with Some show ?thesis by simp
  qed
  have 3: "case pv_confirm pv of None \<Rightarrow> True | Some c \<Rightarrow> wf_confirm c"
    by (rule optional_rule [OF confirm]) (auto simp: res_simps split: if_splits dest: parseConfirm_wf)
  have 4: "case pv_access pv of None \<Rightarrow> True | Some a \<Rightarrow> wf_assignment a"
    by (rule optional_rule [OF access]) (auto simp: res_simps dest: parseAccessAssignment_wf)
  have 5: "sh_staleAfterMs (pv_sourceHealth pv) \<le> 86400000"
    by (rule optional_rule [OF health]) (auto simp: default_source_health_def dest: parse_source_health_wf)
  have 6: "case pv_transform pv of None \<Rightarrow> True | Some t \<Rightarrow> wf_transform t \<and> isFloatingPointType (pv_type pv)"
    using transform checked by (auto simp: check_pv_eq_Inr dest: parseTransform_wf split: option.split)
  show ?thesis
    unfolding wf_pv_def
    using names 1 2 3 4 5 6 parseRoute_wf [OF read] parseMetadata_wf [OF metadata] parseAlarmConfig_wf [OF alarms]
      parseInitialValue_matches [OF initial] parse_value_type_wf [OF vtype] checked
    unfolding check_pv_eq_Inr by (intro conjI) simp_all
qed

lemma parse_timeout_range:
  "parse_timeout Y n path key fallback minimum = Inr v \<Longrightarrow> minimum \<le> v \<and> v \<le> 300000"
  by (auto simp: parse_timeout_def res_simps linorder_not_less split: if_splits)

lemma parseRpcService_wf:
  assumes "parseRpcService Y n path = Inr s"
  shows "wf_rpc s"
proof -
  from assms have access: "optional (y_get Y n ''access'') (\<lambda>n. fmap_res Some (parseAccessAssignment Y n (path @ ''.access'')))
      (rs_access default_rpc_service) = Inr (rs_access s)"
    and rest: "rs_endpoint s \<noteq> []" "rs_service s \<noteq> []"
    and times: "parse_timeout Y n path ''discovery_timeout_ms'' (rs_discoveryTimeoutMs default_rpc_service) 1 = Inr (rs_discoveryTimeoutMs s)"
      "parse_timeout Y n path ''timeout_ms'' (rs_timeoutMs default_rpc_service) 1 = Inr (rs_timeoutMs s)"
      "parse_timeout Y n path ''retry_interval_ms'' (rs_retryIntervalMs default_rpc_service) 100 = Inr (rs_retryIntervalMs s)"
    by (auto simp: parseRpcService_def res_simps)
  have "case rs_access s of None \<Rightarrow> True | Some a \<Rightarrow> wf_assignment a"
    by (rule optional_rule [OF access]) (auto simp: default_rpc_service_def res_simps dest: parseAccessAssignment_wf)
  then show ?thesis
    unfolding wf_rpc_def using rest times [THEN parse_timeout_range] by blast
qed

lemma bounded_range:
  "bounded Y n path key initial low high = Inr v \<Longrightarrow> in_range v (unat low) (unat high)"
  by (auto simp: bounded_def res_simps in_range_def linorder_not_less word_le_nat_alt split: if_splits)

lemma in_range_ucast:
  assumes "in_range (v :: u64) lo hi" "hi < 2 ^ 32"
  shows "in_range (ucast v :: u32) lo hi"
proof -
  have "unat v < 2 ^ 32" using assms by (simp add: in_range_def)
  then have "unat (ucast v :: u32) = unat v" by (simp add: unsigned_ucast_eq take_bit_nat_eq_self)
  with assms(1) show ?thesis by (simp add: in_range_def)
qed

lemma default_discovery_wf: "wf_discovery default_discovery"
  by (simp add: wf_discovery_def default_discovery_def in_range_def)

lemma parseDiscovery_wf:
  assumes "parseDiscovery H Y maybe = Inr d"
  shows "wf_discovery d"
proof (cases maybe)
  case None
  with assms show ?thesis by (simp add: parseDiscovery_def default_discovery_wf)
next
  case (Some n)
  with assms show ?thesis
    by (auto simp: parseDiscovery_def res_simps wf_discovery_def in_range_ucast dest!: bounded_range)
qed

lemma default_limits_wf: "wf_limits default_limits"
  by (simp add: wf_limits_def default_limits_def in_range_def)

lemma alarm_queue_fits:
  assumes "\<not> ucast (e :: u32) > s div kAlarmQueueEntryBytes"
  shows "1024 * unat e \<le> unat s"
proof -
  have "unat e < 2 ^ 64" using unsigned_less [of e, where ?'a = nat] by simp
  then have "unat (ucast e :: u64) = unat e" by (simp add: unsigned_ucast_eq take_bit_nat_eq_self)
  then have "unat e \<le> unat (s div 1024)"
    using assms by (simp add: kAlarmQueueEntryBytes_def linorder_not_less word_le_nat_alt)
  also have "\<dots> = unat s div 1024" by (simp add: unat_div_distrib)
  finally show ?thesis by linarith
qed

lemma parseOperationLimits_wf:
  assumes "parseOperationLimits Y maybe = Inr l"
  shows "wf_limits l"
proof (cases maybe)
  case None
  with assms show ?thesis by (simp add: parseOperationLimits_def default_limits_wf)
next
  case (Some n)
  with assms obtain entries timeout where
    main: "in_range (ol_writeWorkers l) 1 64" "in_range (ol_queuedWritesPerPV l) 1 4096"
      "in_range (ol_queuedWriteBytes l) 1024 (2 ^ 30)" "in_range (ol_rpcWorkers l) 1 64"
      "in_range (ol_queuedRpcPerMethod l) 1 4096" "in_range (ol_queuedRpcBytes l) 1024 (2 ^ 30)"
      "in_range (ol_maxPayloadBytes l) 1 (2 ^ 30)" "in_range (ol_alarmQueueEntries l) 1 1000000"
      "in_range (ol_alarmStateBytes l) 1024 (2 ^ 30)"
    and queue: "\<not> ucast (ol_alarmQueueEntries l) > ol_alarmStateBytes l div kAlarmQueueEntryBytes"
    and timeout: "optional (y_get Y n ''operation_timeout_ms'')
        (\<lambda>_. fmap_res (\<lambda>v. Some (ucast v)) (bounded Y n ''root.limits'' ''operation_timeout_ms'' 0 1 300000))
        (ol_operationTimeoutMs default_limits) = Inr (ol_operationTimeoutMs l)"
    by (auto simp: parseOperationLimits_def res_simps Let_def in_range_ucast dest!: bounded_range)
  have "case ol_operationTimeoutMs l of None \<Rightarrow> True | Some t \<Rightarrow> in_range t 1 300000"
    by (rule optional_rule [OF timeout])
      (auto simp: default_limits_def res_simps in_range_ucast dest!: bounded_range)
  with main alarm_queue_fits [OF queue] show ?thesis unfolding wf_limits_def by blast
qed

section \<open>Lemmas on the whole configuration\<close>

lemma add_backend_inv:
  assumes "add_backend H Y dir bs e = Inr bs'" "wf_texts bs" "list_all (\<lambda>e. wf_redis (snd e)) bs"
  shows "wf_texts bs' \<and> list_all (\<lambda>e. wf_redis (snd e)) bs' \<and> bs' \<noteq> []"
proof -
  from assms(1) obtain nm c path where c: "nm \<noteq> []" "parseRedisConfig H Y (snd e) path dir = Inr c"
      "bs' = omap_emplace nm c bs"
    by (auto simp: add_backend_def res_simps split: if_splits)
  have "set (omap_emplace nm c m) \<subseteq> insert (nm, c) (set m)" for m :: "RedisBackendConfigs"
    by (induction m) (auto split: if_splits)
  moreover have "omap_emplace nm c m \<noteq> []" for m :: "RedisBackendConfigs"
    by (cases m) (auto split: if_splits)
  ultimately show ?thesis
    using c assms(2,3) parseRedisConfig_wf [OF c(2)] wf_texts_emplace [OF assms(2) c(1)]
    by (fastforce simp: list_all_iff)
qed

lemma parse_backends_wf:
  assumes "parse_backends H Y doc dir = Inr bs"
  shows "bs \<noteq> [] \<and> wf_texts bs \<and> list_all (\<lambda>e. wf_redis (snd e)) bs"
proof (cases "y_get Y doc ''redis'' = None")
  case False
  with assms obtain n c where c: "parseRedisConfig H Y n ''root.redis'' dir = Inr c" "bs = omap_emplace kDefaultRedisBackendAlias c []"
    by (auto simp: parse_backends_def Let_def res_simps split: if_splits)
  then show ?thesis
    using parseRedisConfig_wf [OF c(1)] wf_texts_emplace [of "[] :: RedisBackendConfigs" kDefaultRedisBackendAlias c]
    by (simp add: kDefaultRedisBackendAlias_def)
next
  case True
  with assms obtain n where n: "y_entries Y n \<noteq> []" "efold (add_backend H Y dir) [] (y_entries Y n) = Inr bs"
    by (auto simp: parse_backends_def Let_def res_simps split: if_splits)
  then obtain e es bs1 where e: "y_entries Y n = e # es" "add_backend H Y dir [] e = Inr bs1"
      "efold (add_backend H Y dir) bs1 es = Inr bs"
    by (cases "y_entries Y n") (auto simp: res_simps)
  have "wf_texts bs1 \<and> list_all (\<lambda>e. wf_redis (snd e)) bs1 \<and> bs1 \<noteq> []"
    using add_backend_inv [OF e(2)] by simp
  then have "wf_texts bs \<and> list_all (\<lambda>e. wf_redis (snd e)) bs \<and> bs \<noteq> []"
    by (rule efold_invariant [OF e(3)]) (blast dest: add_backend_inv)
  then show ?thesis by blast
qed

lemma parse_alarm_stream_wf:
  "parse_alarm_stream Y doc bs legacy = Inr a \<Longrightarrow> as_stream a \<noteq> [] \<and> as_backend a \<in> fst ` set bs"
  by (auto simp: parse_alarm_stream_def res_simps dest: resolveBackendAlias_known)

lemma resolve_pv_props:
  assumes "resolve_pv bs legacy path pv = Inr pv'" "wf_pv pv"
  shows "wf_pv pv' \<and> backends_resolved bs pv' \<and> pv_access pv' = pv_access pv"
proof -
  from assms(1) obtain r w c where
    r: "resolveBackendAlias (rt_backend (pv_read pv)) (path @ ''.read.backend'') bs legacy = Inr r" and
    w: "(case pv_write pv of None \<Rightarrow> Inr None | Some w \<Rightarrow> fmap_res (\<lambda>b. Some (w\<lparr>rt_backend := b\<rparr>))
         (resolveBackendAlias (rt_backend w) (path @ ''.write.backend'') bs legacy)) = Inr w" and
    c: "(case pv_confirm pv of None \<Rightarrow> Inr None | Some c \<Rightarrow> fmap_res (\<lambda>b. Some (c\<lparr>cf_backend := b\<rparr>))
         (resolveBackendAlias (cf_backend c) (path @ ''.confirm.backend'') bs legacy)) = Inr c" and
    pv': "pv' = pv\<lparr>pv_read := (pv_read pv)\<lparr>rt_backend := r\<rparr>, pv_write := w, pv_confirm := c\<rparr>"
    by (auto simp: resolve_pv_def res_simps)
  have "(w = None) = (pv_write pv = None)" "(c = None) = (pv_confirm pv = None)"
    using w c by (auto simp: res_simps split: option.splits)
  moreover have "case w of None \<Rightarrow> True | Some x \<Rightarrow> rt_backend x \<in> fst ` set bs \<and> wf_route x"
    using w assms(2) by (auto simp: res_simps wf_pv_def wf_route_def dest: resolveBackendAlias_known split: option.splits)
  moreover have "case c of None \<Rightarrow> True | Some x \<Rightarrow> cf_backend x \<in> fst ` set bs \<and> wf_confirm x"
    using c assms(2) by (auto simp: res_simps wf_pv_def wf_confirm_def dest: resolveBackendAlias_known split: option.splits)
  ultimately show ?thesis
    using assms(2) resolveBackendAlias_known [OF r] unfolding pv'
    by (simp add: wf_pv_def backends_resolved_def wf_route_def split: option.splits)
qed

lemma subscribe_keys:
  "subscribe path pv keys = Inr keys' \<Longrightarrow> distinct keys \<Longrightarrow>
     distinct keys' \<and> set keys' = set (subscribed_keys pv) \<union> set keys
       \<and> distinct (subscribed_keys pv) \<and> set (subscribed_keys pv) \<inter> set keys = {}"
  by (auto simp: subscribe_def subscribed_keys_def res_simps split: option.splits if_splits)

lemma wf_pv_access: "wf_pv pv \<Longrightarrow> wf_assignment a \<Longrightarrow> wf_pv (pv\<lparr>pv_access := Some a\<rparr>)"
  by (auto simp: wf_pv_def split: option.splits)

text \<open>The invariant of the loop over the PVs.\<close>

definition loop_inv :: "AccessConfig \<Rightarrow> ServerConfig \<Rightarrow> RedisBackendConfigs \<Rightarrow> EndpointRegistry \<Rightarrow> pv_loop \<Rightarrow> bool" where
  "loop_inv access server bs es0 l \<longleftrightarrow> list_all wf_pv (pl_pvs l) \<and> list_all (backends_resolved bs) (pl_pvs l)
     \<and> list_all (\<lambda>pv. (pv_access pv \<noteq> None) = ac_enabled access) (pl_pvs l)
     \<and> distinct (pl_keys l) \<and> distinct (concat (map subscribed_keys (pl_pvs l)))
     \<and> set (concat (map subscribed_keys (pl_pvs l))) = set (pl_keys l)
     \<and> efold (\<lambda>es (index, pv). addPV server pv (index_path ''root.pvs'' index) es) es0 (enumerate 0 (pl_pvs l))
         = Inr (pl_endpoints l)"

lemma add_pv_node_inv:
  assumes "add_pv_node Y access server bs legacy l (length (pl_pvs l), n) = Inr l'"
    and "loop_inv access server bs es0 l" "wf_access access"
  shows "loop_inv access server bs es0 l' \<and> length (pl_pvs l') = Suc (length (pl_pvs l))"
proof -
  define path where "path = index_path ''root.pvs'' (length (pl_pvs l))"
  define assign where "assign pv = (if pv_access pv = None \<and> ac_enabled access
      then pv\<lparr>pv_access := Some (ad_pv (ac_defaults access))\<rparr> else pv)" for pv :: PVConfig
  from assms(1) obtain pv resolved es keys where
    pv: "parsePV Y n path = Inr pv" "\<not> (pv_access pv \<noteq> None \<and> \<not> ac_enabled access)"
      "resolve_pv bs legacy path (assign pv) = Inr resolved"
    and es: "addPV server resolved path (pl_endpoints l) = Inr es"
    and keys: "subscribe path resolved (pl_keys l) = Inr keys"
    and l': "l' = \<lparr>pl_endpoints = es, pl_keys = keys, pl_pvs = pl_pvs l @ [resolved]\<rparr>"
    by (auto simp: add_pv_node_def Let_def res_simps path_def assign_def)
  have "wf_pv (assign pv)"
    using wf_pv_access [OF parsePV_wf [OF pv(1)]] parsePV_wf [OF pv(1)] assms(3)
    by (simp add: assign_def wf_access_def wf_defaults_def)
  from resolve_pv_props [OF pv(3) this] have r: "wf_pv resolved" "backends_resolved bs resolved"
      "(pv_access resolved \<noteq> None) = ac_enabled access"
    using pv(2) by (auto simp: assign_def)
  have inv: "distinct (pl_keys l)" using assms(2) by (simp add: loop_inv_def)
  note k = subscribe_keys [OF keys inv]
  have "distinct (concat (map subscribed_keys (pl_pvs l @ [resolved])))"
    using k assms(2) by (auto simp: loop_inv_def)
  moreover have "set (concat (map subscribed_keys (pl_pvs l @ [resolved]))) = set keys"
    using k assms(2) by (auto simp: loop_inv_def)
  moreover have "efold (\<lambda>es (index, pv). addPV server pv (index_path ''root.pvs'' index) es) es0
      (enumerate 0 (pl_pvs l @ [resolved])) = Inr es"
    using assms(2) es by (simp add: loop_inv_def enumerate_append_eq efold_append path_def)
  ultimately show ?thesis using assms(2) r k by (simp add: l' loop_inv_def)
qed

lemma pv_loop_inv:
  assumes "efold (add_pv_node Y access server bs legacy) l (enumerate (length (pl_pvs l)) ns) = Inr l'"
    and "loop_inv access server bs es0 l" "wf_access access"
  shows "loop_inv access server bs es0 l'"
  using assms
proof (induction ns arbitrary: l)
  case (Cons n ns)
  then obtain l1 where l1: "add_pv_node Y access server bs legacy l (length (pl_pvs l), n) = Inr l1"
      "efold (add_pv_node Y access server bs legacy) l1 (enumerate (Suc (length (pl_pvs l))) ns) = Inr l'"
    by (auto simp: res_simps)
  from add_pv_node_inv [OF l1(1) Cons.prems(2,3)] have "loop_inv access server bs es0 l1"
      "length (pl_pvs l1) = Suc (length (pl_pvs l))" by auto
  with Cons.IH [of l1] l1(2) Cons.prems(3) show ?case by simp
qed simp

lemma parse_pvs_wf:
  assumes "parse_pvs Y doc access server bs legacy = Inr pvs" "wf_access access"
  shows "\<exists>es0 l. addDiagnostics server [] = Inr es0 \<and> loop_inv access server bs es0 l \<and> pl_pvs l = pvs"
proof -
  from assms(1) obtain ns es0 l where l: "addDiagnostics server [] = Inr es0"
      "efold (add_pv_node Y access server bs legacy) \<lparr>pl_endpoints = es0, pl_keys = [], pl_pvs = []\<rparr> (enumerate 0 ns) = Inr l"
      "pvs = pl_pvs l"
    by (auto simp: parse_pvs_def res_simps)
  have "loop_inv access server bs es0 \<lparr>pl_endpoints = es0, pl_keys = [], pl_pvs = []\<rparr>"
    by (simp add: loop_inv_def)
  with pv_loop_inv [of Y access server bs legacy "\<lparr>pl_endpoints = es0, pl_keys = [], pl_pvs = []\<rparr>" ns l es0] l assms(2)
  show ?thesis by auto
qed

lemma parse_rpc_entry_wf:
  assumes "parse_rpc_entry Y access e = Inr s" "wf_access access"
  shows "wf_rpc s \<and> (rs_access s \<noteq> None) = ac_enabled access"
proof -
  from assms(1) obtain s0 path where s0: "parseRpcService Y (snd e) path = Inr s0"
      "ac_enabled access \<or> rs_access s0 = None"
      "s = (if rs_access s0 = None \<and> ac_enabled access
        then s0\<lparr>rs_access := Some (ad_rpc (ac_defaults access))\<rparr> else s0)"
    by (auto simp: parse_rpc_entry_def Let_def res_simps)
  then show ?thesis
    using parseRpcService_wf [OF s0(1)] assms(2) by (auto simp: wf_rpc_def wf_access_def wf_defaults_def)
qed

lemma parse_rpc_services_wf:
  assumes "parse_rpc_services Y doc access = Inr ss" "wf_access access"
  shows "list_all wf_rpc ss \<and> list_all (\<lambda>s. (rs_access s \<noteq> None) = ac_enabled access) ss"
proof -
  have "\<forall>s \<in> set ss. wf_rpc s \<and> (rs_access s \<noteq> None) = ac_enabled access"
  proof (rule optional_rule [OF assms(1) [unfolded parse_rpc_services_def]])
    fix n v
    assume "ebind (requireSequence Y n ''root.rpc_services'') (\<lambda>services.
        emap (parse_rpc_entry Y access) (enumerate 0 (y_items Y services))) = Inr v"
    then have v: "emap (parse_rpc_entry Y access) (enumerate 0 (y_items Y n)) = Inr v" by (auto simp: res_simps)
    show "\<forall>s \<in> set v. wf_rpc s \<and> (rs_access s \<noteq> None) = ac_enabled access"
      using emap_set [OF v] parse_rpc_entry_wf [OF _ assms(2)] by blast
  qed simp
  then show ?thesis by (auto simp: list_all_iff)
qed

text \<open>The budget: nothing wraps around, and what is left pays for the PVs.\<close>

lemma spend_alarm_bytes_exact:
  assumes "spend_alarm_bytes server b pv = Inr b'"
  shows "unat b = unat b' + alarm_cost server pv"
proof -
  let ?n = "length (fullPVName server pv)"
  have le: "1024 \<le> b" "?n \<le> unat ((b - 1024) div 2)" and b': "b' = b - (1024 + 2 * of_nat ?n)"
    using assms by (auto simp: spend_alarm_bytes_def Let_def linorder_not_less split: if_splits)
  have b: "unat (b - 1024) = unat b - 1024" using le(1) by (simp add: unat_sub)
  have "?n \<le> (unat b - 1024) div 2" using le(2) b by (simp add: unat_div_distrib)
  moreover have "1024 \<le> unat b" using le(1) by (simp add: word_le_nat_alt)
  ultimately have cost: "alarm_cost server pv \<le> unat b" unfolding alarm_cost_def by linarith
  then have small: "alarm_cost server pv < 2 ^ 64" using unsigned_less [of b, where ?'a = nat] by (simp add: order_le_less_trans)
  have "1024 + 2 * of_nat ?n = (of_nat (alarm_cost server pv) :: u64)" by (simp add: alarm_cost_def)
  then have "unat (1024 + 2 * of_nat ?n :: u64) = alarm_cost server pv"
    using small unat_word_of_nat [of "alarm_cost server pv", where 'a = 64] by simp
  moreover then have "1024 + 2 * of_nat ?n \<le> b" using cost by (simp add: word_le_nat_alt)
  ultimately show ?thesis using cost by (simp add: b' unat_sub)
qed

lemma spend_all_alarm_bytes:
  "efold (spend_alarm_bytes server) b pvs = Inr b' \<Longrightarrow> unat b = unat b' + sum_list (map (alarm_cost server) pvs)"
  by (induction pvs arbitrary: b) (auto simp: res_simps dest!: spend_alarm_bytes_exact)

lemma check_alarm_budget_exact:
  assumes "check_alarm_budget limits server pvs = Inr b" "wf_limits limits"
  shows "1024 * unat (ol_alarmQueueEntries limits) + sum_list (map (alarm_cost server) pvs) \<le> unat (ol_alarmStateBytes limits)"
proof -
  let ?e = "ol_alarmQueueEntries limits" and ?s = "ol_alarmStateBytes limits"
  have fit: "1024 * unat ?e \<le> unat ?s" "unat ?e \<le> 1000000" using assms(2) by (simp_all add: wf_limits_def in_range_def)
  have "ucast ?e * kAlarmQueueEntryBytes = (of_nat (1024 * unat ?e) :: u64)"
    by (simp add: kAlarmQueueEntryBytes_def mult.commute)
  then have q: "unat (ucast ?e * kAlarmQueueEntryBytes :: u64) = 1024 * unat ?e"
    using fit(2) unat_word_of_nat [of "1024 * unat ?e", where 'a = 64] by simp
  then have "unat (?s - ucast ?e * kAlarmQueueEntryBytes) = unat ?s - 1024 * unat ?e"
    using fit(1) by (simp add: unat_sub word_le_nat_alt)
  then show ?thesis
    using spend_all_alarm_bytes [OF assms(1) [unfolded check_alarm_budget_def]] fit(1) by linarith
qed

lemma parse_server_wf: "parse_server Y doc = Inr s \<Longrightarrow> sv_instance s \<noteq> []"
  by (auto simp: parse_server_def res_simps)

lemma configuredEndpoints_fold:
  assumes "addDiagnostics (cfg_server c) [] = Inr es0"
    and "efold (\<lambda>es (index, pv). addPV (cfg_server c) pv (index_path ''root.pvs'' index) es) es0 (enumerate 0 (cfg_pvs c)) = Inr es"
  shows "configuredEndpoints c = Inr es"
  using assms by (simp add: configuredEndpoints_def index_path_def)

section \<open>A small document\<close>

text \<open>Documents without aliases, as trees, with conversions that read decimal numbers.\<close>

datatype ytree = S string | L "ytree list" | M "(string \<times> ytree) list"

fun tree_kind :: "ytree \<Rightarrow> ykind" where
  "tree_kind (S _) = KScalar" | "tree_kind (L _) = KSequence" | "tree_kind (M _) = KMap"

fun tree_text :: "ytree \<Rightarrow> string" where
  "tree_text (S s) = s" | "tree_text _ = []"

fun tree_string :: "ytree \<Rightarrow> string + string" where
  "tree_string (S s) = Inr s" | "tree_string _ = Inl ''bad conversion''"

fun tree_number :: "nat \<Rightarrow> ytree \<Rightarrow> string + nat" where
  "tree_number bound (S s) = (if s \<noteq> [] \<and> list_all is_digit s \<and> digits_value s < bound then Inr (digits_value s)
     else Inl ''bad conversion'')"
| "tree_number bound _ = Inl ''bad conversion''"

definition tree_word :: "nat \<Rightarrow> ytree \<Rightarrow> string + 'a::len word" where
  "tree_word bound t = fmap_res word_of_nat (tree_number bound t)"

definition tree_yaml :: "ytree yaml" where
  "tree_yaml = \<lparr>y_kind = tree_kind, y_text = tree_text,
     y_items = (\<lambda>t. case t of L ts \<Rightarrow> ts | _ \<Rightarrow> []),
     y_entries = (\<lambda>t. case t of M kvs \<Rightarrow> map (\<lambda>(k, v). (S k, v)) kvs | _ \<Rightarrow> []),
     y_get = (\<lambda>t k. case t of M kvs \<Rightarrow> map_of kvs k | _ \<Rightarrow> None),
     y_string = tree_string, y_bool = (\<lambda>t. if t = S ''true'' then Inr True else if t = S ''false'' then Inr False
       else Inl ''bad conversion''),
     y_i16 = tree_word (2 ^ 15), y_u16 = tree_word (2 ^ 16), y_i32 = tree_word (2 ^ 31), y_u32 = tree_word (2 ^ 32),
     y_i64 = tree_word (2 ^ 63), y_u64 = tree_word (2 ^ 64),
     y_f32 = (\<lambda>t. fmap_res (\<lambda>n. Fin (of_nat n)) (tree_number (2 ^ 24) t)),
     y_f64 = (\<lambda>t. fmap_res (\<lambda>n. Fin (of_nat n)) (tree_number (2 ^ 53) t))\<rparr>"

definition demo_pv_node :: ytree where
  "demo_pv_node = M [(''name'', S ''p''), (''type'', S ''double''), (''shape'', S ''scalar''), (''read'', M [(''key'', S ''k'')]),
     (''alarm'', M [(''low_alarm'', S ''1''), (''high_alarm'', S ''9'')])]"

definition demo_doc :: ytree where
  "demo_doc = M [(''server'', M [(''instance'', S ''ioc'')]),
     (''redis'', M [(''base_key'', S ''b''), (''host'', S ''h''), (''port'', S ''6379'')]), (''pvs'', L [demo_pv_node])]"

definition demo_host :: host where
  "demo_host = \<lparr>h_files = (\<lambda>_. Inl ''no such file''), h_cwd = ''/etc'', h_inet4 = (\<lambda>_. True)\<rparr>"

definition demo_server :: ServerConfig where
  "demo_server = default_server\<lparr>sv_instance := ''ioc''\<rparr>"

definition demo_backends :: RedisBackendConfigs where
  "demo_backends = [(''default'', default_redis\<lparr>rd_baseKey := ''b'', rd_host := ''h''\<rparr>)]"

definition demo_parsed_pv :: PVConfig where
  "demo_parsed_pv = default_pv\<lparr>pv_name := ''p'', pv_read := \<lparr>rt_backend = [], rt_key = ''k''\<rparr>,
     pv_alarms := default_alarm\<lparr>al_lowAlarm := Some (Fin 1), al_highAlarm := Some (Fin 9)\<rparr>\<rparr>"

definition demo_resolved_pv :: PVConfig where
  "demo_resolved_pv = demo_parsed_pv\<lparr>pv_read := \<lparr>rt_backend = ''default'', rt_key = ''k''\<rparr>\<rparr>"

lemmas demo_defs = tree_yaml_def demo_doc_def demo_pv_node_def

lemmas demo_simps = demo_defs parseString_def parse_as_def rejectUnknownKeys_def requireMap_def requireNode_def
  requireSequence_def parse_unsigned_def starts_negative_def tree_word_def fmap_res_def is_digit_def digits_value_def

lemma demo_tree: "validateTree tree_yaml demo_doc path [] 0 = Inr 17"
proof -
  have "tree_size (Suc (Suc (Suc (Suc (Suc 0))))) tree_yaml demo_doc = Some 17"
    by (simp add: demo_defs children.simps keys_ok_def key_texts_def)
  from tree_size_mono [OF this, of 59] have "tree_size 64 tree_yaml demo_doc = Some 17"
    by (simp del: tree_size.simps)
  then show ?thesis using validateTree_success [of 64 tree_yaml demo_doc 17 "[]" 0 path] by simp
qed

lemma demo_parse_server: "parse_server tree_yaml demo_doc = Inr demo_server"
  by (simp add: parse_server_def demo_simps demo_server_def default_server_def)

lemma demo_parse_backends: "parse_backends demo_host tree_yaml demo_doc directory = Inr demo_backends"
  by (simp add: parse_backends_def parseRedisConfig_def parse_credential_def demo_simps default_redis_def
      kDefaultRedisBackendAlias_def demo_backends_def)

lemma demo_parse_pv: "parsePV tree_yaml demo_pv_node path = Inr demo_parsed_pv"
  by (simp add: parsePV_def demo_simps parse_value_type_def parsePrimitiveType_def parseShape_def lowerCopy_def
      to_lower_def parseRoute_def parseMetadata_def parseAlarmConfig_def parse_float_def fp_finite_def parseTransform_def
      parseInitialValue_def check_pv_def default_pv_def default_alarm_def Let_def has_thresholds_def has_limits_def
      default_metadata_def default_limit_def isNumericType_def demo_parsed_pv_def)

lemma demo_parse_pvs: "parse_pvs tree_yaml demo_doc default_access demo_server demo_backends True = Inr [demo_resolved_pv]"
proof -
  let ?c = "default_app\<lparr>cfg_server := demo_server, cfg_pvs := [demo_resolved_pv]\<rparr>"
  have "\<exists>es. configuredEndpoints ?c = Inr es"
    unfolding configured_iff
    by (simp add: served_names_def adminPVNames_def adminSuffixes_def name_ok_def versionPVName_def revisionPVName_def
        adminPVName_def fullPVNames_def fullPVName_def demo_server_def default_server_def demo_resolved_pv_def
        demo_parsed_pv_def default_pv_def)
  then obtain es0 es where "addDiagnostics demo_server [] = Inr es0"
      "addPV demo_server demo_resolved_pv (index_path ''root.pvs'' 0) es0 = Inr es"
    by (auto simp: configuredEndpoints_def index_path_def res_simps)
  moreover have "resolve_pv demo_backends True path demo_parsed_pv = Inr demo_resolved_pv" for path
    by (simp add: resolve_pv_def resolveBackendAlias_def demo_backends_def demo_parsed_pv_def demo_resolved_pv_def default_pv_def)
  moreover have "pv_access demo_parsed_pv = None" "\<not> ac_enabled default_access"
    by (simp_all add: demo_parsed_pv_def default_pv_def default_access_def)
  moreover have "subscribe path demo_resolved_pv [] = Inr [(''default'', ''k'')]" for path
    by (simp add: subscribe_def read_key_def confirm_key_def demo_resolved_pv_def demo_parsed_pv_def default_pv_def)
  moreover have "y_get tree_yaml demo_doc ''pvs'' = Some (L [demo_pv_node])"
      "y_kind tree_yaml (L [demo_pv_node]) = KSequence" "y_items tree_yaml (L [demo_pv_node]) = [demo_pv_node]"
    by (simp_all add: demo_doc_def tree_yaml_def)
  ultimately show ?thesis
    by (simp add: parse_pvs_def add_pv_node_def demo_parse_pv requireSequence_def Let_def)
qed

lemma demo_config_read: "\<exists>c. parseConfig demo_host tree_yaml demo_doc directory = Inr c"
proof -
  have "y_get tree_yaml demo_doc k = None" if "k \<notin> {''server'', ''redis'', ''pvs''}" for k
    using that by (simp add: demo_doc_def tree_yaml_def)
  then have none: "y_get tree_yaml demo_doc ''schema_version'' = None" "y_get tree_yaml demo_doc ''discovery'' = None"
      "y_get tree_yaml demo_doc ''limits'' = None" "y_get tree_yaml demo_doc ''access'' = None"
      "y_get tree_yaml demo_doc ''channelfinder'' = None" "y_get tree_yaml demo_doc ''alarms'' = None"
      "y_get tree_yaml demo_doc ''rpc_services'' = None" "y_get tree_yaml demo_doc ''PVList'' = None"
      "y_get tree_yaml demo_doc ''PVBase'' = None" "y_get tree_yaml demo_doc ''RedisBase'' = None" by auto
  have redis: "y_get tree_yaml demo_doc ''redis'' \<noteq> None" by (simp add: demo_doc_def tree_yaml_def)
  have map: "requireMap tree_yaml demo_doc ''root'' = Inr demo_doc" by (simp add: requireMap_def demo_doc_def tree_yaml_def)
  have keys: "rejectUnknownKeys tree_yaml demo_doc ''root'' [''schema_version'', ''server'', ''access'', ''redis'', ''redis_backends'',
      ''alarms'', ''channelfinder'', ''discovery'', ''limits'', ''pvs'', ''rpc_services''] = Inr ()"
    by (simp add: demo_simps)
  have budget: "\<exists>b. check_alarm_budget default_limits demo_server [demo_resolved_pv] = Inr b"
    by (simp add: check_alarm_budget_def spend_alarm_bytes_def default_limits_def kAlarmQueueEntryBytes_def fullPVName_def
        demo_server_def default_server_def demo_resolved_pv_def demo_parsed_pv_def default_pv_def)
  have stream: "parse_alarm_stream tree_yaml demo_doc demo_backends True = Inr \<lparr>as_backend = ''default'', as_stream = ''acorn:alarms''\<rparr>"
    by (simp add: parse_alarm_stream_def none resolveBackendAlias_def demo_backends_def default_app_def)
  show ?thesis
    using budget redis
    by (simp add: parseConfig_def validateTopLevelSchema_def none map keys demo_tree parseDiscovery_def parseOperationLimits_def
        parseAccessConfig_def demo_parse_server parseChannelFinderConfig_def demo_parse_backends stream demo_parse_pvs
        parse_rpc_services_def default_app_def) (auto simp: res_simps)
qed

section \<open>Properties\<close>

text \<open>
  C19: a configuration that was read is well formed, whatever the document: every number is in its
  range and finite, limits and alarm thresholds are ordered, transforms can be inverted, the
  initial value has the type and shape of its PV, every backend a PV, confirmation or the alarm
  stream names is configured, access assignments are present exactly when access control is
  enabled, no two PVs subscribe to the same key, all served names are distinct, and the alarm
  queue together with the state of every PV fits the configured alarm memory.
\<close>

theorem parsed_config_wellformed:
  assumes "parseConfig H Y doc directory = Inr c"
  shows "wf_config c"
proof -
  from assms obtain legacy where
    discovery: "parseDiscovery H Y (y_get Y doc ''discovery'') = Inr (cfg_discovery c)" and
    limits: "parseOperationLimits Y (y_get Y doc ''limits'') = Inr (cfg_limits c)" and
    access: "parseAccessConfig H Y (y_get Y doc ''access'') directory ''root.access'' = Inr (cfg_access c)" and
    server: "parse_server Y doc = Inr (cfg_server c)" and
    backends: "parse_backends H Y doc directory = Inr (cfg_redisBackends c)" and
    alarms: "parse_alarm_stream Y doc (cfg_redisBackends c) legacy = Inr (cfg_alarms c)" and
    pvs: "parse_pvs Y doc (cfg_access c) (cfg_server c) (cfg_redisBackends c) legacy = Inr (cfg_pvs c)" and
    rpc: "parse_rpc_services Y doc (cfg_access c) = Inr (cfg_rpcServices c)" and
    some: "cfg_pvs c \<noteq> [] \<or> cfg_rpcServices c \<noteq> []" "cfg_schemaVersion c = 1" and
    budget: "\<exists>b. check_alarm_budget (cfg_limits c) (cfg_server c) (cfg_pvs c) = Inr b"
    by (auto simp: parseConfig_def res_simps Let_def)
  note wf = parseAccessConfig_wf [OF access] parseOperationLimits_wf [OF limits]
  from parse_pvs_wf [OF pvs wf(1)] obtain es0 l where l: "addDiagnostics (cfg_server c) [] = Inr es0"
      "loop_inv (cfg_access c) (cfg_server c) (cfg_redisBackends c) es0 l" "pl_pvs l = cfg_pvs c" by blast
  have "configuredEndpoints c = Inr (pl_endpoints l)"
    using l by (intro configuredEndpoints_fold [OF l(1)]) (simp add: loop_inv_def)
  then show ?thesis
    unfolding wf_config_def
    using wf some parse_server_wf [OF server] parseDiscovery_wf [OF discovery] parse_backends_wf [OF backends] parse_alarm_stream_wf [OF alarms]
      parse_rpc_services_wf [OF rpc wf(1)] l(2,3) budget check_alarm_budget_exact [OF _ wf(2)]
    by (auto simp: loop_inv_def)
qed

theorem parsed_config_wellformed_witness:
  "\<exists>c. parseConfig demo_host tree_yaml demo_doc ''/etc'' = Inr c \<and> wf_config c"
  using demo_config_read [of "''/etc''"] parsed_config_wellformed [of demo_host tree_yaml demo_doc "''/etc''"] by blast

text \<open>
  C21: the spellings the program prints for types, shapes and display forms are read back as the
  same type, shape and form, in any mixture of upper and lower case of the text in the file.
\<close>

theorem spellings_read_back:
  "(lowerCopy s = toString_type t \<longrightarrow> parsePrimitiveType (Y\<lparr>y_string := \<lambda>_. Inr s\<rparr>) n path = Inr t)
   \<and> (lowerCopy s = toString_shape sh \<longrightarrow> parseShape (Y\<lparr>y_string := \<lambda>_. Inr s\<rparr>) n path = Inr sh)
   \<and> (lowerCopy s = toString_form f \<longrightarrow> parseDisplayForm (Y\<lparr>y_string := \<lambda>_. Inr s\<rparr>) n path = Inr f)"
  by (intro conjI impI; (cases t; cases sh; cases f)?)
    (simp_all add: parsePrimitiveType_def parseShape_def parseDisplayForm_def parseString_def parse_as_def Let_def)

theorem spellings_read_back_witness:
  "parsePrimitiveType (tree_yaml\<lparr>y_string := \<lambda>_. Inr ''uint16''\<rparr>) (S []) [] = Inr UInt16"
  using spellings_read_back [of "''uint16''" UInt16 tree_yaml "S []" "[]" Scalar DefaultForm] by (simp add: lowerCopy_def to_lower_def)

end
