(* ===== verification/PV_Registry.thy ===== *)
theory PV_Registry
  imports Config_Types
begin

text \<open>
  The published namespace, \<open>src/pv_registry.cpp\<close>: a snapshot of registrations that is prepared off
  line and replaced as a whole, and the channels that clients open on it. Registrations and
  snapshots are shared objects, so they have identities and live in a store. \<open>onCreate\<close> is not
  atomic: its steps interleave with publications, and the reachable states are those of every
  interleaving. No channel of a retired registration stays open once the calls under way are over.
\<close>

section \<open>Model\<close>

text \<open>
  The shared PV and the owner of a binding are pointers of other components, null or an identity;
  a wrapper is a function of the access layer.
\<close>

record PVBinding =
  pb_pv :: "nat option"
  pb_owner :: "nat option"
  pb_access :: AccessAssignment

type_synonym PVBindings = "(string, PVBinding) omap"
type_synonym Wrappers = "(string, nat) omap"

record Registration =
  rg_binding :: PVBinding
  rg_wrapper :: "nat option"
  rg_active :: bool
  rg_channels :: "nat list"

record Snapshot =
  sn_id :: nat
  sn_entries :: "(string, nat) omap"
  sn_names :: "string list"

record Prepared =
  pr_previous :: Snapshot
  pr_next :: Snapshot
  pr_retiring :: "nat list"

text \<open>A call of \<open>onCreate\<close> under way: its channel, the registration it found and how far it is.\<close>

datatype create_stage = Found | Tracked | Attached

record Registry =
  rs_regs :: "nat \<Rightarrow> Registration"
  rs_nextReg :: nat
  rs_nextSnap :: nat
  rs_current :: Snapshot
  rs_open :: "nat list"
  rs_creating :: "(nat \<times> nat \<times> create_stage) list"

definition blank_registration :: Registration where
  "blank_registration = \<lparr>rg_binding = \<lparr>pb_pv = None, pb_owner = None, pb_access = default_assignment\<rparr>,
     rg_wrapper = None, rg_active = True, rg_channels = []\<rparr>"

definition make_registry :: Registry where
  "make_registry = \<lparr>rs_regs = (\<lambda>_. blank_registration), rs_nextReg = 0, rs_nextSnap = 1,
     rs_current = \<lparr>sn_id = 0, sn_entries = [], sn_names = []\<rparr>, rs_open = [], rs_creating = []\<rparr>"

definition update_reg :: "nat \<Rightarrow> (Registration \<Rightarrow> Registration) \<Rightarrow> Registry \<Rightarrow> Registry" where
  "update_reg r f s = s\<lparr>rs_regs := (rs_regs s)(r := f (rs_regs s r))\<rparr>"

text \<open>\<open>track\<close> forgets the channels that have gone and adds the new one.\<close>

definition track :: "nat \<Rightarrow> nat \<Rightarrow> Registry \<Rightarrow> Registry" where
  "track r c s = update_reg r (\<lambda>g. g\<lparr>rg_channels := filter (\<lambda>d. d \<in> set (rs_open s)) (rg_channels g) @ [c]\<rparr>) s"

definition close_channel :: "nat \<Rightarrow> Registry \<Rightarrow> Registry" where
  "close_channel c s = s\<lparr>rs_open := removeAll c (rs_open s)\<rparr>"

text \<open>\<open>Registration::close\<close>: take the list of channels under the lock, then close each of them.\<close>

definition drain :: "nat \<Rightarrow> Registry \<Rightarrow> nat list \<times> Registry" where
  "drain r s = (rg_channels (rs_regs s r), update_reg r (\<lambda>g. g\<lparr>rg_channels := []\<rparr>) s)"

definition close_registration :: "nat \<Rightarrow> Registry \<Rightarrow> Registry" where
  "close_registration r s = (let (previous, s') = drain r s in fold close_channel previous s')"

definition bindings :: "Registry \<Rightarrow> PVBindings" where
  "bindings s = map (\<lambda>(name, r). (name, rg_binding (rs_regs s r))) (sn_entries (rs_current s))"

definition invalid_binding :: "string \<Rightarrow> PVBinding \<Rightarrow> bool" where
  "invalid_binding name b \<longleftrightarrow> name = [] \<or> CHR 0x00 \<in> set name \<or> pb_pv b = None \<or> pb_owner b = None"

definition same_registration :: "Registration \<Rightarrow> PVBinding \<Rightarrow> bool" where
  "same_registration g b \<longleftrightarrow> pb_owner (rg_binding g) = pb_owner b
     \<and> sameAccessAssignment (pb_access (rg_binding g)) (pb_access b)"

text \<open>One round of the loop of \<open>prepare\<close>: the entries built so far and the store.\<close>

definition prepare_entry :: "Snapshot \<Rightarrow> Wrappers \<Rightarrow> (string, nat) omap \<times> Registry \<Rightarrow> string \<times> PVBinding
    \<Rightarrow> string + (string, nat) omap \<times> Registry" where
  "prepare_entry previous wrappers = (\<lambda>(entries, s) (name, b).
     if invalid_binding name b then Inl (''invalid endpoint binding: '' @ name)
     else (let fresh = (omap_emplace name (rs_nextReg s) entries,
             s\<lparr>rs_regs := (rs_regs s)(rs_nextReg s := \<lparr>rg_binding = b, rg_wrapper = omap_find wrappers name,
                 rg_active = True, rg_channels = []\<rparr>), rs_nextReg := Suc (rs_nextReg s)\<rparr>)
           in case omap_find (sn_entries previous) name of
             Some old \<Rightarrow> if same_registration (rs_regs s old) b then Inr (omap_emplace name old entries, s) else Inr fresh
           | None \<Rightarrow> Inr fresh))"

definition prepare :: "PVBindings \<Rightarrow> Wrappers \<Rightarrow> Registry \<Rightarrow> string + Prepared \<times> Registry" where
  "prepare desired wrappers s =
     (let previous = rs_current s in
      ebind (efold (prepare_entry previous wrappers) ([], s) desired) (\<lambda>(entries, s').
      let retiring = map snd (filter (\<lambda>(name, r). omap_find entries name \<noteq> Some r) (sn_entries previous)) in
      Inr (\<lparr>pr_previous = previous,
            pr_next = \<lparr>sn_id = rs_nextSnap s', sn_entries = entries, sn_names = map fst desired\<rparr>,
            pr_retiring = retiring\<rparr>, s'\<lparr>rs_nextSnap := Suc (rs_nextSnap s')\<rparr>)))"

definition retire :: "nat \<Rightarrow> Registry \<Rightarrow> Registry" where
  "retire r = update_reg r (\<lambda>g. g\<lparr>rg_active := False\<rparr>)"

text \<open>
  \<open>publish\<close> with the result of the last fallible action, \<open>None\<close> when there is none: the snapshot the
  preparation started from must still be the current one. The result is the error, empty on success.
\<close>

definition publish :: "Prepared option \<Rightarrow> (bool \<times> string) option \<Rightarrow> Registry \<Rightarrow> bool \<times> string \<times> Registry" where
  "publish prepared beforeCommit s = (case prepared of
       None \<Rightarrow> (False, ''endpoint publication changed during preparation'', s)
     | Some p \<Rightarrow>
         if sn_id (pr_previous p) \<noteq> sn_id (rs_current s)
         then (False, ''endpoint publication changed during preparation'', s)
         else case beforeCommit of
           Some (False, error) \<Rightarrow> (False, error, s)
         | _ \<Rightarrow> (True, [], (fold retire (pr_retiring p) s)\<lparr>rs_current := pr_next p\<rparr>))"

definition finish :: "Prepared \<Rightarrow> Registry \<Rightarrow> Registry" where
  "finish prepared s = fold close_registration (pr_retiring prepared) s"

definition clear_registry :: "Registry \<Rightarrow> string + Registry" where
  "clear_registry s =
     ebind (prepare [] [] s) (\<lambda>(prepared, s').
     case publish (Some prepared) None s' of
       (ok, error, s'') \<Rightarrow> if \<not> ok then Inl error else Inr (finish prepared s''))"

definition onSearch :: "string list \<Rightarrow> Registry \<Rightarrow> string list" where
  "onSearch search s = filter (\<lambda>name. omap_find (sn_entries (rs_current s)) name \<noteq> None) search"

definition onList :: "Registry \<Rightarrow> string list" where
  "onList s = sn_names (rs_current s)"

text \<open>The steps of \<open>onCreate\<close>. The channel is open while its control object lives.\<close>

definition create_find :: "nat \<Rightarrow> string \<Rightarrow> Registry \<Rightarrow> Registry" where
  "create_find c name s = (case omap_find (sn_entries (rs_current s)) name of
       None \<Rightarrow> s
     | Some r \<Rightarrow> s\<lparr>rs_open := c # rs_open s, rs_creating := (c, r, Found) # rs_creating s\<rparr>)"

definition advance :: "nat \<Rightarrow> create_stage \<Rightarrow> (nat \<times> nat \<times> create_stage) list \<Rightarrow> (nat \<times> nat \<times> create_stage) list" where
  "advance c stage = map (\<lambda>(d, r, t). if d = c then (d, r, stage) else (d, r, t))"

definition create_track :: "nat \<Rightarrow> nat \<Rightarrow> Registry \<Rightarrow> Registry" where
  "create_track c r s = (track r c s)\<lparr>rs_creating := advance c Tracked (rs_creating s)\<rparr>"

text \<open>The wrapper may refuse the channel, which destroys it; otherwise it is attached to the PV.\<close>

definition create_attach :: "bool \<Rightarrow> nat \<Rightarrow> nat \<Rightarrow> Registry \<Rightarrow> Registry" where
  "create_attach accepted c r s =
     (if rg_wrapper (rs_regs s r) \<noteq> None \<and> \<not> accepted
      then (close_channel c s)\<lparr>rs_creating := filter (\<lambda>(d, _). d \<noteq> c) (rs_creating s)\<rparr>
      else s\<lparr>rs_creating := advance c Attached (rs_creating s)\<rparr>)"

definition create_check :: "nat \<Rightarrow> nat \<Rightarrow> Registry \<Rightarrow> Registry" where
  "create_check c r s =
     (let s' = (if \<not> rg_active (rs_regs s r) then close_channel c s else s)
      in s'\<lparr>rs_creating := filter (\<lambda>(d, _). d \<noteq> c) (rs_creating s)\<rparr>)"

text \<open>What the callbacks of a tracked channel do with an operation: refuse it, hand it on, or hand it on tracked.\<close>

datatype channel_event = OnOp | OnRPC | OnSubscribe
datatype connect_event = OnGet | OnPut
datatype dispatch = ErrorReply string | Forward | ForwardConnect nat | ForwardExec nat

definition tracked_event :: "Registry \<Rightarrow> nat \<Rightarrow> channel_event \<Rightarrow> dispatch" where
  "tracked_event s r event =
     (if \<not> rg_active (rs_regs s r) then ErrorReply ''endpoint retired''
      else case event of OnOp \<Rightarrow> ForwardConnect r | OnRPC \<Rightarrow> ForwardExec r | OnSubscribe \<Rightarrow> Forward)"

definition tracked_connect_event :: "Registry \<Rightarrow> nat \<Rightarrow> connect_event \<Rightarrow> dispatch" where
  "tracked_connect_event s r event =
     (if \<not> rg_active (rs_regs s r) then ErrorReply ''endpoint retired''
      else case event of OnGet \<Rightarrow> Forward | OnPut \<Rightarrow> ForwardExec r)"

definition tracked_authorized :: "Registry \<Rightarrow> nat \<Rightarrow> bool \<Rightarrow> bool" where
  "tracked_authorized s r writeAllowed \<longleftrightarrow> rg_active (rs_regs s r) \<and> writeAllowed"


section \<open>Interleavings\<close>

text \<open>
  The world around the registry: which channel was opened on which registration, the preparations
  made and published, the registrations whose list of channels \<open>finish\<close> has taken, and the channels
  it has taken and not closed yet.
\<close>

record world =
  w_reg :: Registry
  w_owner :: "nat \<rightharpoonup> nat"
  w_prepared :: "Prepared list"
  w_published :: "Prepared list"
  w_drained :: "nat list"
  w_closing :: "nat list"

definition start_world :: world where
  "start_world = \<lparr>w_reg = make_registry, w_owner = Map.empty, w_prepared = [], w_published = [],
     w_drained = [], w_closing = []\<rparr>"

inductive reg_reachable :: "world \<Rightarrow> bool" where
  init: "reg_reachable start_world"
| prepare: "reg_reachable w \<Longrightarrow> omap_wf desired \<Longrightarrow> prepare desired wrappers (w_reg w) = Inr (p, s) \<Longrightarrow>
    reg_reachable (w\<lparr>w_reg := s, w_prepared := p # w_prepared w\<rparr>)"
| publish: "reg_reachable w \<Longrightarrow> p \<in> set (w_prepared w) \<Longrightarrow> publish (Some p) commit (w_reg w) = (True, e, s) \<Longrightarrow>
    reg_reachable (w\<lparr>w_reg := s, w_published := p # w_published w\<rparr>)"
| drain: "reg_reachable w \<Longrightarrow> p \<in> set (w_published w) \<Longrightarrow> r \<in> set (pr_retiring p) \<Longrightarrow>
    drain r (w_reg w) = (previous, s) \<Longrightarrow>
    reg_reachable (w\<lparr>w_reg := s, w_drained := r # w_drained w, w_closing := previous @ w_closing w\<rparr>)"
| close: "reg_reachable w \<Longrightarrow> c \<in> set (w_closing w) \<Longrightarrow>
    reg_reachable (w\<lparr>w_reg := close_channel c (w_reg w), w_closing := removeAll c (w_closing w)\<rparr>)"
| found: "reg_reachable w \<Longrightarrow> w_owner w c = None \<Longrightarrow> omap_find (sn_entries (rs_current (w_reg w))) name = Some r \<Longrightarrow>
    reg_reachable (w\<lparr>w_reg := create_find c name (w_reg w), w_owner := (w_owner w)(c \<mapsto> r)\<rparr>)"
| track: "reg_reachable w \<Longrightarrow> (c, r, Found) \<in> set (rs_creating (w_reg w)) \<Longrightarrow>
    reg_reachable (w\<lparr>w_reg := create_track c r (w_reg w)\<rparr>)"
| attach: "reg_reachable w \<Longrightarrow> (c, r, Tracked) \<in> set (rs_creating (w_reg w)) \<Longrightarrow>
    reg_reachable (w\<lparr>w_reg := create_attach accepted c r (w_reg w)\<rparr>)"
| check: "reg_reachable w \<Longrightarrow> (c, r, Attached) \<in> set (rs_creating (w_reg w)) \<Longrightarrow>
    reg_reachable (w\<lparr>w_reg := create_check c r (w_reg w)\<rparr>)"
| peer: "reg_reachable w \<Longrightarrow> reg_reachable (w\<lparr>w_reg := close_channel c (w_reg w)\<rparr>)"

definition creating :: "Registry \<Rightarrow> nat \<Rightarrow> bool" where
  "creating s c \<longleftrightarrow> c \<in> fst ` set (rs_creating s)"

end
