(* ===== verification/PV_Registry_Correct.thy ===== *)
theory PV_Registry_Correct
  imports PV_Registry
begin

text \<open>
  The registry under every interleaving of publications, retirements and channel creations: what
  a preparation builds, the invariant of the published namespace, and the invariant that ties
  every open channel to the registration it was created on.
\<close>

section \<open>What the operations do to the store\<close>

lemmas registry_defs = update_reg_def track_def close_channel_def drain_def retire_def
  create_find_def create_track_def create_attach_def create_check_def

lemma fold_retire:
  "fold retire rs s = s\<lparr>rs_regs := (\<lambda>r. if r \<in> set rs then (rs_regs s r)\<lparr>rg_active := False\<rparr> else rs_regs s r)\<rparr>"
proof (induction rs arbitrary: s)
  case (Cons r rs)
  show ?case unfolding fold.simps o_apply Cons.IH by (auto simp: retire_def update_reg_def fun_eq_iff)
qed simp

lemma publish_done:
  "publish (Some p) commit s = (True, e, s') \<longleftrightarrow>
     sn_id (pr_previous p) = sn_id (rs_current s) \<and> (\<forall>x. commit \<noteq> Some (False, x)) \<and> e = []
     \<and> s' = (fold retire (pr_retiring p) s)\<lparr>rs_current := pr_next p\<rparr>"
  by (auto simp: publish_def split: option.splits bool.splits)

text \<open>The loop of \<open>prepare\<close>: it only allocates, and an entry is the one of before or a new one.\<close>

definition extends :: "Registry \<Rightarrow> Registry \<Rightarrow> bool" where
  "extends s s' \<longleftrightarrow> rs_nextReg s \<le> rs_nextReg s' \<and> (\<forall>r < rs_nextReg s. rs_regs s' r = rs_regs s r)
     \<and> (\<forall>r. rs_nextReg s \<le> r \<longrightarrow> r < rs_nextReg s' \<longrightarrow> rg_channels (rs_regs s' r) = [])
     \<and> rs_nextSnap s' = rs_nextSnap s \<and> rs_current s' = rs_current s
     \<and> rs_open s' = rs_open s \<and> rs_creating s' = rs_creating s"

definition kept :: "Registry \<Rightarrow> string \<Rightarrow> nat \<Rightarrow> bool" where
  "kept s name r \<longleftrightarrow> omap_find (sn_entries (rs_current s)) name = Some r"

definition allocated :: "Registry \<Rightarrow> Registry \<Rightarrow> nat \<Rightarrow> bool" where
  "allocated s s' r \<longleftrightarrow> rs_nextReg s \<le> r \<and> r < rs_nextReg s' \<and> rg_active (rs_regs s' r) \<and> rg_channels (rs_regs s' r) = []"

definition entries_inj :: "(string, nat) omap \<Rightarrow> bool" where
  "entries_inj entries \<longleftrightarrow> (\<forall>n n' r. omap_find entries n = Some r \<longrightarrow> omap_find entries n' = Some r \<longrightarrow> n = n')"

definition entries_ok :: "Registry \<Rightarrow> Registry \<Rightarrow> (string, nat) omap \<Rightarrow> bool" where
  "entries_ok s s' entries \<longleftrightarrow> omap_wf entries
     \<and> (\<forall>name r. omap_find entries name = Some r \<longrightarrow> kept s name r \<or> allocated s s' r)
     \<and> entries_inj entries"

definition snapshot_ok :: "Registry \<Rightarrow> Snapshot \<Rightarrow> bool" where
  "snapshot_ok s sn \<longleftrightarrow> omap_wf (sn_entries sn) \<and> sn_names sn = map fst (sn_entries sn)
     \<and> (\<forall>name r. omap_find (sn_entries sn) name = Some r \<longrightarrow> r < rs_nextReg s \<and> rg_active (rs_regs s r))
     \<and> entries_inj (sn_entries sn)"

lemma entries_okD: "entries_ok s t entries \<Longrightarrow> omap_find entries name = Some r \<Longrightarrow> kept s name r \<or> allocated s t r"
  unfolding entries_ok_def by blast

lemma snapshot_okD: "snapshot_ok s sn \<Longrightarrow> omap_find (sn_entries sn) name = Some r \<Longrightarrow>
    r < rs_nextReg s \<and> rg_active (rs_regs s r)"
  unfolding snapshot_ok_def by blast

lemma snapshot_ok_inj: "snapshot_ok s sn \<Longrightarrow> omap_find (sn_entries sn) n = Some r \<Longrightarrow>
    omap_find (sn_entries sn) n' = Some r \<Longrightarrow> n = n'"
  unfolding snapshot_ok_def entries_inj_def by blast

lemma extends_refl [simp]: "extends s s"
  by (simp add: extends_def)

lemma extends_trans:
  assumes "extends s t" "extends t u"
  shows "extends s u"
proof -
  have "rg_channels (rs_regs u r) = []" if "rs_nextReg s \<le> r" "r < rs_nextReg u" for r
    using that assms by (cases "r < rs_nextReg t") (auto simp: extends_def)
  then show ?thesis using assms by (auto simp: extends_def)
qed

lemma prepare_entry_step:
  assumes "prepare_entry (rs_current s) wrappers (entries, t) (name, b) = Inr (entries', t')"
    and "extends s t" "entries_ok s t entries" "snapshot_ok s (rs_current s)"
  shows "extends s t' \<and> entries_ok s t' entries' \<and> extends t t'
    \<and> fst ` set entries' = insert name (fst ` set entries)
    \<and> \<not> invalid_binding name b
    \<and> (omap_find entries name = None \<longrightarrow> (\<exists>r < rs_nextReg t'. omap_find entries' name = Some r
         \<and> same_registration (rs_regs t' r) b
         \<and> (\<forall>old. kept s name old \<longrightarrow> same_registration (rs_regs s old) b \<longrightarrow> r = old)))
    \<and> (\<forall>n. n \<noteq> name \<longrightarrow> omap_find entries' n = omap_find entries n)"
proof (cases "\<exists>old. kept s name old \<and> same_registration (rs_regs t old) b")
  case True
  then obtain old where old: "kept s name old" "same_registration (rs_regs t old) b" by blast
  then have step: "entries' = omap_emplace name old entries" "t' = t" "\<not> invalid_binding name b"
    using assms(1) by (auto simp: prepare_entry_def kept_def Let_def split: if_splits)
  have wf: "omap_wf entries" using assms(3) by (simp add: entries_ok_def)
  have below: "old < rs_nextReg s"
    using old(1) assms(4) by (auto simp: snapshot_ok_def kept_def)
  moreover have "rs_nextReg s \<le> rs_nextReg t" using assms(2) by (simp add: extends_def)
  ultimately have below': "old < rs_nextReg t" by simp
  have only: "n = name" if "omap_find entries n = Some old" for n
  proof -
    have "kept s n old" using entries_okD [OF assms(3) that] below by (auto simp: allocated_def)
    then show ?thesis using old(1) snapshot_ok_inj [OF assms(4)] by (simp add: kept_def)
  qed
  have "n = n'" if "omap_find entries' n = Some r" "omap_find entries' n' = Some r" for n n' r
    using that only assms(3) wf unfolding entries_ok_def entries_inj_def by (auto simp: step(1) omap_simps split: if_splits)
  then have "entries_inj entries'" unfolding entries_inj_def by blast
  then have "entries_ok s t entries'"
    using assms(3) wf old(1) unfolding entries_ok_def step om.find_emplace [OF wf]
    by (auto simp: omap_simps split: if_splits)
  then show ?thesis
    using assms(2) step wf below' old by (auto simp: set_keys_emplace omap_simps kept_def)
next
  case False
  let ?g = "\<lparr>rg_binding = b, rg_wrapper = omap_find wrappers name, rg_active = True, rg_channels = []\<rparr>"
  have step: "entries' = omap_emplace name (rs_nextReg t) entries" "\<not> invalid_binding name b"
    "t' = t\<lparr>rs_regs := (rs_regs t)(rs_nextReg t := ?g), rs_nextReg := Suc (rs_nextReg t)\<rparr>"
    using assms(1) False by (auto simp: prepare_entry_def kept_def Let_def split: if_splits option.splits)
  have wf: "omap_wf entries" using assms(3) by (simp add: entries_ok_def)
  have new: "omap_find entries n \<noteq> Some (rs_nextReg t)" for n
    using assms(2,3,4) by (fastforce simp: entries_ok_def allocated_def kept_def snapshot_ok_def extends_def)
  have ext: "extends s t'" "extends t t'"
    using assms(2) unfolding step extends_def by auto
  have "kept s n r \<or> allocated s t' r" if "omap_find entries' n = Some r" for n r
  proof (cases "omap_find entries n = Some r")
    case True
    then show ?thesis using entries_okD [OF assms(3)] by (fastforce simp: allocated_def step(3))
  next
    case False
    then have "r = rs_nextReg t" using that wf by (auto simp: step(1) omap_simps split: if_splits)
    then show ?thesis using assms(2) by (simp add: allocated_def step(3) extends_def)
  qed
  moreover have "n = n'" if "omap_find entries' n = Some r" "omap_find entries' n' = Some r" for n n' r
    using that new assms(3) wf unfolding entries_ok_def entries_inj_def by (auto simp: step(1) omap_simps split: if_splits)
  ultimately have "entries_ok s t' entries'"
    using wf unfolding entries_ok_def entries_inj_def by (metis om.wf_emplace step(1))
  moreover have "same_registration (rs_regs t' (rs_nextReg t)) b"
    by (simp add: step same_registration_def)
  moreover have "rs_regs t old = rs_regs s old" if "kept s name old" for old
    using that assms(2,4) by (auto simp: extends_def snapshot_ok_def kept_def)
  ultimately show ?thesis
    using ext wf False by (auto simp: step set_keys_emplace omap_simps kept_def)
qed

definition installed :: "Registry \<Rightarrow> Registry \<Rightarrow> (string, nat) omap \<Rightarrow> string \<Rightarrow> PVBinding \<Rightarrow> bool" where
  "installed s t entries name b \<longleftrightarrow> \<not> invalid_binding name b \<and>
     (\<exists>r < rs_nextReg t. omap_find entries name = Some r \<and> same_registration (rs_regs t r) b
        \<and> (\<forall>old. kept s name old \<longrightarrow> same_registration (rs_regs s old) b \<longrightarrow> r = old))"

lemma prepare_loop:
  assumes "efold (prepare_entry (rs_current s) wrappers) (entries, t) ds = Inr (entries', t')"
    and "extends s t" "entries_ok s t entries" "snapshot_ok s (rs_current s)"
    and "distinct (map fst ds)" "\<And>name. name \<in> fst ` set ds \<Longrightarrow> omap_find entries name = None"
  shows "extends s t' \<and> extends t t' \<and> entries_ok s t' entries'
    \<and> fst ` set entries' = fst ` set entries \<union> fst ` set ds
    \<and> (\<forall>n. n \<notin> fst ` set ds \<longrightarrow> omap_find entries' n = omap_find entries n)
    \<and> (\<forall>(name, b) \<in> set ds. installed s t' entries' name b)"
  using assms(1,2,3,5,6)
proof (induction ds arbitrary: entries t)
  case Nil
  then show ?case by simp
next
  case (Cons d ds)
  obtain name b where d: "d = (name, b)" by fastforce
  obtain entries1 t1 where s1: "prepare_entry (rs_current s) wrappers (entries, t) (name, b) = Inr (entries1, t1)"
      and rest: "efold (prepare_entry (rs_current s) wrappers) (entries1, t1) ds = Inr (entries', t')"
    using Cons.prems(1) by (auto simp: res_simps d)
  note one = prepare_entry_step [OF s1 Cons.prems(2,3) assms(4)]
  have fresh: "omap_find entries name = None" and new: "name \<notin> fst ` set ds"
    using Cons.prems(4,5) by (auto simp: d)
  then obtain r where r: "r < rs_nextReg t1" "omap_find entries1 name = Some r" "same_registration (rs_regs t1 r) b"
      "\<And>old. kept s name old \<Longrightarrow> same_registration (rs_regs s old) b \<Longrightarrow> r = old"
    using one by blast
  have ih: "extends s t' \<and> extends t1 t' \<and> entries_ok s t' entries'
    \<and> fst ` set entries' = fst ` set entries1 \<union> fst ` set ds
    \<and> (\<forall>n. n \<notin> fst ` set ds \<longrightarrow> omap_find entries' n = omap_find entries1 n)
    \<and> (\<forall>(name, b) \<in> set ds. installed s t' entries' name b)"
  proof (rule Cons.IH [OF rest])
    show "omap_find entries1 n = None" if "n \<in> fst ` set ds" for n
      using that one new Cons.prems(5) [of n] by (cases "n = name") (auto simp: d)
  qed (use one Cons.prems(4) in auto)
  have le: "rs_nextReg t1 \<le> rs_nextReg t'" and same: "rs_regs t' r = rs_regs t1 r"
    using ih r(1) by (auto simp: extends_def)
  have "installed s t' entries' name b"
    unfolding installed_def using one ih new r le same by (auto intro!: exI [of _ r])
  moreover have "extends t t'"
    by (rule extends_trans [of t t1]) (use one ih in auto)
  ultimately show ?case using ih one by (auto simp: d)
qed

lemma entries_ok_Nil [simp]: "entries_ok s s []"
  by (simp add: entries_ok_def entries_inj_def)

definition retired_by :: "Snapshot \<Rightarrow> (string, nat) omap \<Rightarrow> nat \<Rightarrow> bool" where
  "retired_by previous entries r \<longleftrightarrow> (\<exists>name. omap_find (sn_entries previous) name = Some r \<and> omap_find entries name \<noteq> Some r)"

text \<open>What a preparation that succeeds has built.\<close>

lemma prepare_done:
  assumes "prepare desired wrappers s = Inr (p, s')" "omap_wf desired" "snapshot_ok s (rs_current s)"
  obtains t where "extends s t" "s' = t\<lparr>rs_nextSnap := Suc (rs_nextSnap s)\<rparr>" "pr_previous p = rs_current s"
    "sn_id (pr_next p) = rs_nextSnap s" "entries_ok s t (sn_entries (pr_next p))"
    "map fst (sn_entries (pr_next p)) = map fst desired" "sn_names (pr_next p) = map fst desired"
    "set (pr_retiring p) = Collect (retired_by (rs_current s) (sn_entries (pr_next p)))"
    "\<forall>(name, b) \<in> set desired. installed s t (sn_entries (pr_next p)) name b"
proof -
  obtain entries t where loop: "efold (prepare_entry (rs_current s) wrappers) ([], s) desired = Inr (entries, t)"
    and p: "p = \<lparr>pr_previous = rs_current s,
            pr_next = \<lparr>sn_id = rs_nextSnap t, sn_entries = entries, sn_names = map fst desired\<rparr>,
            pr_retiring = map snd (filter (\<lambda>(name, r). omap_find entries name \<noteq> Some r) (sn_entries (rs_current s)))\<rparr>"
    and s': "s' = t\<lparr>rs_nextSnap := Suc (rs_nextSnap t)\<rparr>"
    using assms(1) by (auto simp: prepare_def res_simps Let_def)
  have built: "extends s t \<and> extends s t \<and> entries_ok s t entries
    \<and> fst ` set entries = fst ` set [] \<union> fst ` set desired
    \<and> (\<forall>n. n \<notin> fst ` set desired \<longrightarrow> omap_find entries n = omap_find [] n)
    \<and> (\<forall>(name, b) \<in> set desired. installed s t entries name b)"
    using prepare_loop [OF loop _ _ assms(3)] assms(2) by (simp add: omap_wf_distinct)
  have wf: "omap_wf entries" "omap_wf (sn_entries (rs_current s))"
    using built assms(3) by (auto simp: entries_ok_def snapshot_ok_def)
  have keys: "map fst entries = map fst desired"
    using built wf(1) assms(2) unfolding omap_wf_def by (intro strict_sorted_equal) auto
  have old: "(name, r) \<in> set (sn_entries (rs_current s)) \<longleftrightarrow> omap_find (sn_entries (rs_current s)) name = Some r" for name r
    using wf(2) by (simp add: omap_wf_distinct)
  have retiring: "set (pr_retiring p) = Collect (retired_by (rs_current s) entries)"
    unfolding p retired_by_def by (force simp: old)
  have snap: "rs_nextSnap t = rs_nextSnap s" using built by (simp add: extends_def)
  show ?thesis
    by (rule that [of t]) (use built keys retiring in \<open>auto simp: p s' snap\<close>)
qed

section \<open>The published namespace\<close>

definition prep_ok :: "Registry \<Rightarrow> Prepared \<Rightarrow> bool" where
  "prep_ok s p \<longleftrightarrow> sn_id (pr_previous p) \<le> sn_id (rs_current s) \<and> sn_id (pr_previous p) < sn_id (pr_next p)
     \<and> sn_id (pr_next p) < rs_nextSnap s \<and> (\<forall>r \<in> set (pr_retiring p). r < rs_nextReg s)
     \<and> (sn_id (pr_previous p) = sn_id (rs_current s) \<longrightarrow> snapshot_ok s (pr_next p)
          \<and> (\<forall>n r. omap_find (sn_entries (pr_next p)) n = Some r \<longrightarrow> r \<notin> set (pr_retiring p)))"

definition pub_ok :: "Registry \<Rightarrow> Prepared \<Rightarrow> bool" where
  "pub_ok s p \<longleftrightarrow> sn_id (pr_next p) \<le> sn_id (rs_current s) \<and> (\<forall>r \<in> set (pr_retiring p). \<not> rg_active (rs_regs s r))"

definition name_inv :: "world \<Rightarrow> bool" where
  "name_inv w \<longleftrightarrow> snapshot_ok (w_reg w) (rs_current (w_reg w)) \<and> sn_id (rs_current (w_reg w)) < rs_nextSnap (w_reg w)
     \<and> (\<forall>p \<in> set (w_prepared w). prep_ok (w_reg w) p)
     \<and> (\<forall>p \<in> set (w_published w). p \<in> set (w_prepared w) \<and> pub_ok (w_reg w) p)"

lemma snapshot_ok_mono:
  assumes "snapshot_ok s sn" "rs_nextReg s \<le> rs_nextReg t"
    and "\<And>r. r < rs_nextReg s \<Longrightarrow> rg_active (rs_regs t r) = rg_active (rs_regs s r)"
  shows "snapshot_ok t sn"
  using assms unfolding snapshot_ok_def by (meson less_le_trans)

lemma prep_ok_mono:
  assumes "prep_ok s p" "rs_nextReg s \<le> rs_nextReg t" "rs_current t = rs_current s" "rs_nextSnap s \<le> rs_nextSnap t"
    and "\<And>r. r < rs_nextReg s \<Longrightarrow> rg_active (rs_regs t r) = rg_active (rs_regs s r)"
  shows "prep_ok t p"
proof -
  have "snapshot_ok s sn \<Longrightarrow> snapshot_ok t sn" for sn
    by (rule snapshot_ok_mono [OF _ assms(2,5)])
  then show ?thesis using assms(1-4) unfolding prep_ok_def by (metis less_le_trans)
qed

lemma name_inv_frame:
  assumes "name_inv w" "rs_current (w_reg w') = rs_current (w_reg w)" "rs_nextSnap (w_reg w') = rs_nextSnap (w_reg w)"
    "rs_nextReg (w_reg w') = rs_nextReg (w_reg w)" "\<And>r. rg_active (rs_regs (w_reg w') r) = rg_active (rs_regs (w_reg w) r)"
    "w_prepared w' = w_prepared w" "w_published w' = w_published w"
  shows "name_inv w'"
  using assms unfolding name_inv_def prep_ok_def pub_ok_def snapshot_ok_def by simp

lemma prepared_next_ok:
  assumes "extends s t" "entries_ok s t (sn_entries sn)" "sn_names sn = map fst (sn_entries sn)"
    and "snapshot_ok s (rs_current s)"
  shows "snapshot_ok t sn"
proof -
  have "r < rs_nextReg t \<and> rg_active (rs_regs t r)" if found: "omap_find (sn_entries sn) name = Some r" for name r
  proof -
    consider "kept s name r" | "allocated s t r" using entries_okD [OF assms(2) found] by blast
    then show ?thesis
    proof cases
      case 1
      then have "r < rs_nextReg s" "rg_active (rs_regs s r)" using snapshot_okD [OF assms(4)] by (auto simp: kept_def)
      then show ?thesis using assms(1) by (auto simp: extends_def)
    qed (simp add: allocated_def)
  qed
  then show ?thesis using assms(2,3) by (simp add: snapshot_ok_def entries_ok_def)
qed

lemma prepare_prep_ok:
  assumes "prepare desired wrappers s = Inr (p, s')" "omap_wf desired" "snapshot_ok s (rs_current s)"
    and "sn_id (rs_current s) < rs_nextSnap s"
  shows "prep_ok s' p \<and> rs_current s' = rs_current s \<and> rs_nextReg s \<le> rs_nextReg s' \<and> rs_nextSnap s' = Suc (rs_nextSnap s)
    \<and> (\<forall>r < rs_nextReg s. rs_regs s' r = rs_regs s r) \<and> rs_open s' = rs_open s \<and> rs_creating s' = rs_creating s"
proof -
  obtain t where t: "extends s t" "s' = t\<lparr>rs_nextSnap := Suc (rs_nextSnap s)\<rparr>" "pr_previous p = rs_current s"
    "sn_id (pr_next p) = rs_nextSnap s" "entries_ok s t (sn_entries (pr_next p))"
    "map fst (sn_entries (pr_next p)) = map fst desired" "sn_names (pr_next p) = map fst desired"
    "set (pr_retiring p) = Collect (retired_by (rs_current s) (sn_entries (pr_next p)))"
    by (rule prepare_done [OF assms(1-3)]) blast
  have ext: "rs_nextReg s \<le> rs_nextReg s'" "rs_current s' = rs_current s" "rs_nextSnap s' = Suc (rs_nextSnap s)"
    "\<And>r. r < rs_nextReg s \<Longrightarrow> rs_regs s' r = rs_regs s r" "rs_open s' = rs_open s" "rs_creating s' = rs_creating s"
    using t(1) by (simp_all add: t(2) extends_def)
  have "snapshot_ok t (pr_next p)"
    by (rule prepared_next_ok [OF t(1,5) _ assms(3)]) (simp add: t(6,7))
  then have nxt: "snapshot_ok s' (pr_next p)" by (simp add: snapshot_ok_def t(2))
  have below: "r < rs_nextReg s" if retired: "r \<in> set (pr_retiring p)" for r
    using retired snapshot_okD [OF assms(3)] by (auto simp: t(8) retired_by_def)
  have apart: "r \<notin> set (pr_retiring p)" if n: "omap_find (sn_entries (pr_next p)) n = Some r" for n r
  proof
    assume r: "r \<in> set (pr_retiring p)"
    then obtain m where m: "omap_find (sn_entries (rs_current s)) m = Some r" "omap_find (sn_entries (pr_next p)) m \<noteq> Some r"
      by (auto simp: t(8) retired_by_def)
    have "kept s n r" using entries_okD [OF t(5) n] below [OF r] by (auto simp: allocated_def)
    then have "n = m" using m(1) snapshot_ok_inj [OF assms(3)] by (simp add: kept_def)
    then show False using n m(2) by simp
  qed
  have "prep_ok s' p"
    unfolding prep_ok_def using nxt apart below ext(1,2,3) t(3,4) assms(4) by (simp, meson less_le_trans)
  then show ?thesis using ext by blast
qed

lemma name_inv_prepare:
  assumes "name_inv w" "omap_wf desired" "prepare desired wrappers (w_reg w) = Inr (p, s)"
  shows "name_inv (w\<lparr>w_reg := s, w_prepared := p # w_prepared w\<rparr>)"
proof -
  have inv: "snapshot_ok (w_reg w) (rs_current (w_reg w))" "sn_id (rs_current (w_reg w)) < rs_nextSnap (w_reg w)"
    using assms(1) by (auto simp: name_inv_def)
  note p = prepare_prep_ok [OF assms(3,2) inv]
  have "prep_ok s q" if "q \<in> set (w_prepared w)" for q
    by (rule prep_ok_mono [of "w_reg w"]) (use that assms(1) p in \<open>auto simp: name_inv_def\<close>)
  moreover have "pub_ok s q" if "q \<in> set (w_published w)" for q
  proof -
    have "pub_ok (w_reg w) q" "prep_ok (w_reg w) q" using that assms(1) by (auto simp: name_inv_def)
    then show ?thesis using p by (simp add: pub_ok_def prep_ok_def)
  qed
  moreover have "snapshot_ok s (rs_current s)"
    using snapshot_ok_mono [OF inv(1)] p by simp
  ultimately show ?thesis using assms(1) p inv(2) by (simp add: name_inv_def)
qed

lemma name_inv_publish:
  assumes "name_inv w" "p \<in> set (w_prepared w)" "publish (Some p) commit (w_reg w) = (True, e, s)"
  shows "name_inv (w\<lparr>w_reg := s, w_published := p # w_published w\<rparr>)"
proof -
  have p: "sn_id (pr_previous p) = sn_id (rs_current (w_reg w))"
    and s: "s = (fold retire (pr_retiring p) (w_reg w))\<lparr>rs_current := pr_next p\<rparr>"
    using assms(3) by (auto simp: publish_done)
  have prep: "prep_ok (w_reg w) q" if "q \<in> set (w_prepared w)" for q
    using that assms(1) by (simp add: name_inv_def)
  have fields: "rs_current s = pr_next p" "rs_nextSnap s = rs_nextSnap (w_reg w)" "rs_nextReg s = rs_nextReg (w_reg w)"
    "\<And>r. rg_active (rs_regs s r) \<longleftrightarrow> rg_active (rs_regs (w_reg w) r) \<and> r \<notin> set (pr_retiring p)"
    by (auto simp: s fold_retire)
  have nxt: "snapshot_ok s (pr_next p)"
    using prep [OF assms(2)] p by (simp add: prep_ok_def snapshot_ok_def fields)
  have later: "sn_id (rs_current (w_reg w)) < sn_id (pr_next p)"
    using prep [OF assms(2)] p by (simp add: prep_ok_def)
  have "prep_ok s q" if "q \<in> set (w_prepared w)" for q
    using prep [OF that] later by (auto simp: prep_ok_def fields)
  moreover have "pub_ok s q" if "q = p \<or> q \<in> set (w_published w)" for q
    using that assms(1) later by (auto simp: name_inv_def pub_ok_def fields)
  ultimately show ?thesis
    using assms(1,2) prep [OF assms(2)] nxt by (auto simp: name_inv_def fields prep_ok_def)
qed

lemma reachable_name_inv: "reg_reachable w \<Longrightarrow> name_inv w"
proof (induction rule: reg_reachable.induct)
  case init
  show ?case by (simp add: name_inv_def start_world_def make_registry_def snapshot_ok_def entries_inj_def)
next
  case (prepare w desired wrappers p s)
  then show ?case by (intro name_inv_prepare)
next
  case (publish w p commit e s)
  then show ?case by (intro name_inv_publish)
qed (erule name_inv_frame; force simp: registry_defs Let_def split: option.splits)+

section \<open>The channels of a registration\<close>

definition chan_inv :: "world \<Rightarrow> bool" where
  "chan_inv w \<longleftrightarrow> (let s = w_reg w in
     (\<forall>(c, r, t) \<in> set (rs_creating s). w_owner w c = Some r)
     \<and> distinct (map fst (rs_creating s))
     \<and> (\<forall>c r. w_owner w c = Some r \<longrightarrow> r < rs_nextReg s)
     \<and> (\<forall>r < rs_nextReg s. \<forall>c \<in> set (rg_channels (rs_regs s r)). w_owner w c = Some r)
     \<and> (\<forall>c \<in> set (rs_open s). \<exists>r. w_owner w c = Some r \<and> ((c, r, Found) \<in> set (rs_creating s)
          \<or> c \<in> set (rg_channels (rs_regs s r)) \<or> c \<in> set (w_closing w)))
     \<and> (\<forall>r \<in> set (w_drained w). r < rs_nextReg s \<and> \<not> rg_active (rs_regs s r)
          \<and> (\<forall>c \<in> set (rg_channels (rs_regs s r)). c \<in> set (rs_open s) \<longrightarrow> creating s c)))"

lemma chan_invD:
  assumes "chan_inv w"
  shows "(c, r, t) \<in> set (rs_creating (w_reg w)) \<Longrightarrow> w_owner w c = Some r"
    and "distinct (map fst (rs_creating (w_reg w)))"
    and "w_owner w c = Some r \<Longrightarrow> r < rs_nextReg (w_reg w)"
    and "r < rs_nextReg (w_reg w) \<Longrightarrow> c \<in> set (rg_channels (rs_regs (w_reg w) r)) \<Longrightarrow> w_owner w c = Some r"
    and "c \<in> set (rs_open (w_reg w)) \<Longrightarrow> \<exists>r. w_owner w c = Some r \<and> ((c, r, Found) \<in> set (rs_creating (w_reg w))
          \<or> c \<in> set (rg_channels (rs_regs (w_reg w) r)) \<or> c \<in> set (w_closing w))"
    and "r \<in> set (w_drained w) \<Longrightarrow> r < rs_nextReg (w_reg w) \<and> \<not> rg_active (rs_regs (w_reg w) r)"
    and "r \<in> set (w_drained w) \<Longrightarrow> c \<in> set (rg_channels (rs_regs (w_reg w) r)) \<Longrightarrow> c \<in> set (rs_open (w_reg w)) \<Longrightarrow>
      creating (w_reg w) c"
  using assms unfolding chan_inv_def Let_def by blast+

lemma chan_invI:
  assumes "\<And>c r t. (c, r, t) \<in> set (rs_creating (w_reg w)) \<Longrightarrow> w_owner w c = Some r"
    and "distinct (map fst (rs_creating (w_reg w)))"
    and "\<And>c r. w_owner w c = Some r \<Longrightarrow> r < rs_nextReg (w_reg w)"
    and "\<And>r c. r < rs_nextReg (w_reg w) \<Longrightarrow> c \<in> set (rg_channels (rs_regs (w_reg w) r)) \<Longrightarrow> w_owner w c = Some r"
    and "\<And>c. c \<in> set (rs_open (w_reg w)) \<Longrightarrow> \<exists>r. w_owner w c = Some r \<and> ((c, r, Found) \<in> set (rs_creating (w_reg w))
          \<or> c \<in> set (rg_channels (rs_regs (w_reg w) r)) \<or> c \<in> set (w_closing w))"
    and "\<And>r. r \<in> set (w_drained w) \<Longrightarrow> r < rs_nextReg (w_reg w) \<and> \<not> rg_active (rs_regs (w_reg w) r)"
    and "\<And>r c. r \<in> set (w_drained w) \<Longrightarrow> c \<in> set (rg_channels (rs_regs (w_reg w) r)) \<Longrightarrow>
      c \<in> set (rs_open (w_reg w)) \<Longrightarrow> creating (w_reg w) c"
  shows "chan_inv w"
  using assms unfolding chan_inv_def Let_def by blast

lemma map_fst_advance [simp]: "map fst (advance c stage xs) = map fst xs"
  by (simp add: advance_def split_beta)

lemma creating_advance [simp]: "fst ` set (advance c stage xs) = fst ` set xs"
  by (metis map_fst_advance set_map)

lemma advance_mem:
  "(d, r, t) \<in> set (advance c stage xs) \<longleftrightarrow> (if d = c then t = stage \<and> (\<exists>t'. (d, r, t') \<in> set xs) else (d, r, t) \<in> set xs)"
  by (induction xs) (auto simp: advance_def split: if_splits)

lemma chan_inv_prepare:
  assumes "chan_inv w" "name_inv w" "omap_wf desired" "prepare desired wrappers (w_reg w) = Inr (p, s)"
  shows "chan_inv (w\<lparr>w_reg := s, w_prepared := p # w_prepared w\<rparr>)"
proof -
  have inv: "snapshot_ok (w_reg w) (rs_current (w_reg w))" using assms(2) by (simp add: name_inv_def)
  obtain t where t: "extends (w_reg w) t" "s = t\<lparr>rs_nextSnap := Suc (rs_nextSnap (w_reg w))\<rparr>"
    by (rule prepare_done [OF assms(4,3) inv]) blast
  have grow: "rs_nextReg (w_reg w) \<le> rs_nextReg s" "rs_open s = rs_open (w_reg w)" "rs_creating s = rs_creating (w_reg w)"
    and old: "\<And>r. r < rs_nextReg (w_reg w) \<Longrightarrow> rs_regs s r = rs_regs (w_reg w) r"
    and new: "\<And>r. rs_nextReg (w_reg w) \<le> r \<Longrightarrow> r < rs_nextReg s \<Longrightarrow> rg_channels (rs_regs s r) = []"
    using t(1) by (simp_all add: t(2) extends_def)
  note d = chan_invD [OF assms(1)]
  show ?thesis
  proof (rule chan_invI, goal_cases)
    case (3 c r) then show ?case using d(3) [of c r] grow(1) by simp
  next
    case (4 r c) then show ?case using d(4) [of r c] old [of r] new [of r] by (cases "r < rs_nextReg (w_reg w)") auto
  next
    case (5 c) then show ?case using d(5) [of c] d(3) old grow by auto
  next
    case (6 r) then show ?case using d(6) [of r] old [of r] grow(1) by simp
  next
    case (7 r c) then show ?case using d(7) [of r c] d(6) [of r] old [of r] grow by (simp add: creating_def)
  next
    case (1 e q t) then show ?case using d(1) [of e q t] by (simp add: grow)
  next
    case 2 then show ?case using d(2) by (simp add: grow)
  qed
qed

lemma chan_inv_publish:
  assumes "chan_inv w" "publish (Some p) commit (w_reg w) = (True, e, s)"
  shows "chan_inv (w\<lparr>w_reg := s, w_published := p # w_published w\<rparr>)"
proof -
  have "s = (fold retire (pr_retiring p) (w_reg w))\<lparr>rs_current := pr_next p\<rparr>"
    using assms(2) by (auto simp: publish_done)
  then have s: "rs_nextReg s = rs_nextReg (w_reg w)" "rs_open s = rs_open (w_reg w)" "rs_creating s = rs_creating (w_reg w)"
      "\<And>r. rg_channels (rs_regs s r) = rg_channels (rs_regs (w_reg w) r)"
      "\<And>r. rg_active (rs_regs s r) \<Longrightarrow> rg_active (rs_regs (w_reg w) r)"
    by (auto simp: fold_retire split: if_splits)
  note d = chan_invD [OF assms(1)]
  show ?thesis
  proof (rule chan_invI, goal_cases)
    case (6 r) then show ?case using d(6) [of r] s by auto
  next
    case (7 r c) then show ?case using d(7) [of r c] s by (simp add: creating_def)
  next
    case (1 e q t) then show ?case using d(1) [of e q t] by (simp add: s)
  next
    case 2 then show ?case using d(2) by (simp add: s)
  next
    case (3 e q) then show ?case using d(3) [of e q] by (simp add: s)
  next
    case (4 q e) then show ?case using d(4) [of q e] by (simp add: s)
  next
    case (5 e) then show ?case using d(5) [of e] by (simp add: s)
  qed
qed

lemma chan_inv_drain:
  assumes "chan_inv w" "name_inv w" "p \<in> set (w_published w)" "r \<in> set (pr_retiring p)" "drain r (w_reg w) = (previous, s)"
  shows "chan_inv (w\<lparr>w_reg := s, w_drained := r # w_drained w, w_closing := previous @ w_closing w\<rparr>)"
proof -
  have r: "r < rs_nextReg (w_reg w)" "\<not> rg_active (rs_regs (w_reg w) r)"
    using assms(2,3,4) by (auto simp: name_inv_def pub_ok_def prep_ok_def)
  have s: "previous = rg_channels (rs_regs (w_reg w) r)" "s = update_reg r (\<lambda>g. g\<lparr>rg_channels := []\<rparr>) (w_reg w)"
    using assms(5) by (auto simp: drain_def)
  note d = chan_invD [OF assms(1)]
  show ?thesis
  proof (rule chan_invI, goal_cases)
    case (4 r' c) then show ?case using d(4) [of r' c] by (auto simp: s update_reg_def split: if_splits)
  next
    case (5 c) then show ?case using d(5) [of c] by (auto simp: s update_reg_def)
  next
    case (6 r') then show ?case using d(6) [of r'] r by (auto simp: s update_reg_def)
  next
    case (7 r' c) then show ?case using d(7) [of r' c] by (auto simp: s update_reg_def creating_def split: if_splits)
  next
    case (1 e q t) then show ?case using d(1) [of e q t] by (simp add: s update_reg_def)
  next
    case 2 then show ?case using d(2) by (simp add: s update_reg_def)
  next
    case (3 e q) then show ?case using d(3) [of e q] by (simp add: s update_reg_def)
  qed
qed

lemma chan_inv_close:
  assumes "chan_inv w" "set (w_closing w) \<subseteq> insert c (set closing)"
  shows "chan_inv (w\<lparr>w_reg := close_channel c (w_reg w), w_closing := closing\<rparr>)"
proof -
  note d = chan_invD [OF assms(1)]
  show ?thesis
  proof (rule chan_invI, goal_cases)
    case (5 e) then show ?case using d(5) [of e] assms(2) by (auto simp: close_channel_def)
  next
    case (7 r e) then show ?case using d(7) [of r e] by (simp add: close_channel_def creating_def)
  next
    case (1 e q t) then show ?case using d(1) [of e q t] by (simp add: close_channel_def)
  next
    case 2 then show ?case using d(2) by (simp add: close_channel_def)
  next
    case (3 e q) then show ?case using d(3) [of e q] by (simp add: close_channel_def)
  next
    case (4 q e) then show ?case using d(4) [of q e] by (simp add: close_channel_def)
  next
    case (6 q) then show ?case using d(6) [of q] by (simp add: close_channel_def)
  qed
qed

lemma chan_inv_found:
  assumes "chan_inv w" "name_inv w" "w_owner w c = None" "omap_find (sn_entries (rs_current (w_reg w))) name = Some r"
  shows "chan_inv (w\<lparr>w_reg := create_find c name (w_reg w), w_owner := (w_owner w)(c \<mapsto> r)\<rparr>)"
proof -
  have r: "r < rs_nextReg (w_reg w)" using assms(2,4) by (auto simp: name_inv_def dest: snapshot_okD)
  note d = chan_invD [OF assms(1)]
  have fresh: "c \<notin> fst ` set (rs_creating (w_reg w))"
    using d(1) assms(3) by fastforce
  have new: "c \<notin> set (rs_open (w_reg w))" using d(5) [of c] assms(3) by auto
  note f = create_find_def assms(4)
  show ?thesis
  proof (rule chan_invI, goal_cases)
    case (1 e r' t) then show ?case using d(1) [of e r' t] fresh by (force simp: f)
  next
    case 2 then show ?case using d(2) fresh by (simp add: f)
  next
    case (3 e r') then show ?case using d(3) [of e r'] r by (auto simp: f split: if_splits)
  next
    case (4 r' e) then show ?case using d(4) [of r' e] assms(3) by (auto simp: f)
  next
    case (5 e) then show ?case using d(5) [of e] new by (auto simp: f)
  next
    case (6 r') then show ?case using d(6) [of r'] by (simp add: f)
  next
    case (7 r' e) then show ?case using d(7) [of r' e] by (auto simp: f creating_def)
  qed
qed

lemma chan_inv_track:
  assumes "chan_inv w" "(c, r, Found) \<in> set (rs_creating (w_reg w))"
  shows "chan_inv (w\<lparr>w_reg := create_track c r (w_reg w)\<rparr>)"
proof -
  note d = chan_invD [OF assms(1)]
  have own: "w_owner w c = Some r" by (rule d(1) [OF assms(2)])
  have mem: "c \<in> fst ` set (rs_creating (w_reg w))" using assms(2) by force
  note f = create_track_def track_def update_reg_def
  show ?thesis
  proof (rule chan_invI, goal_cases)
    case (1 e r' t) then show ?case using d(1) [of e r'] by (auto simp: f advance_mem split: if_splits)
  next
    case (4 r' e) then show ?case using d(4) [of r' e] own by (auto simp: f split: if_splits)
  next
    case (5 e) then show ?case using d(5) [of e] own by (auto simp: f advance_mem)
  next
    case (6 r') then show ?case using d(6) [of r'] by (auto simp: f)
  next
    case (7 r' e) then show ?case using d(7) [of r' e] mem by (auto simp: f creating_def split: if_splits)
  next
    case 2 then show ?case using d(2) by (simp add: f)
  next
    case (3 e q) then show ?case using d(3) [of e q] by (simp add: f)
  qed
qed

lemma not_found_stage:
  assumes "chan_inv w" "(c, r, t) \<in> set (rs_creating (w_reg w))" "t \<noteq> Found"
  shows "(c, r', Found) \<notin> set (rs_creating (w_reg w))"
  using chan_invD(2) [OF assms(1)] assms(2,3) by (metis eq_key_imp_eq_value prod.inject)

lemma chan_inv_advance:
  assumes "chan_inv w" "(c, r, Tracked) \<in> set (rs_creating (w_reg w))"
  shows "chan_inv (w\<lparr>w_reg := (w_reg w)\<lparr>rs_creating := advance c Attached (rs_creating (w_reg w))\<rparr>\<rparr>)"
proof -
  note d = chan_invD [OF assms(1)]
  have stage: "(c, r', Found) \<notin> set (rs_creating (w_reg w))" for r'
    by (rule not_found_stage [OF assms]) simp
  show ?thesis
  proof (rule chan_invI, goal_cases)
    case (1 e r' t) then show ?case using d(1) [of e r'] by (auto simp: advance_mem split: if_splits)
  next
    case (5 e) then show ?case using d(5) [of e] stage by (auto simp: advance_mem)
  next
    case (7 r' e) then show ?case using d(7) [of r' e] by (simp add: creating_def)
  next
    case 2 then show ?case using d(2) by (simp)
  next
    case (3 e q) then show ?case using d(3) [of e q] by (simp)
  next
    case (4 q e) then show ?case using d(4) [of q e] by (simp)
  next
    case (6 q) then show ?case using d(6) [of q] by (simp)
  qed
qed

lemma chan_inv_leave:
  assumes "chan_inv w" "(c, r, t) \<in> set (rs_creating (w_reg w))" "t \<noteq> Found"
    and "rg_active (rs_regs (w_reg w) r) \<or> c \<notin> set opened" "set opened \<subseteq> set (rs_open (w_reg w))"
  shows "chan_inv (w\<lparr>w_reg := (w_reg w)\<lparr>rs_open := opened, rs_creating := filter (\<lambda>(d, _). d \<noteq> c) (rs_creating (w_reg w))\<rparr>\<rparr>)"
proof -
  note d = chan_invD [OF assms(1)]
  have own: "w_owner w c = Some r" by (rule d(1) [OF assms(2)])
  show ?thesis
  proof (rule chan_invI, goal_cases)
    case 2 show ?case using d(2) by (simp add: distinct_map_filter)
  next
    case (5 e) then show ?case using d(5) [of e] not_found_stage [OF assms(1-3)] assms(5) by (cases "e = c") auto
  next
    case (7 r' e) then show ?case
      using d(4) [of r' e] d(6) [of r'] d(7) [of r' e] own assms(4,5) by (force simp: creating_def)
  next
    case (1 e q t) then show ?case using d(1) [of e q t] by (simp)
  next
    case (3 e q) then show ?case using d(3) [of e q] by (simp)
  next
    case (4 q e) then show ?case using d(4) [of q e] by (simp)
  next
    case (6 q) then show ?case using d(6) [of q] by (simp)
  qed
qed

lemma reachable_chan_inv: "reg_reachable w \<Longrightarrow> chan_inv w"
proof (induction rule: reg_reachable.induct)
  case init
  show ?case by (rule chan_invI) (simp_all add: start_world_def make_registry_def blank_registration_def)
next
  case (prepare w desired wrappers p s)
  then show ?case using reachable_name_inv chan_inv_prepare by blast
next
  case (publish w p commit e s)
  then show ?case using chan_inv_publish by blast
next
  case (drain w p r previous s)
  then show ?case using reachable_name_inv chan_inv_drain by blast
next
  case (close w c)
  then show ?case by (intro chan_inv_close) auto
next
  case (found w c name r)
  then show ?case using reachable_name_inv chan_inv_found by blast
next
  case (track w c r)
  then show ?case by (intro chan_inv_track)
next
  case (attach w c r accepted)
  have "chan_inv (w\<lparr>w_reg := (w_reg w)\<lparr>rs_open := removeAll c (rs_open (w_reg w)),
      rs_creating := filter (\<lambda>(d, _). d \<noteq> c) (rs_creating (w_reg w))\<rparr>\<rparr>)"
    by (rule chan_inv_leave [OF attach(3,2)]) auto
  then show ?case using chan_inv_advance [OF attach(3,2)] by (simp add: create_attach_def close_channel_def)
next
  case (check w c r)
  have "chan_inv (w\<lparr>w_reg := (w_reg w)\<lparr>rs_open := (if rg_active (rs_regs (w_reg w) r) then rs_open (w_reg w)
      else removeAll c (rs_open (w_reg w))), rs_creating := filter (\<lambda>(d, _). d \<noteq> c) (rs_creating (w_reg w))\<rparr>\<rparr>)"
    by (rule chan_inv_leave [OF check(3,2)]) auto
  then show ?case by (simp add: create_check_def close_channel_def Let_def split: if_splits)
next
  case (peer w c)
  then show ?case using chan_inv_close [of w c "w_closing w"] by auto
qed

section \<open>Properties\<close>

text \<open>The namespace a registry serves: for each name, the owner behind it and its access assignment.\<close>

definition namespace_of :: "PVBindings \<Rightarrow> string \<rightharpoonup> nat option \<times> AccessAssignment" where
  "namespace_of bs name = map_option (\<lambda>b. (pb_owner b, pb_access b)) (omap_find bs name)"

definition namespace :: "Registry \<Rightarrow> string \<rightharpoonup> nat option \<times> AccessAssignment" where
  "namespace s = namespace_of (bindings s)"

lemma find_bindings:
  "omap_find (bindings s) name = map_option (\<lambda>r. rg_binding (rs_regs s r)) (omap_find (sn_entries (rs_current s)) name)"
  unfolding bindings_def by (simp add: map_of_map)

lemma namespace_cong:
  assumes "rs_current t = rs_current s"
    and "\<And>name r. omap_find (sn_entries (rs_current s)) name = Some r \<Longrightarrow> rs_regs t r = rs_regs s r"
  shows "namespace t = namespace s"
proof
  show "namespace t name = namespace s name" for name
    using assms by (cases "omap_find (sn_entries (rs_current s)) name") (auto simp: namespace_def namespace_of_def find_bindings)
qed

lemma published_binding:
  "rg_binding (rs_regs (fold retire rs s) r) = rg_binding (rs_regs s r)"
  "rg_channels (rs_regs (fold retire rs s) r) = rg_channels (rs_regs s r)"
  by (simp_all add: fold_retire)

lemma namespace_installed:
  assumes "omap_wf desired" "\<forall>(name, b) \<in> set desired. installed s t (sn_entries sn) name b"
    and "map fst (sn_entries sn) = map fst desired"
  shows "namespace ((fold retire rs (t\<lparr>rs_nextSnap := k\<rparr>))\<lparr>rs_current := sn\<rparr>) = namespace_of desired"
proof
  fix name
  let ?s = "(fold retire rs (t\<lparr>rs_nextSnap := k\<rparr>))\<lparr>rs_current := sn\<rparr>"
  show "namespace ?s name = namespace_of desired name"
  proof (cases "omap_find desired name")
    case None
    then have "name \<notin> set (map fst (sn_entries sn))"
      unfolding assms(3) by (simp add: map_of_eq_None_iff)
    then have "omap_find (sn_entries sn) name = None"
      by (simp add: map_of_eq_None_iff)
    then show ?thesis
      using None by (simp add: namespace_def namespace_of_def find_bindings)
  next
    case (Some b)
    then have "installed s t (sn_entries sn) name b"
      using assms(2) map_of_SomeD by fastforce
    then obtain r where "omap_find (sn_entries sn) name = Some r" "same_registration (rs_regs t r) b"
      by (auto simp: installed_def)
    then show ?thesis
      using Some by (simp add: namespace_def namespace_of_def find_bindings published_binding same_registration_def)
  qed
qed

lemma same_kept_channels:
  assumes "\<forall>(name, b) \<in> set desired. installed s t entries name b" "omap_find desired name = Some b"
    and "kept s name r" "same_registration (rs_regs s r) b"
  shows "omap_find entries name = Some r"
proof -
  have "installed s t entries name b" using assms(1,2) map_of_SomeD by fastforce
  then show ?thesis using assms(3,4) by (auto simp: installed_def)
qed


text \<open>
  C25: Of the preparations made from one snapshot at most one is published: once one of them has
  been, publishing another, or the same one again, is refused and changes nothing.
\<close>

theorem stale_preparation_refused:
  assumes "reg_reachable w" "p \<in> set (w_prepared w)" "q \<in> set (w_published w)"
    and "sn_id (pr_previous p) = sn_id (pr_previous q)"
  shows "publish (Some p) commit (w_reg w) = (False, ''endpoint publication changed during preparation'', w_reg w)"
proof -
  have "prep_ok (w_reg w) q" "pub_ok (w_reg w) q"
    using reachable_name_inv [OF assms(1)] assms(3) by (auto simp: name_inv_def)
  then have "sn_id (pr_previous p) \<noteq> sn_id (rs_current (w_reg w))"
    using assms(4) by (simp add: prep_ok_def pub_ok_def)
  then show ?thesis by (simp add: publish_def)
qed

text \<open>
  Every name the registry lists is one it claims in a search, and is served by a registration
  that is active: a retired registration is never in the published namespace.
\<close>

theorem listed_names_are_served:
  assumes "reg_reachable w" "name \<in> set (onList (w_reg w))"
  shows "onSearch [name] (w_reg w) = [name]
    \<and> (\<exists>r. omap_find (sn_entries (rs_current (w_reg w))) name = Some r \<and> rg_active (rs_regs (w_reg w) r)
         \<and> tracked_connect_event (w_reg w) r OnGet = Forward)"
proof -
  have ok: "snapshot_ok (w_reg w) (rs_current (w_reg w))"
    using reachable_name_inv [OF assms(1)] by (simp add: name_inv_def)
  then have "name \<in> fst ` set (sn_entries (rs_current (w_reg w)))"
    using assms(2) by (simp add: snapshot_ok_def onList_def)
  then obtain r where r: "omap_find (sn_entries (rs_current (w_reg w))) name = Some r"
    by (metis map_of_eq_None_iff option.exhaust)
  then show ?thesis using snapshot_okD [OF ok r] by (auto simp: onSearch_def tracked_connect_event_def)
qed

text \<open>
  C23: No channel outlives the retirement of its registration. Once the channel list of a retired
  registration has been taken, a channel created on it that is still open is either one of those
  about to be closed or belongs to a creation still under way, whose last step closes it.
\<close>

theorem retired_channels_close:
  assumes "reg_reachable w" "r \<in> set (w_drained w)" "w_owner w c = Some r" "c \<in> set (rs_open (w_reg w))"
  shows "c \<in> set (w_closing w) \<or> creating (w_reg w) c \<and> c \<notin> set (rs_open (create_check c r (w_reg w)))"
proof -
  note d = chan_invD [OF reachable_chan_inv [OF assms(1)]]
  have r: "\<not> rg_active (rs_regs (w_reg w) r)" using d(6) [OF assms(2)] by simp
  have "(c, r, Found) \<in> set (rs_creating (w_reg w)) \<or> c \<in> set (rg_channels (rs_regs (w_reg w) r)) \<or> c \<in> set (w_closing w)"
    using d(5) [OF assms(4)] assms(3) by auto
  then have "creating (w_reg w) c \<or> c \<in> set (w_closing w)"
    using d(7) [OF assms(2) _ assms(4)] by (force simp: creating_def)
  then show ?thesis using r by (auto simp: create_check_def close_channel_def)
qed

section \<open>A retirement that overtakes a creation\<close>

definition do_prepare :: "PVBindings \<Rightarrow> world \<Rightarrow> world" where
  "do_prepare desired w = (case prepare desired [] (w_reg w) of
     Inr (p, s) \<Rightarrow> w\<lparr>w_reg := s, w_prepared := p # w_prepared w\<rparr> | Inl _ \<Rightarrow> w)"

definition do_publish :: "world \<Rightarrow> world" where
  "do_publish w = (case w_prepared w of [] \<Rightarrow> w | p # _ \<Rightarrow>
     (case publish (Some p) None (w_reg w) of (ok, e, s) \<Rightarrow>
        if ok then w\<lparr>w_reg := s, w_published := p # w_published w\<rparr> else w))"

definition demo_bindings :: PVBindings where
  "demo_bindings = [(''a'', \<lparr>pb_pv = Some 0, pb_owner = Some 7, pb_access = default_assignment\<rparr>)]"

definition demo_served :: world where
  "demo_served = do_publish (do_prepare demo_bindings start_world)"

definition demo_found :: world where
  "demo_found = demo_served\<lparr>w_reg := create_find 3 ''a'' (w_reg demo_served), w_owner := (w_owner demo_served)(3 \<mapsto> 0)\<rparr>"

definition demo_emptied :: world where
  "demo_emptied = do_publish (do_prepare [] demo_found)"

definition demo_drained :: world where
  "demo_drained = demo_emptied\<lparr>w_reg := snd (drain 0 (w_reg demo_emptied)), w_drained := 0 # w_drained demo_emptied,
     w_closing := fst (drain 0 (w_reg demo_emptied)) @ w_closing demo_emptied\<rparr>"

lemmas demo_eval = demo_bindings_def demo_served_def demo_found_def demo_emptied_def demo_drained_def
  do_prepare_def do_publish_def start_world_def make_registry_def prepare_def prepare_entry_def publish_def
  invalid_binding_def same_registration_def ebind_def Let_def registry_defs creating_def

lemma reachable_do_prepare: "reg_reachable w \<Longrightarrow> omap_wf desired \<Longrightarrow> reg_reachable (do_prepare desired w)"
  by (auto simp: do_prepare_def intro: reg_reachable.prepare split: sum.splits)

lemma reachable_do_publish: "reg_reachable w \<Longrightarrow> reg_reachable (do_publish w)"
  by (auto simp: do_publish_def intro: reg_reachable.publish split: list.splits prod.splits)

lemma reachable_demo_served: "reg_reachable demo_served"
  unfolding demo_served_def
  by (intro reachable_do_publish reachable_do_prepare reg_reachable.init) (simp add: demo_bindings_def omap_wf_def)

lemma reachable_demo_drained: "reg_reachable demo_drained"
proof -
  have "omap_find (sn_entries (rs_current (w_reg demo_served))) ''a'' = Some 0" "w_owner demo_served 3 = None"
    by (simp_all add: demo_eval)
  then have "reg_reachable demo_found"
    unfolding demo_found_def by (intro reg_reachable.found reachable_demo_served)
  then have e: "reg_reachable demo_emptied"
    unfolding demo_emptied_def by (intro reachable_do_publish reachable_do_prepare) simp_all
  have "\<exists>p \<in> set (w_published demo_emptied). 0 \<in> set (pr_retiring p)"
    by (simp add: demo_eval)
  then show ?thesis
    unfolding demo_drained_def using reg_reachable.drain [OF e] by (metis prod.collapse)
qed


lemma stale_preparation_refused_witness:
  "\<exists>p \<in> set (w_prepared demo_served). fst (publish (Some p) None (w_reg demo_served)) = False"
proof -
  have "\<exists>p. p \<in> set (w_prepared demo_served) \<and> p \<in> set (w_published demo_served)"
    by (simp add: demo_eval)
  then obtain p where p: "p \<in> set (w_prepared demo_served)" "p \<in> set (w_published demo_served)" by blast
  show ?thesis using stale_preparation_refused [OF reachable_demo_served p refl, of None] p(1) by (metis fst_conv)
qed

lemma listed_names_are_served_witness: "onSearch [''a''] (w_reg demo_served) = [''a'']"
proof -
  have "''a'' \<in> set (onList (w_reg demo_served))" by (simp add: demo_eval onList_def)
  then show ?thesis using listed_names_are_served [OF reachable_demo_served] by blast
qed

lemma retired_channels_close_witness:
  "3 \<in> set (rs_open (w_reg demo_drained)) \<and> 3 \<notin> set (rs_open (create_check 3 0 (w_reg demo_drained)))"
proof -
  have d: "0 \<in> set (w_drained demo_drained)" "w_owner demo_drained 3 = Some 0" "3 \<in> set (rs_open (w_reg demo_drained))"
    "3 \<notin> set (w_closing demo_drained)"
    by (simp_all add: demo_eval blank_registration_def)
  then show ?thesis using retired_channels_close [OF reachable_demo_drained d(1-3)] by blast
qed

end
