(* ===== verification/Alarm_Publisher.thy ===== *)
theory Alarm_Publisher
  imports Value_Util
begin

text \<open>
  The parts of the alarm publisher without concurrency: the fields of a stream entry
  (\<open>src/alarm_publisher.cpp\<close>), the fixed-size copy of an alarm state, the byte budget, the ring of
  transitions and the Redis connection (\<open>src/alarm_worker.cpp\<close>). The EPICS alarm tables and hiredis
  are parameters. The ring implements a bounded first-in first-out queue.
\<close>

unbundle bit_operations_syntax

section \<open>Stream fields\<close>

text \<open>\<open>alarm.h\<close> of EPICS base: the numbers of the enumerators and the tables of their names.\<close>

record epics_alarm =
  ea_condition :: "epicsCondition \<Rightarrow> int"
  ea_severity :: "epicsSeverity \<Rightarrow> int"
  ea_nstatus :: int
  ea_nsev :: int
  ea_conditionStrings :: "string list"
  ea_severityStrings :: "string list"

definition int_to_string :: "int \<Rightarrow> string" where
  "int_to_string n = (if n < 0 then ''-'' @ to_string (nat (- n)) else to_string (nat n))"

type_synonym AlarmStreamFields = "(string \<times> string) list"

definition status_text :: "epics_alarm \<Rightarrow> AlarmState \<Rightarrow> string" where
  "status_text E state = (let n = ea_condition E (st_status state) in
     if 0 \<le> n \<and> n < ea_nstatus E then ea_conditionStrings E ! nat n else ''INVALID'')"

definition severity_text :: "epics_alarm \<Rightarrow> AlarmState \<Rightarrow> string" where
  "severity_text E state = (let n = ea_severity E (st_severity state) in
     if 0 \<le> n \<and> n < ea_nsev E then ea_severityStrings E ! nat n
     else ea_severityStrings E ! nat (ea_severity E epicsSevInvalid))"

definition makeAlarmStreamFields :: "epics_alarm \<Rightarrow> string \<Rightarrow> AlarmState \<Rightarrow> int \<Rightarrow> AlarmStreamFields" where
  "makeAlarmStreamFields E pvName state timestamp =
     (let status = status_text E state; severity = severity_text E state;
          clear = (st_status state = epicsAlarmNone \<and> st_severity state = epicsSevNone)
      in [(''device'', pvName), (''source'', status), (''severity'', severity),
          (''timestamp'', int_to_string timestamp), (''detail'', status)]
         @ (if \<not> clear then [(''message'', if st_message state = [] then status @ '' alarm is '' @ severity else st_message state)]
            else []))"

section \<open>Stored states\<close>

text \<open>
  The copy of a state kept in a slot or a ring entry: an array of 512 bytes of which the first
  \<open>length\<close> are the message. Only those are read, so they are what the model keeps.
\<close>

record StoredState =
  ss_severity :: epicsSeverity
  ss_status :: epicsCondition
  ss_message :: string

definition message_capacity :: nat where
  "message_capacity = 512"

definition continuation_byte :: "char \<Rightarrow> bool" where
  "continuation_byte c \<longleftrightarrow> (of_char c :: 8 word) AND 0xC0 = 0x80"

text \<open>Step back while the byte at the cut continues a character.\<close>

fun cut_back :: "string \<Rightarrow> nat \<Rightarrow> nat" where
  "cut_back message 0 = 0"
| "cut_back message (Suc n) = (if continuation_byte (message ! Suc n) then cut_back message n else Suc n)"

definition encode :: "AlarmState \<Rightarrow> StoredState \<times> bool" where
  "encode state =
     (let size = length (st_message state);
          truncated = message_capacity < size;
          kept = min size (message_capacity - (if truncated then 3 else 0));
          kept = (if truncated then cut_back (st_message state) kept else kept)
      in (\<lparr>ss_severity = st_severity state, ss_status = st_status state,
           ss_message = take kept (st_message state) @ (if truncated then ''...'' else [])\<rparr>, truncated))"

definition decode :: "StoredState \<Rightarrow> AlarmState" where
  "decode s = \<lparr>st_severity = ss_severity s, st_status = ss_status s, st_message = ss_message s\<rparr>"

definition same_stored :: "StoredState \<Rightarrow> StoredState \<Rightarrow> bool" where
  "same_stored a b \<longleftrightarrow> ss_severity a = ss_severity b \<and> ss_status a = ss_status b
     \<and> length (ss_message a) = length (ss_message b) \<and> ss_message a = ss_message b"

section \<open>Budget\<close>

record Budget =
  bg_limit :: nat
  bg_used :: nat
  bg_peak :: nat

definition budget_acquire :: "nat \<Rightarrow> Budget \<Rightarrow> Budget option" where
  "budget_acquire bytes b =
     (if bg_limit b < bytes \<or> bg_limit b - bytes < bg_used b then None
      else Some (b\<lparr>bg_used := bg_used b + bytes, bg_peak := max (bg_peak b) (bg_used b + bytes)\<rparr>))"

definition budget_release :: "nat \<Rightarrow> Budget \<Rightarrow> Budget" where
  "budget_release bytes b = b\<lparr>bg_used := bg_used b - bytes\<rparr>"

section \<open>Ring\<close>

record 'e ring =
  rb_cells :: "'e list"
  rb_head :: nat
  rb_count :: nat

definition ring_make :: "nat \<Rightarrow> 'e \<Rightarrow> 'e ring" where
  "ring_make n blank = \<lparr>rb_cells = replicate n blank, rb_head = 0, rb_count = 0\<rparr>"

definition ring_push :: "'e \<Rightarrow> 'e ring \<Rightarrow> 'e ring" where
  "ring_push e r = r\<lparr>rb_cells := (rb_cells r)[(rb_head r + rb_count r) mod length (rb_cells r) := e], rb_count := rb_count r + 1\<rparr>"

definition ring_pop :: "'e ring \<Rightarrow> 'e \<times> 'e ring" where
  "ring_pop r = (rb_cells r ! rb_head r,
     r\<lparr>rb_head := (rb_head r + 1) mod length (rb_cells r), rb_count := rb_count r - 1\<rparr>)"

fun ring_drop :: "nat \<Rightarrow> 'e ring \<Rightarrow> 'e ring" where
  "ring_drop 0 r = r"
| "ring_drop (Suc n) r = ring_drop n (snd (ring_pop r))"

definition ring_clear :: "'e ring \<Rightarrow> 'e ring" where
  "ring_clear r = ring_drop (rb_count r) r"

section \<open>Connection\<close>

text \<open>
  hiredis as the publisher uses it: whether a connection attempt succeeds and whether the context
  is in error, and the reply to a command, \<open>None\<close> when there is none.
\<close>

datatype reply = ErrorType | StringType | StatusType | OtherType

record hiredis =
  hr_connect :: bool
  hr_broken :: bool
  hr_command :: "string list \<Rightarrow> reply option"

record connection =
  cn_context :: bool
  cn_authenticated :: bool

datatype SendResult = Accepted | Rejected | Unavailable

definition reset :: connection where
  "reset = \<lparr>cn_context = False, cn_authenticated = False\<rparr>"

definition auth_command :: "string \<Rightarrow> string \<Rightarrow> string list" where
  "auth_command user password = (if user = [] then [''AUTH'', password] else [''AUTH'', user, password])"

text \<open>Each operation also lists the commands it sends, in order.\<close>

definition connect :: "hiredis \<Rightarrow> string \<Rightarrow> string \<Rightarrow> connection \<Rightarrow> SendResult \<times> connection \<times> string list list" where
  "connect R user password c =
     (let fresh = (\<not> cn_context c \<or> hr_broken R);
          c = (if fresh then reset else c) in
      if fresh \<and> \<not> hr_connect R then (Unavailable, reset, [])
      else
        let c = c\<lparr>cn_context := True\<rparr> in
        if \<not> cn_authenticated c \<and> (user \<noteq> [] \<or> password \<noteq> []) then
          (let cmd = auth_command user password in
           case hr_command R cmd of
             None \<Rightarrow> (Unavailable, reset, [cmd])
           | Some ErrorType \<Rightarrow> (Rejected, c, [cmd])
           | Some _ \<Rightarrow> (Accepted, c\<lparr>cn_authenticated := True\<rparr>, [cmd]))
        else (Accepted, c\<lparr>cn_authenticated := True\<rparr>, []))"

definition xadd_command :: "epics_alarm \<Rightarrow> string \<Rightarrow> string \<Rightarrow> StoredState \<Rightarrow> int \<Rightarrow> string list" where
  "xadd_command E stream name state timestamp =
     [''XADD'', stream, ''MAXLEN'', ''99999'', ''*'']
     @ concat (map (\<lambda>(field, v). [field, v]) (makeAlarmStreamFields E name (decode state) timestamp))"

text \<open>\<open>send\<close> and \<open>ping\<close>: connect, one command, and the type of reply that means acceptance.\<close>

definition exchange :: "hiredis \<Rightarrow> string \<Rightarrow> string \<Rightarrow> string list \<Rightarrow> reply \<Rightarrow> connection
    \<Rightarrow> SendResult \<times> connection \<times> string list list" where
  "exchange R user password cmd expected c =
     (case connect R user password c of (result, c', sent) \<Rightarrow>
        if result \<noteq> Accepted then (result, c', sent)
        else case hr_command R cmd of
            None \<Rightarrow> (Unavailable, reset, sent @ [cmd])
          | Some t \<Rightarrow> (if t = expected then Accepted else Rejected, c', sent @ [cmd]))"

definition send :: "epics_alarm \<Rightarrow> hiredis \<Rightarrow> string \<Rightarrow> string \<Rightarrow> string \<Rightarrow> string \<Rightarrow> StoredState \<Rightarrow> int \<Rightarrow> connection
    \<Rightarrow> SendResult \<times> connection \<times> string list list" where
  "send E R user password stream name state timestamp =
     exchange R user password (xadd_command E stream name state timestamp) StringType"

definition ping :: "hiredis \<Rightarrow> string \<Rightarrow> string \<Rightarrow> connection \<Rightarrow> SendResult \<times> connection \<times> string list list" where
  "ping R user password = exchange R user password [''PING''] StatusType"

section \<open>The bounded queue\<close>

text \<open>Taking a number of entries out, one after the other.\<close>

primrec pops :: "('q \<Rightarrow> 'e \<times> 'q) \<Rightarrow> nat \<Rightarrow> 'q \<Rightarrow> 'e list \<times> 'q" where
  "pops pop 0 q = ([], q)"
| "pops pop (Suc n) q = (let (e, q') = pop q; (es, q'') = pops pop n q' in (e # es, q''))"

locale bounded_fifo =
  fixes ok :: "'q \<Rightarrow> bool" and contents :: "'q \<Rightarrow> 'e list" and capacity :: "'q \<Rightarrow> nat"
    and push :: "'e \<Rightarrow> 'q \<Rightarrow> 'q" and pop :: "'q \<Rightarrow> 'e \<times> 'q" and clear :: "'q \<Rightarrow> 'q"
  assumes bounded: "ok q \<Longrightarrow> length (contents q) \<le> capacity q"
    and push: "ok q \<Longrightarrow> length (contents q) < capacity q \<Longrightarrow>
      ok (push e q) \<and> contents (push e q) = contents q @ [e] \<and> capacity (push e q) = capacity q"
    and pop: "ok q \<Longrightarrow> contents q = e # es \<Longrightarrow>
      fst (pop q) = e \<and> ok (snd (pop q)) \<and> contents (snd (pop q)) = es \<and> capacity (snd (pop q)) = capacity q"
    and clear: "ok q \<Longrightarrow> ok (clear q) \<and> contents (clear q) = [] \<and> capacity (clear q) = capacity q"
begin

lemma push_all:
  "ok q \<Longrightarrow> length (contents q) + length es \<le> capacity q \<Longrightarrow>
     ok (fold push es q) \<and> contents (fold push es q) = contents q @ es \<and> capacity (fold push es q) = capacity q"
proof (induction es arbitrary: q)
  case (Cons e es)
  have "ok (push e q) \<and> contents (push e q) = contents q @ [e] \<and> capacity (push e q) = capacity q"
    by (rule push) (use Cons.prems in auto)
  then show ?case using Cons.IH [of "push e q"] Cons.prems by simp
qed simp

lemma pop_all:
  "ok q \<Longrightarrow> contents q = es @ rest \<Longrightarrow> fst (pops pop (length es) q) = es \<and> ok (snd (pops pop (length es) q))
     \<and> contents (snd (pops pop (length es) q)) = rest"
proof (induction es arbitrary: q)
  case (Cons e es)
  then show ?case using pop [of q e "es @ rest"] Cons.IH [of "snd (pop q)"] by (simp add: split_beta Let_def)
qed simp

lemma pop_loses_one:
  "ok q \<Longrightarrow> contents q \<noteq> [] \<Longrightarrow>
     ok (snd (pop q)) \<and> contents q = fst (pop q) # contents (snd (pop q)) \<and> capacity (snd (pop q)) = capacity q"
  using pop by (cases "contents q") auto

lemma first_in_first_out:
  assumes "ok q" "length (contents q) + length es \<le> capacity q"
  shows "fst (pops pop (length (contents q) + length es) (fold push es q)) = contents q @ es"
  using pop_all [of "fold push es q" "contents q @ es" "[]"] push_all [OF assms] by simp

end

definition ring_ok :: "'e ring \<Rightarrow> bool" where
  "ring_ok r \<longleftrightarrow> rb_head r < length (rb_cells r) \<and> rb_count r \<le> length (rb_cells r)"

definition ring_contents :: "'e ring \<Rightarrow> 'e list" where
  "ring_contents r = map (\<lambda>i. rb_cells r ! ((rb_head r + i) mod length (rb_cells r))) [0..<rb_count r]"

definition ring_size :: "'e ring \<Rightarrow> nat" where
  "ring_size r = length (rb_cells r)"

lemma mod_shift_neq: "i < j \<Longrightarrow> j < (n::nat) \<Longrightarrow> (h + i) mod n \<noteq> (h + j) mod n"
proof
  assume ij: "i < j" "j < n" and eq: "(h + i) mod n = (h + j) mod n"
  have "n dvd (h + j) - (h + i)" using eq ij(1) by (metis add_left_mono less_imp_le mod_eq_dvd_iff_nat)
  then have "n dvd j - i" by simp
  then show False using ij by (auto dest: dvd_imp_le)
qed

lemma ring_push_contents:
  assumes "ring_ok r" "rb_count r < length (rb_cells r)"
  shows "ring_contents (ring_push e r) = ring_contents r @ [e]"
proof -
  let ?n = "length (rb_cells r)"
  have "(rb_cells r)[(rb_head r + rb_count r) mod ?n := e] ! ((rb_head r + i) mod ?n) = rb_cells r ! ((rb_head r + i) mod ?n)"
    if "i < rb_count r" for i
    using mod_shift_neq [OF that assms(2), of "rb_head r"] by simp
  moreover have "(rb_head r + rb_count r) mod ?n < ?n" using assms(2) by (intro mod_less_divisor) linarith
  ultimately show ?thesis by (simp add: ring_contents_def ring_push_def)
qed

lemma ring_pop_contents:
  assumes "ring_ok r" "0 < rb_count r"
  shows "ring_contents r = fst (ring_pop r) # ring_contents (snd (ring_pop r))"
proof -
  let ?n = "length (rb_cells r)"
  have up: "[0..<rb_count r] = 0 # map Suc [0..<rb_count r - 1]"
    using assms(2) by (simp add: map_Suc_upt upt_conv_Cons)
  have shift: "rb_cells r ! ((rb_head r + Suc i) mod ?n) = rb_cells r ! (((rb_head r + 1) mod ?n + i) mod ?n)" for i
    by (simp add: mod_simps)
  have "rb_cells r ! ((rb_head r + 0) mod ?n) = rb_cells r ! rb_head r"
    using assms(1) by (simp add: ring_ok_def)
  then show ?thesis
    unfolding ring_contents_def ring_pop_def up list.map map_map o_def shift by simp
qed

lemma ring_drop_ok:
  assumes "ring_ok r" "n \<le> rb_count r"
  shows "ring_ok (ring_drop n r) \<and> rb_count (ring_drop n r) = rb_count r - n \<and> ring_size (ring_drop n r) = ring_size r"
  using assms
proof (induction n arbitrary: r)
  case (Suc n)
  have "ring_ok (snd (ring_pop r))"
    using Suc.prems by (auto simp: ring_ok_def ring_pop_def intro: mod_less_divisor)
  then show ?case using Suc.IH [of "snd (ring_pop r)"] Suc.prems(2) by (simp add: ring_pop_def ring_size_def)
qed simp

interpretation rq: bounded_fifo ring_ok ring_contents ring_size ring_push ring_pop ring_clear
proof unfold_locales
  fix q :: "'a ring" and e es
  assume ok: "ring_ok q"
  show "length (ring_contents q) \<le> ring_size q"
    using ok by (simp add: ring_contents_def ring_size_def ring_ok_def)
  show "ring_ok (ring_push e q) \<and> ring_contents (ring_push e q) = ring_contents q @ [e] \<and> ring_size (ring_push e q) = ring_size q"
    if "length (ring_contents q) < ring_size q"
    using that ok ring_push_contents [OF ok] by (simp add: ring_contents_def ring_size_def ring_ok_def ring_push_def)
  show "fst (ring_pop q) = e \<and> ring_ok (snd (ring_pop q)) \<and> ring_contents (snd (ring_pop q)) = es
      \<and> ring_size (snd (ring_pop q)) = ring_size q" if "ring_contents q = e # es"
  proof -
    have "0 < rb_count q" using that by (cases "rb_count q") (simp_all add: ring_contents_def)
    then show ?thesis
      using ring_pop_contents [OF ok] that ok by (auto simp: ring_pop_def ring_ok_def ring_size_def intro: mod_less_divisor)
  qed
  show "ring_ok (ring_clear q) \<and> ring_contents (ring_clear q) = [] \<and> ring_size (ring_clear q) = ring_size q"
    using ring_drop_ok [OF ok, of "rb_count q"] by (simp add: ring_clear_def ring_contents_def)
qed

lemma ring_make_ok: "0 < n \<Longrightarrow> ring_ok (ring_make n e) \<and> ring_contents (ring_make n e) = [] \<and> ring_size (ring_make n e) = n"
  by (simp add: ring_ok_def ring_make_def ring_contents_def ring_size_def)

lemma ring_count: "rb_count r = length (ring_contents r)"
  by (simp add: ring_contents_def)

text \<open>
  The ring is a first-in first-out queue wherever its head stands: after entries that fit have
  been added, taking everything out gives the entries that were there followed by the new ones, in order.
\<close>

theorem ring_first_in_first_out:
  assumes "ring_ok r" "rb_count r + length es \<le> length (rb_cells r)"
  shows "fst (pops ring_pop (rb_count r + length es) (fold ring_push es r)) = ring_contents r @ es"
  using rq.first_in_first_out [OF assms(1), of es] assms(2) by (simp add: ring_count ring_size_def)

lemma ring_first_in_first_out_witness:
  "fst (pops ring_pop (1 + 2) (fold ring_push [7, 8] \<lparr>rb_cells = [1, 2, 3::nat], rb_head = 2, rb_count = 1\<rparr>)) = [3, 7, 8]"
  using ring_first_in_first_out [of "\<lparr>rb_cells = [1, 2, 3::nat], rb_head = 2, rb_count = 1\<rparr>" "[7, 8]"]
  by (simp add: ring_ok_def ring_contents_def del: pops.simps)

section \<open>Stored messages\<close>

lemma cut_back_le: "cut_back m n \<le> n"
  by (induction n) auto

lemma cut_back_boundary: "\<not> (0 < cut_back m n \<and> continuation_byte (m ! cut_back m n))"
  by (induction n) auto

lemma cut_back_skips: "cut_back m n < i \<Longrightarrow> i \<le> n \<Longrightarrow> continuation_byte (m ! i)"
  by (induction n) (auto simp: le_Suc_eq split: if_splits)

text \<open>
  C39: What is stored of an alarm state. The severity and status are kept, a message of at most 512
  bytes is kept as it is, and decoding gives the state back. A longer one is cut to a prefix that
  ends before a byte which does not continue a UTF-8 character (or is empty), the longest such
  prefix of at most 509 bytes, followed by three dots.
\<close>

theorem encode_keeps_or_cuts:
  "\<exists>kept. decode (fst (encode state)) = state\<lparr>st_message := take kept (st_message state) @ (if snd (encode state) then ''...'' else [])\<rparr>
     \<and> length (ss_message (fst (encode state))) \<le> 512
     \<and> (snd (encode state) = (512 < length (st_message state)))
     \<and> (if snd (encode state)
        then kept \<le> 509 \<and> \<not> (0 < kept \<and> continuation_byte (st_message state ! kept))
             \<and> list_all (\<lambda>i. continuation_byte (st_message state ! i)) [Suc kept..<510]
        else kept = length (st_message state))"
proof (cases "512 < length (st_message state)")
  case True
  define k where "k = cut_back (st_message state) 509"
  have k: "k \<le> 509" "\<not> (0 < k \<and> continuation_byte (st_message state ! k))"
    unfolding k_def by (rule cut_back_le, rule cut_back_boundary)
  have skipped: "list_all (\<lambda>i. continuation_byte (st_message state ! i)) [Suc k..<510]"
    using cut_back_skips [of "st_message state" 509] by (simp add: list_all_iff k_def [symmetric] del: upt_Suc)
  have "encode state = (\<lparr>ss_severity = st_severity state, ss_status = st_status state,
      ss_message = take k (st_message state) @ ''...''\<rparr>, True)"
    using True by (simp add: encode_def Let_def message_capacity_def k_def)
  then show ?thesis
    using True k skipped by (intro exI [of _ k]) (simp add: decode_def del: upt_Suc)
next
  case False
  then show ?thesis
    by (intro exI [of _ "length (st_message state)"]) (simp add: encode_def decode_def Let_def message_capacity_def)
qed

section \<open>Authentication\<close>

definition trusted :: "string \<Rightarrow> string \<Rightarrow> connection \<Rightarrow> bool" where
  "trusted user password c \<longleftrightarrow> user = [] \<and> password = [] \<or> cn_authenticated c"

lemma connect_accepted:
  assumes "connect R user password c = (Accepted, c', sent)"
  shows "cn_context c' \<and> cn_authenticated c'
    \<and> (sent = [] \<and> (user = [] \<and> password = [] \<or> cn_authenticated c \<and> cn_context c \<and> \<not> hr_broken R)
       \<or> sent = [auth_command user password] \<and> hr_command R (auth_command user password) \<notin> {None, Some ErrorType})"
  using assms by (auto simp: connect_def Let_def reset_def split: if_splits option.splits reply.splits)

text \<open>
  C40: With credentials configured, a command reaches Redis only on a connection that was
  authenticated before or right after an \<open>AUTH\<close> that Redis did not refuse; a connection that fails
  is dropped with its authentication.
\<close>

theorem commands_follow_authentication:
  assumes "exchange R user password cmd expected c = (result, c', sent)" "cmd \<in> set sent" "cmd \<noteq> auth_command user password"
  shows "last sent = cmd
    \<and> (sent = [cmd] \<and> (user = [] \<and> password = [] \<or> cn_authenticated c \<and> cn_context c \<and> \<not> hr_broken R)
       \<or> sent = [auth_command user password, cmd] \<and> hr_command R (auth_command user password) \<notin> {None, Some ErrorType})
    \<and> (result = Unavailable \<longrightarrow> c' = reset)"
proof -
  obtain r1 c1 s1 where c: "connect R user password c = (r1, c1, s1)" by (cases "connect R user password c") auto
  have refused: "set s1 \<subseteq> {auth_command user password}"
    using c by (auto simp: connect_def Let_def split: if_splits option.splits reply.splits)
  have "r1 = Accepted" using assms c refused by (auto simp: exchange_def split: if_splits)
  then show ?thesis
    using assms c connect_accepted [of R user password c c1 s1]
    by (auto simp: exchange_def split: option.splits if_splits)
qed

lemma commands_follow_authentication_witness:
  "fst (exchange \<lparr>hr_connect = True, hr_broken = False, hr_command = (\<lambda>cmd. Some StatusType)\<rparr> [] ''pw'' [''PING''] StatusType reset) = Accepted
   \<and> snd (snd (exchange \<lparr>hr_connect = True, hr_broken = False, hr_command = (\<lambda>cmd. Some StatusType)\<rparr> [] ''pw'' [''PING''] StatusType reset))
     = [[''AUTH'', ''pw''], [''PING'']]"
  using commands_follow_authentication [of "\<lparr>hr_connect = True, hr_broken = False, hr_command = (\<lambda>cmd. Some StatusType)\<rparr>" "[]" "''pw''"
    "[''PING'']" StatusType reset Accepted "\<lparr>cn_context = True, cn_authenticated = True\<rparr>" "[[''AUTH'', ''pw''], [''PING'']]"]
  by (simp add: exchange_def connect_def reset_def auth_command_def Let_def)

end
