(* ===== verification/Alarm_Worker.thy ===== *)
theory Alarm_Worker
  imports Alarm_Publisher
begin

text \<open>
  The concurrent part of \<open>src/alarm_worker.cpp\<close>: the slots of the registered alarm sources, the
  operations their owners call, and the worker that sends transitions to the alarm stream. Each
  critical section of the publisher's mutex is one function on the state; the worker gives the
  mutex up while it talks to Redis, so a round is a selection and a completion. The 64-bit counters
  are natural numbers: at one increment per event they do not wrap.
\<close>

section \<open>State\<close>

record AlarmPublisherOptions =
  ao_stateBytes :: nat
  ao_queueEntries :: nat
  ao_ioTimeoutMs :: nat
  ao_retryMs :: nat
  ao_heartbeatMs :: nat

record Slot =
  sl_name :: string
  sl_bytes :: nat
  sl_revision :: nat
  sl_delivered :: nat
  sl_deliveredEpoch :: nat
  sl_active :: bool
  sl_retired :: bool
  sl_force :: bool
  sl_latest :: StoredState

record Event =
  ev_slot :: nat
  ev_state :: StoredState
  ev_revision :: nat
  ev_timestamp :: int

record AlarmCounters =
  ct_sent :: nat
  ct_transportFailures :: nat
  ct_rejected :: nat
  ct_reconciled :: nat
  ct_coalescedUpdates :: nat
  ct_discardedTransitions :: nat
  ct_messagesTruncated :: nat
  ct_lastError :: string

text \<open>What the worker sends: an event, and whether it comes from reconciliation, or a ping.\<close>

datatype job = SendEvent Event bool | SendPing

record flight =
  fl_job :: job
  fl_epoch :: nat
  fl_bytes :: nat

record AlarmImpl =
  im_options :: AlarmPublisherOptions
  im_budget :: Budget
  im_ring :: "Event ring"
  im_slots :: "(nat, Slot) omap"
  im_names :: "(string, nat list) omap"
  im_nextId :: nat
  im_lastId :: nat
  im_epoch :: nat
  im_enabled :: bool
  im_stopping :: bool
  im_recovering :: bool
  im_live :: bool
  im_counters :: AlarmCounters
  im_retryAt :: nat
  im_heartbeat :: nat
  im_flight :: "flight option"

definition blank_state :: StoredState where
  "blank_state = \<lparr>ss_severity = epicsSevNone, ss_status = epicsAlarmNone, ss_message = []\<rparr>"

definition blank_event :: Event where
  "blank_event = \<lparr>ev_slot = 0, ev_state = blank_state, ev_revision = 0, ev_timestamp = 0\<rparr>"

definition zero_counters :: AlarmCounters where
  "zero_counters = \<lparr>ct_sent = 0, ct_transportFailures = 0, ct_rejected = 0, ct_reconciled = 0,
     ct_coalescedUpdates = 0, ct_discardedTransitions = 0, ct_messagesTruncated = 0, ct_lastError = []\<rparr>"

definition queue_entry_bytes :: nat where
  "queue_entry_bytes = 1024"

text \<open>The constructor. The ring is paid for before any slot; the clock starts at \<open>now\<close>.\<close>

definition make_publisher :: "AlarmPublisherOptions \<Rightarrow> nat \<Rightarrow> string + AlarmImpl" where
  "make_publisher options now =
     (if ao_queueEntries options = 0 \<or> ao_ioTimeoutMs options = 0 \<or> ao_retryMs options = 0 \<or> ao_heartbeatMs options = 0
        \<or> ao_stateBytes options div queue_entry_bytes < ao_queueEntries options
      then Inl ''alarm queue must fit within a positive state budget''
      else case budget_acquire (ao_queueEntries options * queue_entry_bytes) \<lparr>bg_limit = ao_stateBytes options, bg_used = 0, bg_peak = 0\<rparr> of
        None \<Rightarrow> Inl ''alarm state budget exceeded during preparation''
      | Some budget \<Rightarrow> Inr \<lparr>im_options = options, im_budget = budget, im_ring = ring_make (ao_queueEntries options) blank_event,
          im_slots = [], im_names = [], im_nextId = 0, im_lastId = 0, im_epoch = 1, im_enabled = False, im_stopping = False,
          im_recovering = True, im_live = False, im_counters = zero_counters, im_retryAt = 0, im_heartbeat = now, im_flight = None\<rparr>)"

section \<open>Slots\<close>

definition live_slot :: "AlarmImpl \<Rightarrow> nat \<Rightarrow> bool" where
  "live_slot s i = (case omap_find (im_slots s) i of None \<Rightarrow> False | Some sl \<Rightarrow> sl_active sl \<and> \<not> sl_retired sl)"

text \<open>The current slot of a name is the youngest one that is active and not retired.\<close>

definition current :: "AlarmImpl \<Rightarrow> nat \<Rightarrow> bool" where
  "current s i = (case omap_find (im_slots s) i of None \<Rightarrow> False | Some sl \<Rightarrow>
     live_slot s i \<and> (case omap_find (im_names s) (sl_name sl) of
        None \<Rightarrow> False
      | Some ids \<Rightarrow> (case filter (live_slot s) (rev ids) of [] \<Rightarrow> False | candidate # _ \<Rightarrow> candidate = i)))"

definition pending :: "AlarmImpl \<Rightarrow> Slot \<Rightarrow> bool" where
  "pending s sl \<longleftrightarrow> sl_force sl \<or> sl_deliveredEpoch sl \<noteq> im_epoch s \<or> sl_delivered sl < sl_revision sl"

definition pending_slot :: "AlarmImpl \<Rightarrow> nat \<Rightarrow> bool" where
  "pending_slot s i = (case omap_find (im_slots s) i of None \<Rightarrow> False | Some sl \<Rightarrow> pending s sl)"

definition set_slot :: "nat \<Rightarrow> Slot \<Rightarrow> AlarmImpl \<Rightarrow> AlarmImpl" where
  "set_slot i sl s = s\<lparr>im_slots := omap_assign i sl (im_slots s)\<rparr>"

definition count_discarded :: "nat \<Rightarrow> AlarmImpl \<Rightarrow> AlarmImpl" where
  "count_discarded n s = s\<lparr>im_counters := (im_counters s)\<lparr>ct_discardedTransitions := ct_discardedTransitions (im_counters s) + n\<rparr>\<rparr>"

definition discardQueue :: "AlarmImpl \<Rightarrow> AlarmImpl" where
  "discardQueue s = (count_discarded (rb_count (im_ring s)) s)\<lparr>im_ring := ring_clear (im_ring s)\<rparr>"

section \<open>Operations of the owners\<close>

definition reservation_bytes :: "string \<Rightarrow> nat" where
  "reservation_bytes name = 1024 + 2 * length name"

definition new_slot :: "string \<Rightarrow> StoredState \<Rightarrow> Slot" where
  "new_slot name latest = \<lparr>sl_name = name, sl_bytes = reservation_bytes name, sl_revision = 1, sl_delivered = 0, sl_deliveredEpoch = 0,
     sl_active = False, sl_retired = False, sl_force = True, sl_latest = latest\<rparr>"

definition count_truncated :: "bool \<Rightarrow> AlarmImpl \<Rightarrow> AlarmImpl" where
  "count_truncated truncated s = (if truncated
     then s\<lparr>im_counters := (im_counters s)\<lparr>ct_messagesTruncated := ct_messagesTruncated (im_counters s) + 1\<rparr>\<rparr> else s)"

text \<open>
  \<open>AlarmPublisher::prepare\<close>. The result names the new slot. A publisher that has stopped gives the
  reservation back, which leaves its mark on the peak only.
\<close>

definition prepare_slot :: "string \<Rightarrow> AlarmState \<Rightarrow> AlarmImpl \<Rightarrow> (string + nat) \<times> AlarmImpl" where
  "prepare_slot name state s =
     (if (2 ^ 64 - 1 - 1024) div 2 < length name then (Inl ''alarm name too large'', s)
      else case budget_acquire (reservation_bytes name) (im_budget s) of
        None \<Rightarrow> (Inl ''alarm state budget exceeded during preparation'', s)
      | Some budget \<Rightarrow>
          (let (latest, truncated) = encode state in
           if im_stopping s then (Inl ''alarm publisher stopped'', s\<lparr>im_budget := budget_release (reservation_bytes name) budget\<rparr>)
           else
             (let i = Suc (im_nextId s);
                  sl = new_slot name latest;
                  ids = (case omap_find (im_names s) name of None \<Rightarrow> [] | Some ids \<Rightarrow> ids)
              in (Inr i, count_truncated truncated (s\<lparr>im_budget := budget, im_nextId := i, im_slots := omap_emplace i sl (im_slots s),
                     im_names := omap_assign name (insort i ids) (im_names s)\<rparr>)))))"

text \<open>\<open>remove\<close>, from the destructor of a registration: a slot the worker is sending keeps its reservation until that is over.\<close>

definition sending :: "AlarmImpl \<Rightarrow> nat \<Rightarrow> bool" where
  "sending s i = (case im_flight s of
     Some f \<Rightarrow> (case fl_job f of SendEvent e _ \<Rightarrow> ev_slot e = i | SendPing \<Rightarrow> False) | None \<Rightarrow> False)"

definition remove_name :: "string \<Rightarrow> nat \<Rightarrow> (string, nat list) omap \<Rightarrow> (string, nat list) omap" where
  "remove_name name i names = (case omap_find names name of
     None \<Rightarrow> names
   | Some ids \<Rightarrow> if remove1 i ids = [] then omap_erase name names else omap_assign name (remove1 i ids) names)"

definition remove_slot :: "nat \<Rightarrow> AlarmImpl \<Rightarrow> AlarmImpl" where
  "remove_slot i s = (case omap_find (im_slots s) i of
     None \<Rightarrow> s
   | Some sl \<Rightarrow> s\<lparr>im_slots := omap_erase i (im_slots s), im_names := remove_name (sl_name sl) i (im_names s),
       im_budget := (if sending s i then im_budget s else budget_release (sl_bytes sl) (im_budget s))\<rparr>)"

text \<open>Where a new revision of a current slot goes: into the ring, or, when that is not possible, to reconciliation.\<close>

definition offer_update :: "Event \<Rightarrow> AlarmImpl \<Rightarrow> AlarmImpl" where
  "offer_update event s =
     (if im_enabled s \<and> current s (ev_slot event) then
        if im_live s \<and> \<not> im_recovering s \<and> rb_count (im_ring s) < ring_size (im_ring s)
        then s\<lparr>im_ring := ring_push event (im_ring s)\<rparr>
        else
          (let s = s\<lparr>im_counters := (im_counters s)\<lparr>ct_coalescedUpdates := ct_coalescedUpdates (im_counters s) + 1\<rparr>\<rparr> in
           if rb_count (im_ring s) = ring_size (im_ring s)
           then (discardQueue s)\<lparr>im_epoch := im_epoch s + 1, im_recovering := True\<rparr>
           else s)
      else s)"

definition update :: "nat \<Rightarrow> AlarmState \<Rightarrow> int \<Rightarrow> AlarmImpl \<Rightarrow> AlarmImpl" where
  "update i state time s =
     (let (encoded, truncated) = encode state in
      case omap_find (im_slots s) i of
        None \<Rightarrow> s
      | Some sl \<Rightarrow>
          if im_stopping s \<or> sl_retired sl \<or> same_stored (sl_latest sl) encoded then s
          else offer_update \<lparr>ev_slot = i, ev_state = encoded, ev_revision = sl_revision sl + 1, ev_timestamp = time\<rparr>
            (count_truncated truncated (set_slot i (sl\<lparr>sl_latest := encoded, sl_revision := sl_revision sl + 1\<rparr>) s)))"

definition activate_slot :: "nat \<Rightarrow> AlarmImpl \<Rightarrow> AlarmImpl" where
  "activate_slot i s = (case omap_find (im_slots s) i of
     None \<Rightarrow> s
   | Some sl \<Rightarrow> if \<not> sl_retired sl \<and> \<not> sl_active sl then set_slot i (sl\<lparr>sl_active := True, sl_force := True\<rparr>) s else s)"

definition retire_slot :: "nat \<Rightarrow> AlarmImpl \<Rightarrow> AlarmImpl" where
  "retire_slot i s = (case omap_find (im_slots s) i of
     None \<Rightarrow> s | Some sl \<Rightarrow> set_slot i (sl\<lparr>sl_active := False, sl_retired := True\<rparr>) s)"

definition activate_publisher :: "AlarmImpl \<Rightarrow> AlarmImpl" where
  "activate_publisher s = s\<lparr>im_enabled := True\<rparr>"

definition stop_publisher :: "AlarmImpl \<Rightarrow> AlarmImpl" where
  "stop_publisher s = s\<lparr>im_stopping := True\<rparr>"

section \<open>Worker\<close>

text \<open>Take transitions off the ring until one belongs to a current slot.\<close>

function pop_queue :: "AlarmImpl \<Rightarrow> Event option \<times> AlarmImpl" where
  "pop_queue s =
     (if rb_count (im_ring s) = 0 then (None, s)
      else let (event, ring) = ring_pop (im_ring s); s' = s\<lparr>im_ring := ring\<rparr> in
        if current s' (ev_slot event) then (Some event, s') else pop_queue (count_discarded 1 s'))"
  by pat_completeness auto
termination
  by (relation "measure (\<lambda>s. rb_count (im_ring s))") (auto simp: ring_pop_def count_discarded_def)

declare pop_queue.simps [simp del]

text \<open>The slots in the order of the scan: from the first one after \<open>lastId\<close>, around to the beginning.\<close>

definition scan_order :: "AlarmImpl \<Rightarrow> nat list" where
  "scan_order s = dropWhile (\<lambda>i. i \<le> im_lastId s) (map fst (im_slots s)) @ takeWhile (\<lambda>i. i \<le> im_lastId s) (map fst (im_slots s))"

definition latest_event :: "nat \<Rightarrow> Slot \<Rightarrow> int \<Rightarrow> Event" where
  "latest_event i sl time = \<lparr>ev_slot = i, ev_state = sl_latest sl, ev_revision = sl_revision sl, ev_timestamp = time\<rparr>"

definition take_off :: "job \<Rightarrow> AlarmImpl \<Rightarrow> AlarmImpl" where
  "take_off j s = s\<lparr>im_flight := Some \<lparr>fl_job = j, fl_epoch = im_epoch s,
     fl_bytes = (case j of SendPing \<Rightarrow> 0 | SendEvent e _ \<Rightarrow>
       (case omap_find (im_slots s) (ev_slot e) of None \<Rightarrow> 0 | Some sl \<Rightarrow> sl_bytes sl))\<rparr>\<rparr>"

text \<open>
  The first part of a round of \<open>run\<close>, up to releasing the mutex. \<open>None\<close> is a round that waits: the
  worker is stopping or not enabled, the retry time has not come, or there is nothing to send and no
  heartbeat is due.
\<close>

definition worker_select :: "nat \<Rightarrow> int \<Rightarrow> AlarmImpl \<Rightarrow> job option \<times> AlarmImpl" where
  "worker_select now time s =
     (if im_stopping s \<or> \<not> im_enabled s \<or> now < im_retryAt s then (None, s)
      else case pop_queue s of
        (Some event, s') \<Rightarrow> (Some (SendEvent event False), take_off (SendEvent event False) s')
      | (None, s') \<Rightarrow>
          (case find (\<lambda>i. current s' i \<and> pending_slot s' i) (scan_order s') of
             Some i \<Rightarrow>
               (let event = latest_event i (the (omap_find (im_slots s') i)) time in
                (Some (SendEvent event True), take_off (SendEvent event True) (s'\<lparr>im_lastId := i\<rparr>)))
           | None \<Rightarrow>
               (let s'' = (if im_live s' then s'\<lparr>im_recovering := False\<rparr> else s');
                    hasActive = list_ex (current s'') (map fst (im_slots s'')) in
                if \<not> hasActive \<or> now < im_heartbeat s'' then (None, s'')
                else (Some SendPing, take_off SendPing s''))))"

definition mark_delivered :: "Event \<Rightarrow> nat \<Rightarrow> AlarmImpl \<Rightarrow> AlarmImpl" where
  "mark_delivered e epoch s =
     (if current s (ev_slot e)
      then let sl = the (omap_find (im_slots s) (ev_slot e)) in
        set_slot (ev_slot e) (sl\<lparr>sl_delivered := max (sl_delivered sl) (ev_revision e), sl_deliveredEpoch := epoch, sl_force := False\<rparr>) s
      else s)"

definition accepted :: "flight \<Rightarrow> AlarmImpl \<Rightarrow> AlarmImpl" where
  "accepted f s =
     (let s = s\<lparr>im_live := True, im_counters := (im_counters s)\<lparr>ct_lastError := []\<rparr>\<rparr> in
      case fl_job f of
        SendPing \<Rightarrow> s
      | SendEvent e reconciliation \<Rightarrow>
          mark_delivered e (fl_epoch f) (s\<lparr>im_counters := (im_counters s)\<lparr>ct_sent := ct_sent (im_counters s) + 1,
            ct_reconciled := ct_reconciled (im_counters s) + (if reconciliation then 1 else 0)\<rparr>\<rparr>))"

definition failed :: "SendResult \<Rightarrow> nat \<Rightarrow> AlarmImpl \<Rightarrow> AlarmImpl" where
  "failed result now s =
     (let s = (if result = Rejected
               then s\<lparr>im_counters := (im_counters s)\<lparr>ct_rejected := ct_rejected (im_counters s) + 1,
                   ct_lastError := ''Redis rejected alarm delivery''\<rparr>\<rparr>
               else s\<lparr>im_counters := (im_counters s)\<lparr>ct_transportFailures := ct_transportFailures (im_counters s) + 1,
                   ct_lastError := ''Redis alarm transport unavailable''\<rparr>, im_live := False\<rparr>)
      in (discardQueue s)\<lparr>im_epoch := im_epoch s + 1, im_recovering := True, im_retryAt := now + ao_retryMs (im_options s)\<rparr>)"

text \<open>Landing: the worker lets go of the slot it sent, which ends the reservation of a slot removed meanwhile.\<close>

definition land :: "flight \<Rightarrow> AlarmImpl \<Rightarrow> AlarmImpl" where
  "land f s = (case fl_job f of
       SendEvent e _ \<Rightarrow> if omap_find (im_slots s) (ev_slot e) = None then s\<lparr>im_budget := budget_release (fl_bytes f) (im_budget s)\<rparr> else s
     | SendPing \<Rightarrow> s)\<lparr>im_flight := None\<rparr>"

definition worker_complete :: "nat \<Rightarrow> SendResult \<Rightarrow> AlarmImpl \<Rightarrow> AlarmImpl" where
  "worker_complete now result s = (case im_flight s of
     None \<Rightarrow> s
   | Some f \<Rightarrow>
       (let s = s\<lparr>im_heartbeat := now + ao_heartbeatMs (im_options s)\<rparr> in
        land f (if result = Accepted then accepted f s else failed result now s)))"

section \<open>Status\<close>

record AlarmPublisherStatus =
  ps_state :: string
  ps_counters :: AlarmCounters
  ps_registrations :: nat
  ps_active :: nat
  ps_pending :: nat
  ps_queued :: nat
  ps_reservedBytes :: nat
  ps_peakBytes :: nat
  ps_byteLimit :: nat
  ps_queueLimit :: nat

definition connected :: "AlarmImpl \<Rightarrow> bool" where
  "connected s = im_live s"

definition alarm_status :: "AlarmImpl \<Rightarrow> AlarmPublisherStatus" where
  "alarm_status s =
     (let active = filter (current s) (map fst (im_slots s));
          pend = filter (pending_slot s) active;
          queued = rb_count (im_ring s)
      in \<lparr>ps_state = (if im_stopping s then ''stopped'' else if \<not> im_enabled s then ''staged''
              else if active = [] then ''idle'' else if \<not> im_live s then ''disconnected''
              else if im_recovering s \<or> pend \<noteq> [] \<or> queued \<noteq> 0 then ''recovering'' else ''ready''),
          ps_counters = im_counters s, ps_registrations = length (im_slots s), ps_active = length active,
          ps_pending = length pend, ps_queued = queued, ps_reservedBytes = bg_used (im_budget s),
          ps_peakBytes = bg_peak (im_budget s), ps_byteLimit = ao_stateBytes (im_options s),
          ps_queueLimit = ring_size (im_ring s)\<rparr>)"

end
