(* ===== verification/Alarm_Budget.thy ===== *)
theory Alarm_Budget
  imports Alarm_Worker_Correct
begin

text \<open>
  The byte budget of the alarm publisher: what is reserved is the ring, one reservation per
  registered slot and that of a slot removed while the worker sends it; it never exceeds the limit,
  and a preparation is refused exactly when its reservation does not fit. Then a concrete run.
\<close>

section \<open>Sums over slots\<close>

definition slot_bytes :: "(nat, Slot) omap \<Rightarrow> nat" where
  "slot_bytes m = sum_list (map (\<lambda>e. sl_bytes (snd e)) m)"

lemma slot_bytes_emplace: "omap_wf m \<Longrightarrow> omap_find m i = None \<Longrightarrow> slot_bytes (omap_emplace i sl m) = sl_bytes sl + slot_bytes m"
  by (induction i sl m rule: omap_emplace.induct) (auto simp: slot_bytes_def omap_wf_def split: if_splits)

lemma slot_bytes_assign:
  "omap_wf m \<Longrightarrow> omap_find m i = Some old \<Longrightarrow> sl_bytes sl = sl_bytes old \<Longrightarrow> slot_bytes (omap_assign i sl m) = slot_bytes m"
proof (induction i sl m rule: omap_assign.induct)
  case (2 i sl k v m)
  show ?case
  proof (cases "i = k")
    case True
    then show ?thesis using "2.prems" by (simp add: slot_bytes_def)
  next
    case False
    then have old: "omap_find m i = Some old" using "2.prems"(2) by simp
    then have "i \<in> fst ` set m" by (force dest: map_of_SomeD)
    then have "k < i" and wf: "omap_wf m" using "2.prems"(1) by (auto simp: omap_wf_def)
    then have "\<not> i < k" by simp
    then show ?thesis using False "2.IH" [OF _ False wf old "2.prems"(3)] by (simp add: slot_bytes_def)
  qed
qed simp

lemma slot_bytes_erase:
  assumes "omap_wf m" "omap_find m i = Some sl"
  shows "slot_bytes m = sl_bytes sl + slot_bytes (omap_erase i m)"
  using assms
proof (induction m)
  case (Cons e m)
  obtain k v where e: "e = (k, v)" by fastforce
  have m: "omap_wf m" "k \<notin> fst ` set m" using Cons.prems(1) by (auto simp: omap_wf_def e)
  show ?case
  proof (cases "k = i")
    case True
    then have "filter (\<lambda>e. fst e \<noteq> i) m = m" using m(2) by (auto simp: filter_id_conv)
    then show ?thesis using True Cons.prems(2) by (simp add: slot_bytes_def omap_erase_def e)
  next
    case False
    then show ?thesis using Cons.IH [OF m(1)] Cons.prems(2) by (simp add: slot_bytes_def omap_erase_def e)
  qed
qed simp

section \<open>Invariant\<close>

definition orphan_bytes :: "AlarmImpl \<Rightarrow> nat" where
  "orphan_bytes s = (case im_flight s of None \<Rightarrow> 0 | Some f \<Rightarrow>
     (case fl_job f of SendEvent e _ \<Rightarrow> if omap_find (im_slots s) (ev_slot e) = None then fl_bytes f else 0 | SendPing \<Rightarrow> 0))"

definition budget_inv :: "AlarmImpl \<Rightarrow> bool" where
  "budget_inv s \<longleftrightarrow>
     bg_used (im_budget s) = queue_entry_bytes * ao_queueEntries (im_options s) + slot_bytes (im_slots s) + orphan_bytes s
     \<and> bg_used (im_budget s) \<le> bg_peak (im_budget s) \<and> bg_peak (im_budget s) \<le> bg_limit (im_budget s)
     \<and> bg_limit (im_budget s) = ao_stateBytes (im_options s)
     \<and> ring_size (im_ring s) = ao_queueEntries (im_options s)
     \<and> (\<forall>f e b sl. im_flight s = Some f \<longrightarrow> fl_job f = SendEvent e b \<longrightarrow> omap_find (im_slots s) (ev_slot e) = Some sl \<longrightarrow> fl_bytes f = sl_bytes sl)"

lemma orphan_cong: "im_slots t = im_slots s \<Longrightarrow> im_flight t = im_flight s \<Longrightarrow> orphan_bytes t = orphan_bytes s"
  unfolding orphan_bytes_def by (erule ssubst)+ (rule refl)

lemma budget_inv_cong:
  assumes "budget_inv s" "im_budget t = im_budget s" "im_options t = im_options s" "im_slots t = im_slots s"
    "im_flight t = im_flight s" "ring_size (im_ring t) = ring_size (im_ring s)"
  shows "budget_inv t"
proof -
  have "orphan_bytes t = orphan_bytes s" by (rule orphan_cong [OF assms(4,5)])
  then show ?thesis using assms unfolding budget_inv_def by simp
qed

lemma budget_inv_set_slot:
  assumes "budget_inv s" "omap_wf (im_slots s)" "omap_find (im_slots s) i = Some old" "sl_bytes sl = sl_bytes old"
  shows "budget_inv (set_slot i sl s)"
proof -
  have "orphan_bytes (set_slot i sl s) = orphan_bytes s"
    using assms(2,3) by (auto simp: orphan_bytes_def omap_simps split: option.splits job.splits)
  moreover have "fl_bytes f = sl_bytes a" if "im_flight s = Some f" "fl_job f = SendEvent e b"
      "omap_find (im_slots (set_slot i sl s)) (ev_slot e) = Some a" for f e b a
    using that assms by (auto simp: budget_inv_def omap_simps split: if_splits)
  ultimately show ?thesis
    using assms(1) slot_bytes_assign [OF assms(2-4)] unfolding budget_inv_def by simp
qed

lemma ring_clear_size: "ring_ok r \<Longrightarrow> ring_size (ring_clear r) = ring_size r"
  using rq.clear by blast

lemma budget_inv_update:
  assumes "budget_inv s" "deliv_inv s sent"
  shows "budget_inv (update i state time s)"
proof -
  obtain enc tr where enc: "encode state = (enc, tr)" by fastforce
  note d = deliv_invD [OF assms(2)]
  show ?thesis
  proof (cases "omap_find (im_slots s) i")
    case None
    then show ?thesis using assms by (simp add: update_def enc)
  next
    case (Some sl)
    define t where "t = count_truncated tr (set_slot i (sl\<lparr>sl_latest := enc, sl_revision := sl_revision sl + 1\<rparr>) s)"
    have t: "budget_inv t"
      by (rule budget_inv_cong [OF budget_inv_set_slot [OF assms(1) d(1) Some, of "sl\<lparr>sl_latest := enc, sl_revision := sl_revision sl + 1\<rparr>"]])
        (simp_all add: t_def)
    have ring: "ring_ok (im_ring t)" using d(2) by (simp add: t_def)
    have push: "ring_size (ring_push e (im_ring t)) = ring_size (im_ring t)" for e
      by (simp add: ring_size_def ring_push_def)
    have "budget_inv (offer_update e t)" for e
      by (rule budget_inv_cong [OF t]) (simp_all add: offer_update_def Let_def ring_clear_size [OF ring] push)
    then show ?thesis using assms(1) by (simp add: update_def enc Some t_def)
  qed
qed

lemma budget_inv_prepare:
  assumes "budget_inv s" "deliv_inv s sent" "prepare_slot name state s = (r, s')"
  shows "budget_inv s'"
proof -
  note d = deliv_invD [OF assms(2)]
  have new: "omap_find (im_slots s) (Suc (im_nextId s)) = None"
    using d(3) [of "Suc (im_nextId s)"] by (cases "omap_find (im_slots s) (Suc (im_nextId s))") auto
  have flying: "ev_slot e \<noteq> Suc (im_nextId s)" if "im_flight s = Some f" "fl_job f = SendEvent e b" for f e b
    using d(5) [of e] that by (auto simp: trace_def flight_events_def)
  show ?thesis
  proof (cases "budget_acquire (reservation_bytes name) (im_budget s)")
    case None
    then show ?thesis using assms(1,3) by (auto simp: prepare_slot_def split: if_splits)
  next
    case (Some b)
    then have b: "b = (im_budget s)\<lparr>bg_used := bg_used (im_budget s) + reservation_bytes name,
        bg_peak := max (bg_peak (im_budget s)) (bg_used (im_budget s) + reservation_bytes name)\<rparr>"
        "bg_used (im_budget s) + reservation_bytes name \<le> bg_limit (im_budget s)"
      by (auto simp: budget_acquire_def split: if_splits)
    obtain enc tr where enc: "encode state = (enc, tr)" by fastforce
    have "s' = s \<or> s' = s\<lparr>im_budget := budget_release (reservation_bytes name) b\<rparr>
      \<or> (\<exists>sl. sl_bytes sl = reservation_bytes name \<and> im_slots s' = omap_emplace (Suc (im_nextId s)) sl (im_slots s)
          \<and> im_budget s' = b \<and> im_options s' = im_options s \<and> im_ring s' = im_ring s \<and> im_flight s' = im_flight s)"
    proof (cases "im_stopping s \<or> (2 ^ 64 - 1 - 1024) div 2 < length name")
      case True
      then show ?thesis using assms(3) Some enc by (auto simp: prepare_slot_def Let_def split: if_splits)
    next
      case False
      then have "s' = snd (prepare_slot name state s)" using assms(3) by simp
      then show ?thesis using False Some enc by (intro disjI2 exI [of _ "new_slot name enc"]) (simp add: prepare_slot_def new_slot_def Let_def)
    qed
    then consider "s' = s" | "s' = s\<lparr>im_budget := budget_release (reservation_bytes name) b\<rparr>"
      | sl where "sl_bytes sl = reservation_bytes name" "im_slots s' = omap_emplace (Suc (im_nextId s)) sl (im_slots s)"
          "im_budget s' = b" "im_options s' = im_options s" "im_ring s' = im_ring s" "im_flight s' = im_flight s"
      by blast
    then show ?thesis
    proof cases
      case 1
      then show ?thesis using assms(1) by simp
    next
      case 2
      have "orphan_bytes s' = orphan_bytes s" by (rule orphan_cong) (simp_all add: 2)
      moreover have "im_budget s' = (im_budget s)\<lparr>bg_peak := max (bg_peak (im_budget s)) (bg_used (im_budget s) + reservation_bytes name)\<rparr>"
        by (simp add: 2 b(1) budget_release_def)
      ultimately show ?thesis using assms(1) b(2) 2 unfolding budget_inv_def by auto
    next
      case (3 sl)
      have "orphan_bytes s' = orphan_bytes s"
        using 3 d(1) new flying by (auto simp: orphan_bytes_def omap_simps split: option.splits job.splits)
      moreover have "fl_bytes f = sl_bytes a" if "im_flight s = Some f" "fl_job f = SendEvent e c" "omap_find (im_slots s') (ev_slot e) = Some a" for f e c a
        using that flying [OF that(1,2)] assms(1) d(1) unfolding 3(2) by (auto simp: omap_simps budget_inv_def)
      ultimately show ?thesis
        using assms(1) b 3 slot_bytes_emplace [OF d(1) new, of sl] unfolding budget_inv_def by auto
    qed
  qed
qed

lemma budget_inv_remove:
  assumes "budget_inv s" "deliv_inv s sent"
  shows "budget_inv (remove_slot i s)"
proof (cases "omap_find (im_slots s) i")
  case None
  then show ?thesis using assms(1) by (simp add: remove_slot_def)
next
  case (Some sl)
  note d = deliv_invD [OF assms(2)]
  let ?t = "remove_slot i s"
  have t: "im_slots ?t = omap_erase i (im_slots s)" "im_flight ?t = im_flight s" "im_options ?t = im_options s" "im_ring ?t = im_ring s"
      "im_budget ?t = (if sending s i then im_budget s else budget_release (sl_bytes sl) (im_budget s))"
    using Some by (simp_all add: remove_slot_def)
  have sum: "slot_bytes (im_slots s) = sl_bytes sl + slot_bytes (im_slots ?t)"
    unfolding t(1) by (rule slot_bytes_erase [OF d(1) Some])
  have orphan: "orphan_bytes ?t = (if sending s i then sl_bytes sl else orphan_bytes s)" "sending s i \<Longrightarrow> orphan_bytes s = 0"
    using assms(1) Some d(1) by (auto simp: orphan_bytes_def sending_def t omap_simps budget_inv_def split: option.splits job.splits if_splits)
  have fl: "fl_bytes f = sl_bytes a" if "im_flight s = Some f" "fl_job f = SendEvent e b" "omap_find (im_slots ?t) (ev_slot e) = Some a" for f e b a
    using that assms(1) d(1) unfolding t(1) by (auto simp: omap_simps budget_inv_def split: if_splits)
  show ?thesis
    using assms(1) sum orphan fl unfolding budget_inv_def t(2-5) by (auto simp: budget_release_def)
qed

lemma take_off_flight:
  "im_flight (take_off j s) = Some \<lparr>fl_job = j, fl_epoch = im_epoch s, fl_bytes = (case j of SendPing \<Rightarrow> 0 | SendEvent e _ \<Rightarrow>
     (case omap_find (im_slots s) (ev_slot e) of None \<Rightarrow> 0 | Some sl \<Rightarrow> sl_bytes sl))\<rparr>"
  by (simp add: take_off_def)

lemma budget_inv_take_off:
  assumes "budget_inv s" "im_flight s = None"
  shows "budget_inv (take_off j s)"
proof -
  have "orphan_bytes (take_off j s) = 0" by (auto simp: orphan_bytes_def take_off_flight split: job.splits option.splits)
  moreover have "orphan_bytes s = 0" by (simp add: orphan_bytes_def assms(2))
  ultimately show ?thesis using assms(1) unfolding budget_inv_def by (auto simp: take_off_flight)
qed

lemma budget_inv_select:
  assumes "budget_inv s" "deliv_inv s sent" "im_flight s = None" "worker_select now time s = (j, s')"
  shows "budget_inv s'"
  using assms(4) deliv_invD(2) [OF assms(2)] assms(3)
proof (cases rule: worker_select_cases)
  case idle
  then show ?thesis using assms(1) by simp
next
  case (queued e r c)
  have "budget_inv (s\<lparr>im_ring := r, im_counters := c\<rparr>)" by (rule budget_inv_cong [OF assms(1)]) (simp_all add: queued)
  then show ?thesis using budget_inv_take_off assms(3) queued by simp
next
  case (reconcile i sl r c)
  have "budget_inv (s\<lparr>im_ring := r, im_counters := c, im_lastId := i\<rparr>)" by (rule budget_inv_cong [OF assms(1)]) (simp_all add: reconcile)
  then show ?thesis using budget_inv_take_off assms(3) reconcile by simp
next
  case (waiting r c)
  then show ?thesis by (intro budget_inv_cong [OF assms(1)]) simp_all
next
  case (pinging r c)
  have "budget_inv (s\<lparr>im_ring := r, im_counters := c, im_recovering := b\<rparr>)" for b by (rule budget_inv_cong [OF assms(1)]) (simp_all add: pinging)
  then show ?thesis using budget_inv_take_off assms(3) pinging by simp
qed

text \<open>Landing gives back what only the flight still held.\<close>

lemma budget_inv_land:
  assumes "budget_inv s" "im_flight s = Some f"
  shows "budget_inv (land f s)"
proof -
  have "orphan_bytes (land f s) = 0" by (simp add: orphan_bytes_def)
  moreover have "im_budget (land f s) = budget_release (orphan_bytes s) (im_budget s)"
    using assms(2) by (simp add: land_def orphan_bytes_def budget_release_def split: job.splits)
  ultimately show ?thesis using assms(1) unfolding budget_inv_def by (auto simp: budget_release_def)
qed

lemma budget_inv_complete:
  assumes "budget_inv s" "deliv_inv s sent"
  shows "budget_inv (worker_complete now result s)"
proof (cases "im_flight s")
  case None
  then show ?thesis using assms(1) by (simp add: worker_complete_def)
next
  case (Some f)
  note d = deliv_invD [OF assms(2)]
  let ?s = "s\<lparr>im_heartbeat := now + ao_heartbeatMs (im_options s)\<rparr>"
  have fail: "budget_inv (failed result now ?s)" "im_flight (failed result now ?s) = Some f"
    by (rule budget_inv_cong [OF assms(1)]) (simp_all add: ring_clear_size [OF d(2)] Some, simp_all add: failed_def Let_def Some)
  have mark: "budget_inv (mark_delivered e n t)" "im_flight (mark_delivered e n t) = Some f"
    if "im_slots t = im_slots s" "im_budget t = im_budget s" "im_options t = im_options s" "im_flight t = im_flight s" "im_ring t = im_ring s" for e n t
  proof -
    have t: "budget_inv t" by (rule budget_inv_cong [OF assms(1)]) (simp_all add: that)
    show "budget_inv (mark_delivered e n t)"
    proof (cases "current t (ev_slot e)")
      case True
      then obtain sl where "omap_find (im_slots t) (ev_slot e) = Some sl" using current_live by blast
      then show ?thesis using True budget_inv_set_slot [OF t] d(1) that(1) by (simp add: mark_delivered_def Let_def)
    qed (simp add: mark_delivered_def t)
    show "im_flight (mark_delivered e n t) = Some f" by (simp add: mark_delivered_def Let_def that Some)
  qed
  have acc: "budget_inv (accepted f ?s)" "im_flight (accepted f ?s) = Some f"
  proof -
    show "budget_inv (accepted f ?s)"
    proof (cases "fl_job f")
      case SendPing
      then show ?thesis by (intro budget_inv_cong [OF assms(1)]) (simp_all add: accepted_def Let_def)
    next
      case (SendEvent e b)
      then show ?thesis by (simp add: accepted_def Let_def mark(1))
    qed
    show "im_flight (accepted f ?s) = Some f"
      by (simp add: accepted_def Let_def mark(2) Some split: job.splits)
  qed
  show ?thesis using budget_inv_land [OF acc] budget_inv_land [OF fail] by (simp add: worker_complete_def Some Let_def)
qed

lemma reachable_budget_inv: "alarm_reachable s sent \<Longrightarrow> budget_inv s"
proof (induction rule: alarm_reachable.induct)
  case (init options now s)
  then show ?case
    by (auto simp: make_publisher_def budget_acquire_def budget_inv_def slot_bytes_def orphan_bytes_def ring_make_def ring_size_def
        queue_entry_bytes_def mult.commute split: if_splits)
next
  case (prepare s sent name state r s')
  then show ?case using reachable_deliv_inv budget_inv_prepare by blast
next
  case (remove s sent i)
  then show ?case using reachable_deliv_inv budget_inv_remove by blast
next
  case (update s sent i state time)
  then show ?case using reachable_deliv_inv budget_inv_update by blast
next
  case (activate s sent i)
  then show ?case using deliv_invD(1) [OF reachable_deliv_inv [OF activate(1)]]
    by (auto simp: activate_slot_def split: option.splits intro: budget_inv_set_slot)
next
  case (retire s sent i)
  then show ?case using deliv_invD(1) [OF reachable_deliv_inv [OF retire(1)]]
    by (auto simp: retire_slot_def split: option.splits intro: budget_inv_set_slot)
next
  case (enable s sent)
  show ?case by (rule budget_inv_cong [OF enable(2)]) (simp_all add: activate_publisher_def)
next
  case (stop s sent)
  show ?case by (rule budget_inv_cong [OF stop(2)]) (simp_all add: stop_publisher_def)
next
  case (select s sent now time j s')
  then show ?case using reachable_deliv_inv budget_inv_select by blast
next
  case (complete s sent now result executed)
  then show ?case using reachable_deliv_inv budget_inv_complete by blast
qed

text \<open>
  C38: The publisher's memory is bounded by its configuration. What it has reserved is the ring, one
  reservation for every registered source and that of a source removed while it is being sent; it
  never exceeds the configured number of bytes, nor does the reported peak, and the ring never holds
  more transitions than configured.
\<close>

theorem alarm_memory_within_budget:
  assumes "alarm_reachable s sent"
  shows "ps_reservedBytes (alarm_status s) = 1024 * ao_queueEntries (im_options s) + slot_bytes (im_slots s) + orphan_bytes s
    \<and> ps_reservedBytes (alarm_status s) \<le> ps_peakBytes (alarm_status s)
    \<and> ps_peakBytes (alarm_status s) \<le> ao_stateBytes (im_options s)
    \<and> ps_queued (alarm_status s) \<le> ao_queueEntries (im_options s)"
proof -
  have "ring_ok (im_ring s)" by (rule deliv_invD(2) [OF reachable_deliv_inv [OF assms]])
  then have "rb_count (im_ring s) \<le> ring_size (im_ring s)" by (simp add: ring_ok_def ring_size_def)
  then show ?thesis using reachable_budget_inv [OF assms]
    by (auto simp: budget_inv_def alarm_status_def Let_def queue_entry_bytes_def)
qed

text \<open>
  A preparation is refused exactly when the name is too long for its size to be computed, when
  1024 bytes and twice the name do not fit into what is left of the budget, or when the publisher has
  stopped; a refusal leaves the sources and the reserved bytes as they were. Otherwise the new source
  gets the next identity, is inactive and has the given state to deliver; the others are unchanged.
\<close>

theorem preparation_reserves_or_refuses:
  assumes "alarm_reachable s sent"
  shows "fst (prepare_slot name state s) =
      (if (2 ^ 64 - 1 - 1024) div 2 < length name then Inl ''alarm name too large''
       else if ao_stateBytes (im_options s) < bg_used (im_budget s) + reservation_bytes name
         then Inl ''alarm state budget exceeded during preparation''
       else if im_stopping s then Inl ''alarm publisher stopped''
       else Inr (Suc (im_nextId s)))
    \<and> (case prepare_slot name state s of
         (Inl _, s') \<Rightarrow> im_slots s' = im_slots s \<and> bg_used (im_budget s') = bg_used (im_budget s)
       | (Inr i, s') \<Rightarrow> omap_find (im_slots s') = (omap_find (im_slots s))(i \<mapsto> new_slot name (fst (encode state)))
           \<and> omap_find (im_slots s) i = None
           \<and> bg_used (im_budget s') = bg_used (im_budget s) + reservation_bytes name)"
proof -
  note d = deliv_invD [OF reachable_deliv_inv [OF assms]]
  have new: "omap_find (im_slots s) (Suc (im_nextId s)) = None"
    using d(3) [of "Suc (im_nextId s)"] by (cases "omap_find (im_slots s) (Suc (im_nextId s))") auto
  have limit: "bg_limit (im_budget s) = ao_stateBytes (im_options s)" "bg_used (im_budget s) \<le> ao_stateBytes (im_options s)"
    using reachable_budget_inv [OF assms] by (auto simp: budget_inv_def)
  obtain enc tr where enc: "encode state = (enc, tr)" by fastforce
  have acq: "budget_acquire (reservation_bytes name) (im_budget s) =
      (if ao_stateBytes (im_options s) < bg_used (im_budget s) + reservation_bytes name then None
       else Some ((im_budget s)\<lparr>bg_used := bg_used (im_budget s) + reservation_bytes name,
         bg_peak := max (bg_peak (im_budget s)) (bg_used (im_budget s) + reservation_bytes name)\<rparr>))"
    using limit by (auto simp: budget_acquire_def)
  have find: "omap_find (omap_emplace (Suc (im_nextId s)) sl (im_slots s)) = (omap_find (im_slots s))(Suc (im_nextId s) \<mapsto> sl)" for sl
    using om.find_emplace [OF d(1)] new by (auto simp: fun_eq_iff)
  show ?thesis
    unfolding prepare_slot_def acq enc prod.case Let_def
    by (simp add: find new budget_release_def)
qed

section \<open>A run\<close>

definition demo_options :: AlarmPublisherOptions where
  "demo_options = \<lparr>ao_stateBytes = 4096, ao_queueEntries = 2, ao_ioTimeoutMs = 500, ao_retryMs = 1000, ao_heartbeatMs = 1000\<rparr>"

definition demo_made :: AlarmImpl where
  "demo_made = projr (make_publisher demo_options 0)"

definition demo_registered :: AlarmImpl where
  "demo_registered = activate_publisher (activate_slot 1 (snd (prepare_slot ''a'' high_alarm demo_made)))"

definition demo_selected :: AlarmImpl where
  "demo_selected = snd (worker_select 5 0 demo_registered)"

lemmas demo_alarm_eval = demo_options_def demo_made_def demo_registered_def demo_selected_def make_publisher_def budget_acquire_def
  queue_entry_bytes_def prepare_slot_def reservation_bytes_def new_slot_def encode_def message_capacity_def Let_def count_truncated_def
  activate_slot_def activate_publisher_def set_slot_def worker_select_def pop_queue.simps ring_make_def scan_order_def current_def
  live_slot_def pending_slot_def pending_def take_off_def latest_event_def high_alarm_def

lemma demo_made_ok: "make_publisher demo_options 0 = Inr demo_made"
  by (simp add: demo_made_def demo_options_def make_publisher_def budget_acquire_def queue_entry_bytes_def)

lemma demo_registered_reachable: "alarm_reachable demo_registered []"
  unfolding demo_registered_def
  by (intro alarm_reachable.enable alarm_reachable.activate
      alarm_reachable.prepare [OF alarm_reachable.init [OF demo_made_ok] prod.collapse [symmetric]])

lemma demo_selected_flight: "im_flight demo_registered = None"
  "im_flight demo_selected = Some \<lparr>fl_job = SendEvent \<lparr>ev_slot = 1, ev_state = fst (encode high_alarm), ev_revision = 1, ev_timestamp = 0\<rparr> True,
     fl_epoch = 1, fl_bytes = 1026\<rparr>"
  by (simp_all add: demo_alarm_eval)

lemma demo_selected_reachable: "alarm_reachable demo_selected []"
  unfolding demo_selected_def
  by (rule alarm_reachable.select [OF demo_registered_reachable demo_selected_flight(1) prod.collapse [symmetric]])

definition demo_sent :: AlarmImpl where
  "demo_sent = worker_complete 6 Accepted demo_selected"

lemma demo_sent_reachable: "\<exists>sent. alarm_reachable demo_sent sent"
  unfolding demo_sent_def using alarm_reachable.complete [OF demo_selected_reachable] by blast

lemma alarm_memory_within_budget_witness: "ps_reservedBytes (alarm_status demo_registered) \<le> 4096"
proof -
  have "ao_stateBytes (im_options demo_registered) = 4096" by (simp add: demo_alarm_eval)
  then show ?thesis using alarm_memory_within_budget [OF demo_registered_reachable] by linarith
qed

lemma preparation_reserves_or_refuses_witness:
  "fst (prepare_slot ''b'' high_alarm demo_registered) = Inl ''alarm state budget exceeded during preparation''"
proof -
  have "bg_used (im_budget demo_registered) = 3074" "ao_stateBytes (im_options demo_registered) = 4096"
    by (simp_all add: demo_alarm_eval)
  then show ?thesis using preparation_reserves_or_refuses [OF demo_registered_reachable, of "''b''" high_alarm]
    by (simp add: reservation_bytes_def)
qed

lemma delivered_state_is_latest_witness:
  "\<exists>sent e older. alarm_reachable demo_sent sent \<and> filter (\<lambda>e. ev_slot e = 1) sent = e # older
     \<and> st_message (decode (ev_state e)) = ''High alarm''"
proof -
  obtain sent where sent: "alarm_reachable demo_sent sent" using demo_sent_reachable by blast
  obtain sl where sl: "omap_find (im_slots demo_sent) 1 = Some sl" "\<not> pending demo_sent sl"
      "st_message (decode (sl_latest sl)) = ''High alarm''"
    unfolding demo_sent_def worker_complete_def demo_selected_flight(2)
    by (simp add: accepted_def mark_delivered_def land_def decode_def demo_alarm_eval)
  show ?thesis using delivered_state_is_latest [OF sent sl(1,2)] sent sl(3) by metis
qed

end
