(* ===== verification/Acf_Parser.thy ===== *)
theory Acf_Parser
  imports Prelude
begin

text \<open>
  The reader of access security files of \<open>src/access_control.cpp\<close>: \<open>tokenizeAcf\<close> and the class
  \<open>AcfSubsetParser\<close>, which inspects a policy before it is handed to the EPICS library. The
  position in the token vector is the split into the tokens taken, last one first, and the tokens
  that remain. Errors are the texts of the exceptions. The loops are proved to end because each
  round takes a token.
\<close>

section \<open>Tokens\<close>

record Token =
  tk_text :: string
  tk_line :: nat
  tk_column :: nat
  tk_quoted :: bool

definition isspace :: "char \<Rightarrow> bool" where
  "isspace c = (c = CHR 0x20 \<or> (9 \<le> (of_char c :: nat) \<and> (of_char c :: nat) \<le> 13))"

definition toupper :: "char \<Rightarrow> char" where
  "toupper c = (if 97 \<le> (of_char c :: nat) \<and> (of_char c :: nat) \<le> 122 then char_of ((of_char c :: nat) - 32) else c)"

definition upper :: "string \<Rightarrow> string" where
  "upper text = map toupper text"

definition newline :: char where
  "newline = CHR 0x0A"

definition dquote :: char where
  "dquote = CHR 0x22"

definition backslash :: char where
  "backslash = CHR 0x5C"

definition punctuation :: "char \<Rightarrow> bool" where
  "punctuation c = (c \<in> set ''(){},'')"

definition ends_word :: "char \<Rightarrow> bool" where
  "ends_word c = (isspace c \<or> punctuation c \<or> c = CHR ''#'' \<or> c = dquote)"

definition position_error :: "nat \<Rightarrow> nat \<Rightarrow> string \<Rightarrow> string" where
  "position_error line column message = ''ACF '' @ to_string line @ '':'' @ to_string column @ '': '' @ message"

definition acfError :: "Token \<Rightarrow> string \<Rightarrow> string" where
  "acfError token message = position_error (tk_line token) (tk_column token) message"

fun skip_comment :: "nat \<Rightarrow> string \<Rightarrow> nat \<times> string" where
  "skip_comment column [] = (column, [])"
| "skip_comment column (c # cs) = (if c = newline then (column, c # cs) else skip_comment (column + 1) cs)"

text \<open>The loop over a quoted string: the escape flag, the value so far, the position and the remaining text.\<close>

fun read_quoted :: "bool \<Rightarrow> string \<Rightarrow> nat \<Rightarrow> nat \<Rightarrow> string \<Rightarrow> (string \<times> nat \<times> nat \<times> string) option" where
  "read_quoted escaped val line column [] = None"
| "read_quoted escaped val line column (c # cs) =
     (let line' = (if c = newline then line + 1 else line); column' = (if c = newline then 1 else column + 1) in
      if escaped then read_quoted False (val @ [c]) line' column' cs
      else if c = backslash then read_quoted True val line' column' cs
      else if c = dquote then Some (val, line', column', cs)
      else read_quoted False (val @ [c]) line' column' cs)"

lemma skip_comment_length: "length (snd (skip_comment column cs)) \<le> length cs"
  by (induction cs arbitrary: column) (auto simp: le_SucI)

lemma read_quoted_length: "read_quoted e v l k cs = Some (v', l', k', rest) \<Longrightarrow> length rest < length cs"
  by (induction e v l k cs arbitrary: v' l' k' rest rule: read_quoted.induct) (fastforce simp: Let_def split: if_splits)+

function tokens_from :: "nat \<Rightarrow> nat \<Rightarrow> string \<Rightarrow> string + Token list" where
  "tokens_from line column [] = Inr []"
| "tokens_from line column (c # cs) =
     (if isspace c then
        (if c = newline then tokens_from (line + 1) 1 cs else tokens_from line (column + 1) cs)
      else if c = CHR ''#'' then
        (let (column', rest) = skip_comment (column + 1) cs in tokens_from line column' rest)
      else if c = dquote then
        (case read_quoted False [] line (column + 1) cs of
           None \<Rightarrow> Inl (position_error line column ''unterminated string'')
         | Some (val, line', column', rest) \<Rightarrow>
             ebind (tokens_from line' column' rest) (\<lambda>ts.
             Inr (\<lparr>tk_text = val, tk_line = line, tk_column = column, tk_quoted = True\<rparr> # ts)))
      else if \<not> punctuation c then
        (let word = c # takeWhile (\<lambda>d. \<not> ends_word d) cs in
         ebind (tokens_from line (column + length word) (dropWhile (\<lambda>d. \<not> ends_word d) cs)) (\<lambda>ts.
         Inr (\<lparr>tk_text = word, tk_line = line, tk_column = column, tk_quoted = False\<rparr> # ts)))
      else
        ebind (tokens_from line (column + 1) cs) (\<lambda>ts.
        Inr (\<lparr>tk_text = [c], tk_line = line, tk_column = column, tk_quoted = False\<rparr> # ts)))"
  by pat_completeness auto
termination
  by (relation "measure (\<lambda>(_, _, cs). length cs)")
    (auto simp: less_Suc_eq_le length_dropWhile_le split_beta skip_comment_length dest!: read_quoted_length)

definition tokenizeAcf :: "string \<Rightarrow> string + Token list" where
  "tokenizeAcf text = tokens_from 1 1 text"

section \<open>The parser\<close>

record Reference =
  rf_kind :: string
  rf_name :: string
  rf_token :: Token

record AcfSubsetParser =
  ap_taken :: "Token list"
  ap_rest :: "Token list"
  ap_uags :: "string set"
  ap_hags :: "string set"
  ap_references :: "Reference list"

definition quoted_name :: "string \<Rightarrow> string" where
  "quoted_name text = [CHR 0x27] @ text @ [CHR 0x27]"

definition peek :: "AcfSubsetParser \<Rightarrow> string + Token" where
  "peek p = (case ap_rest p of [] \<Rightarrow> Inl ''ACF: unexpected end of policy'' | t # _ \<Rightarrow> Inr t)"

definition take_token :: "AcfSubsetParser \<Rightarrow> string + Token \<times> AcfSubsetParser" where
  "take_token p = (case ap_rest p of
     [] \<Rightarrow> Inl ''ACF: unexpected end of policy''
   | t # ts \<Rightarrow> Inr (t, p\<lparr>ap_taken := t # ap_taken p, ap_rest := ts\<rparr>))"

definition expect :: "string \<Rightarrow> AcfSubsetParser \<Rightarrow> string + AcfSubsetParser" where
  "expect text p =
     ebind (take_token p) (\<lambda>(t, p').
     if tk_text t \<noteq> text then Inl (acfError t (''expected '' @ quoted_name text)) else Inr p')"

definition is_name :: "Token \<Rightarrow> bool" where
  "is_name t = (\<not> (tk_text t = [] \<or> \<not> tk_quoted t \<and> tk_text t \<in> {''('', '')'', ''{'', ''}'', '',''}))"

definition name_token :: "AcfSubsetParser \<Rightarrow> string + Token \<times> AcfSubsetParser" where
  "name_token p =
     ebind (take_token p) (\<lambda>(t, p').
     if is_name t then Inr (t, p') else Inl (acfError t ''expected a name''))"

definition deferred :: "string \<Rightarrow> bool" where
  "deferred keyword = (keyword = ''CALC''
     \<or> length keyword = 4 \<and> take 3 keyword = ''INP''
       \<and> 65 \<le> (of_char (keyword ! 3) :: nat) \<and> (of_char (keyword ! 3) :: nat) \<le> 85)"

definition rejectDeferred :: "Token \<Rightarrow> string + unit" where
  "rejectDeferred t =
     ensure (tk_quoted t \<or> \<not> deferred (upper (tk_text t)))
       (acfError t (upper (tk_text t) @ '' is outside the supported ACF subset''))"

lemma ebind_cong [fundef_cong]:
  "m = n \<Longrightarrow> (\<And>x. n = Inr x \<Longrightarrow> f x = g x) \<Longrightarrow> ebind m f = ebind n g"
  by (cases n) auto

lemma take_shorter: "take_token p = Inr (t, p') \<Longrightarrow> length (ap_rest p') < length (ap_rest p)"
  by (auto simp: take_token_def split: list.splits)

lemma expect_shorter: "expect text p = Inr p' \<Longrightarrow> length (ap_rest p') < length (ap_rest p)"
  by (auto simp: expect_def res_simps split: if_splits dest: take_shorter)

lemma name_shorter: "name_token p = Inr (t, p') \<Longrightarrow> length (ap_rest p') < length (ap_rest p)"
  by (auto simp: name_token_def res_simps split: if_splits dest: take_shorter)

lemmas shorter = take_shorter expect_shorter name_shorter

function more_names :: "string list \<Rightarrow> AcfSubsetParser \<Rightarrow> string + string list \<times> AcfSubsetParser" where
  "more_names names p =
     ebind (peek p) (\<lambda>t.
     if tk_text t = '',''
     then ebind (take_token p) (\<lambda>(_, p1). ebind (name_token p1) (\<lambda>(n, p2). more_names (names @ [tk_text n]) p2))
     else Inr (names, p))"
  by pat_completeness auto
termination
  by (relation "measure (\<lambda>(_, p). length (ap_rest p))") (auto dest!: shorter)

declare more_names.simps [simp del]

definition callNames :: "string \<Rightarrow> AcfSubsetParser \<Rightarrow> string + string list \<times> AcfSubsetParser" where
  "callNames keyword p =
     ebind (take_token p) (\<lambda>(actual, p).
     ebind (rejectDeferred actual) (\<lambda>_.
     ebind (ensure (\<not> (tk_quoted actual \<or> upper (tk_text actual) \<noteq> keyword))
       (acfError actual (''expected '' @ keyword))) (\<lambda>_.
     ebind (expect ''('' p) (\<lambda>p.
     ebind (name_token p) (\<lambda>(n, p).
     ebind (more_names [tk_text n] p) (\<lambda>(names, p).
     ebind (expect '')'' p) (\<lambda>p.
     Inr (names, p))))))))"

definition last_token :: "AcfSubsetParser \<Rightarrow> Token" where
  "last_token p = hd (ap_taken p)"

definition definitionName :: "string \<Rightarrow> AcfSubsetParser \<Rightarrow> string + string \<times> AcfSubsetParser" where
  "definitionName keyword p =
     ebind (callNames keyword p) (\<lambda>(names, p).
     if length names \<noteq> 1
     then Inl (acfError (last_token p) (keyword @ '' definitions require exactly one name''))
     else Inr (hd names, p))"

function list_names :: "AcfSubsetParser \<Rightarrow> string + AcfSubsetParser" where
  "list_names p =
     ebind (name_token p) (\<lambda>(_, p1).
     ebind (peek p1) (\<lambda>t.
     if tk_text t = ''}'' then Inr p1 else ebind (expect '','' p1) list_names))"
  by pat_completeness auto
termination
  by (relation "measure (\<lambda>p. length (ap_rest p))") (auto dest!: shorter)

declare list_names.simps [simp del]

definition parseNamedList :: "string \<Rightarrow> AcfSubsetParser \<Rightarrow> string + AcfSubsetParser" where
  "parseNamedList keyword p =
     ebind (definitionName keyword p) (\<lambda>(d, p).
     ebind (ensure (d \<notin> (if keyword = ''UAG'' then ap_uags p else ap_hags p))
       (acfError (last_token p) (''duplicate '' @ keyword @ '' '' @ quoted_name d))) (\<lambda>_.
     let p = (if keyword = ''UAG'' then p\<lparr>ap_uags := insert d (ap_uags p)\<rparr>
              else p\<lparr>ap_hags := insert d (ap_hags p)\<rparr>) in
     ebind (expect ''{'' p) (\<lambda>p.
     ebind (peek p) (\<lambda>t.
     ebind (if tk_text t \<noteq> ''}'' then list_names p else Inr p) (expect ''}'')))))"

definition add_references :: "string \<Rightarrow> Token \<Rightarrow> string list \<Rightarrow> AcfSubsetParser \<Rightarrow> AcfSubsetParser" where
  "add_references kind t names p =
     p\<lparr>ap_references := ap_references p @ map (\<lambda>n. \<lparr>rf_kind = kind, rf_name = n, rf_token = t\<rparr>) names\<rparr>"

lemma peek_Inr: "peek p = Inr t \<longleftrightarrow> (\<exists>ts. ap_rest p = t # ts)"
  by (auto simp: peek_def split: list.splits)

lemma more_names_shorter: "more_names names p = Inr (ns, p') \<Longrightarrow> length (ap_rest p') \<le> length (ap_rest p)"
proof (induction "length (ap_rest p)" arbitrary: names p rule: less_induct)
  case less
  have ih: "length (ap_rest p') \<le> length (ap_rest q)" if "more_names m q = Inr (ns, p')" "length (ap_rest q) < length (ap_rest p)" for m q
    using less.hyps[OF that(2)] that(1) by blast
  from less.prems show ?case
    by (subst (asm) more_names.simps) (auto simp: res_simps split: if_splits dest!: shorter ih)
qed

lemma callNames_shorter: "callNames keyword p = Inr (ns, p') \<Longrightarrow> length (ap_rest p') < length (ap_rest p)"
  by (auto simp: callNames_def res_simps dest!: shorter more_names_shorter)

lemma definitionName_shorter: "definitionName keyword p = Inr (n, p') \<Longrightarrow> length (ap_rest p') < length (ap_rest p)"
  by (auto simp: definitionName_def res_simps split: if_splits dest: callNames_shorter)

lemma list_names_shorter: "list_names p = Inr p' \<Longrightarrow> length (ap_rest p') < length (ap_rest p)"
proof (induction "length (ap_rest p)" arbitrary: p rule: less_induct)
  case less
  have ih: "length (ap_rest p') < length (ap_rest q)" if "list_names q = Inr p'" "length (ap_rest q) < length (ap_rest p)" for q
    using less.hyps[OF that(2)] that(1) by blast
  from less.prems show ?case
    by (subst (asm) list_names.simps) (auto simp: res_simps split: if_splits dest!: shorter ih)
qed

lemma parseNamedList_shorter: "parseNamedList keyword p = Inr p' \<Longrightarrow> length (ap_rest p') < length (ap_rest p)"
  by (auto simp: parseNamedList_def Let_def res_simps split: if_splits
      dest!: definitionName_shorter expect_shorter list_names_shorter)

lemma add_references_rest [simp]: "ap_rest (add_references kind t names p) = ap_rest p"
  by (simp add: add_references_def)

function conditions :: "AcfSubsetParser \<Rightarrow> string + AcfSubsetParser" where
  "conditions p =
     ebind (peek p) (\<lambda>t.
     if tk_text t \<noteq> ''}''
     then
       ebind (rejectDeferred t) (\<lambda>_.
       if upper (tk_text t) \<noteq> ''UAG'' \<and> upper (tk_text t) \<noteq> ''HAG''
       then Inl (acfError t ''only UAG and HAG conditions are supported in RULE'')
       else ebind (callNames (upper (tk_text t)) p) (\<lambda>(names, p1).
         conditions (add_references (upper (tk_text t)) t names p1)))
     else expect ''}'' p)"
  by pat_completeness auto
termination
  by (relation "measure (\<lambda>p. length (ap_rest p))") (auto dest!: callNames_shorter)

declare conditions.simps [simp del]

definition rule_option :: "AcfSubsetParser \<Rightarrow> string + AcfSubsetParser" where
  "rule_option p =
     ebind (take_token p) (\<lambda>(_, p).
     ebind (name_token p) (\<lambda>(trap, p).
     if \<not> tk_quoted trap \<and> (upper (tk_text trap) = ''TRAPWRITE'' \<or> upper (tk_text trap) = ''NOTRAPWRITE'')
     then Inr p
     else Inl (acfError trap ''RULE option must be TRAPWRITE or NOTRAPWRITE'')))"

definition rule_body :: "AcfSubsetParser \<Rightarrow> string + AcfSubsetParser" where
  "rule_body p = (case ap_rest p of
     [] \<Rightarrow> Inr p
   | t # _ \<Rightarrow> if tk_text t \<noteq> ''{'' then Inr p else ebind (take_token p) (\<lambda>(_, p). conditions p))"

definition parseRule :: "AcfSubsetParser \<Rightarrow> string + AcfSubsetParser" where
  "parseRule p =
     ebind (take_token p) (\<lambda>(rule, p).
     ebind (rejectDeferred rule) (\<lambda>_.
     ebind (ensure (\<not> (tk_quoted rule \<or> upper (tk_text rule) \<noteq> ''RULE''))
       (acfError rule ''only RULE is supported inside ASG'')) (\<lambda>_.
     ebind (expect ''('' p) (\<lambda>p.
     ebind (name_token p) (\<lambda>(level, p).
     ebind (ensure (\<not> (tk_quoted level \<or> tk_text level \<noteq> ''0'' \<and> tk_text level \<noteq> ''1''))
       (acfError level ''RULE access level must be 0 or 1'')) (\<lambda>_.
     ebind (expect '','' p) (\<lambda>p.
     ebind (name_token p) (\<lambda>(permission, p).
     ebind (ensure (\<not> tk_quoted permission \<and> upper (tk_text permission) \<in> {''NONE'', ''READ'', ''WRITE''})
       (acfError permission ''RULE permission must be NONE, READ, or WRITE'')) (\<lambda>_.
     ebind (peek p) (\<lambda>t.
     ebind (if tk_text t = '','' then rule_option p else Inr p) (\<lambda>p.
     ebind (expect '')'' p) rule_body)))))))))))"

lemma conditions_shorter: "conditions p = Inr p' \<Longrightarrow> length (ap_rest p') < length (ap_rest p)"
proof (induction "length (ap_rest p)" arbitrary: p rule: less_induct)
  case less
  have ih: "length (ap_rest p') < length (ap_rest q)" if "conditions (add_references k t m q) = Inr p'" "length (ap_rest q) < length (ap_rest p)" for k t m q
    using less.hyps[of "add_references k t m q"] that by simp
  from less.prems show ?case
    by (subst (asm) conditions.simps) (auto simp: res_simps split: if_splits dest!: callNames_shorter expect_shorter ih)
qed

lemma rule_option_shorter: "rule_option p = Inr p' \<Longrightarrow> length (ap_rest p') < length (ap_rest p)"
  by (auto simp: rule_option_def res_simps split: if_splits dest!: shorter)

lemma rule_body_shorter: "rule_body p = Inr p' \<Longrightarrow> length (ap_rest p') \<le> length (ap_rest p)"
  by (cases "ap_rest p") (auto simp: rule_body_def res_simps take_token_def split: if_splits dest!: conditions_shorter)

lemma parseRule_shorter: "parseRule p = Inr p' \<Longrightarrow> length (ap_rest p') < length (ap_rest p)"
  by (auto simp: parseRule_def res_simps split: if_splits dest!: shorter rule_option_shorter rule_body_shorter)

function asg_rules :: "AcfSubsetParser \<Rightarrow> string + AcfSubsetParser" where
  "asg_rules p =
     ebind (peek p) (\<lambda>t. if tk_text t \<noteq> ''}'' then ebind (parseRule p) asg_rules else Inr p)"
  by pat_completeness auto
termination
  by (relation "measure (\<lambda>p. length (ap_rest p))") (auto dest!: parseRule_shorter)

declare asg_rules.simps [simp del]

definition parseAsg :: "AcfSubsetParser \<Rightarrow> string + string \<times> AcfSubsetParser" where
  "parseAsg p =
     ebind (definitionName ''ASG'' p) (\<lambda>(group, p).
     ebind (expect ''{'' p) (\<lambda>p.
     ebind (asg_rules p) (\<lambda>p.
     ebind (expect ''}'' p) (\<lambda>p.
     Inr (group, p)))))"

lemma asg_rules_shorter: "asg_rules p = Inr p' \<Longrightarrow> length (ap_rest p') \<le> length (ap_rest p)"
proof (induction "length (ap_rest p)" arbitrary: p rule: less_induct)
  case less
  have ih: "length (ap_rest p') \<le> length (ap_rest q)" if "asg_rules q = Inr p'" "length (ap_rest q) < length (ap_rest p)" for q
    using less.hyps[OF that(2)] that(1) by blast
  from less.prems show ?case
    by (subst (asm) asg_rules.simps) (auto simp: res_simps split: if_splits dest!: parseRule_shorter ih)
qed

lemma parseAsg_shorter: "parseAsg p = Inr (g, p') \<Longrightarrow> length (ap_rest p') < length (ap_rest p)"
  by (auto simp: parseAsg_def res_simps dest!: definitionName_shorter expect_shorter asg_rules_shorter)

function constructs :: "string set \<Rightarrow> AcfSubsetParser \<Rightarrow> string + string set \<times> AcfSubsetParser" where
  "constructs groups p =
     (case ap_rest p of
        [] \<Rightarrow> Inr (groups, p)
      | t # _ \<Rightarrow>
          ebind (rejectDeferred t) (\<lambda>_.
          if upper (tk_text t) = ''UAG'' \<or> upper (tk_text t) = ''HAG''
          then ebind (parseNamedList (upper (tk_text t)) p) (constructs groups)
          else if upper (tk_text t) = ''ASG''
          then ebind (parseAsg p) (\<lambda>(group, p1).
            if group \<in> groups
            then Inl (acfError (last_token p1) (''duplicate ASG '' @ quoted_name group))
            else constructs (insert group groups) p1)
          else Inl (acfError t (''unknown top-level construct '' @ quoted_name (tk_text t)))))"
  by pat_completeness auto
termination
  by (relation "measure (\<lambda>(_, p). length (ap_rest p))")
    (auto dest!: parseNamedList_shorter parseAsg_shorter)

declare constructs.simps [simp del]

definition check_reference :: "AcfSubsetParser \<Rightarrow> unit \<Rightarrow> Reference \<Rightarrow> string + unit" where
  "check_reference p u reference =
     ensure (rf_name reference \<in> (if rf_kind reference = ''UAG'' then ap_uags p else ap_hags p))
       (acfError (rf_token reference) (rf_kind reference @ '' references undefined group '' @ quoted_name (rf_name reference)))"

definition make_parser :: "Token list \<Rightarrow> AcfSubsetParser" where
  "make_parser ts = \<lparr>ap_taken = [], ap_rest = ts, ap_uags = {}, ap_hags = {}, ap_references = []\<rparr>"

definition parse_policy :: "AcfSubsetParser \<Rightarrow> string + string set" where
  "parse_policy p =
     ebind (constructs {} p) (\<lambda>(groups, p).
     ebind (efold (check_reference p) () (ap_references p)) (\<lambda>_.
     Inr (insert ''DEFAULT'' groups)))"

definition inspectAcf :: "string \<Rightarrow> string + string set" where
  "inspectAcf text = ebind (tokenizeAcf text) (\<lambda>ts. parse_policy (make_parser ts))"

end
