(* ===== verification/Acf_Correct.thy ===== *)
theory Acf_Correct
  imports Acf_Parser
begin

text \<open>
  What \<open>AcfSubsetParser\<close> accepts. A grammar of the supported subset is given by inductive
  predicates on token lists, with the policy they spell; the parser accepts exactly the
  token lists that spell a policy whose definitions are distinct and whose references are
  defined, and its result is the set of the access security groups. Texts printed from tokens
  are read back.
\<close>

section \<open>Policies\<close>

record acf_rule =
  ru_level :: string
  ru_permission :: string
  ru_trap :: "string option"
  ru_conditions :: "(string \<times> string list) list"

datatype acf_construct = Named string string "string list" | Group string "acf_rule list"

definition cond_refs :: "(string \<times> string list) list \<Rightarrow> (string \<times> string) list" where
  "cond_refs cs = concat (map (\<lambda>(kind, names). map (Pair kind) names) cs)"

definition rule_refs :: "acf_rule list \<Rightarrow> (string \<times> string) list" where
  "rule_refs rs = concat (map (\<lambda>r. cond_refs (ru_conditions r)) rs)"

fun construct_refs :: "acf_construct \<Rightarrow> (string \<times> string) list" where
  "construct_refs (Named kind name members) = []"
| "construct_refs (Group name rs) = rule_refs rs"

definition named :: "string \<Rightarrow> acf_construct list \<Rightarrow> string list" where
  "named kind cs = concat (map (\<lambda>c. case c of Named k n _ \<Rightarrow> if k = kind then [n] else [] | Group _ _ \<Rightarrow> []) cs)"

definition group_names :: "acf_construct list \<Rightarrow> string list" where
  "group_names cs = concat (map (\<lambda>c. case c of Named _ _ _ \<Rightarrow> [] | Group n _ \<Rightarrow> [n]) cs)"

definition references :: "acf_construct list \<Rightarrow> (string \<times> string) list" where
  "references cs = concat (map construct_refs cs)"

definition wf_policy :: "acf_construct list \<Rightarrow> bool" where
  "wf_policy cs = (distinct (named ''UAG'' cs) \<and> distinct (named ''HAG'' cs) \<and> distinct (group_names cs)
     \<and> list_all (\<lambda>(kind, name). name \<in> set (named kind cs)) (references cs))"

section \<open>The grammar\<close>

definition keyword :: "string \<Rightarrow> Token \<Rightarrow> bool" where
  "keyword k t = (\<not> tk_quoted t \<and> upper (tk_text t) = k)"

inductive names_tail :: "Token list \<Rightarrow> string list \<Rightarrow> bool" where
  no_more: "names_tail [] []"
| one_more: "tk_text c = '','' \<Longrightarrow> is_name n \<Longrightarrow> names_tail ts ns \<Longrightarrow> names_tail (c # n # ts) (tk_text n # ns)"

inductive call :: "string \<Rightarrow> Token list \<Rightarrow> string list \<Rightarrow> bool" where
  call: "keyword k kw \<Longrightarrow> tk_text lp = ''('' \<Longrightarrow> is_name n \<Longrightarrow> names_tail tail ms \<Longrightarrow> tk_text rp = '')''
    \<Longrightarrow> call k (kw # lp # n # tail @ [rp]) (tk_text n # ms)"

inductive members :: "Token list \<Rightarrow> string list \<Rightarrow> bool" where
  no_member: "members [] []"
| some_members: "is_name n \<Longrightarrow> tk_text n \<noteq> ''}'' \<Longrightarrow> names_tail tail ms \<Longrightarrow> members (n # tail) (tk_text n # ms)"

inductive conds :: "Token list \<Rightarrow> (string \<times> string list) list \<Rightarrow> bool" where
  no_cond: "conds [] []"
| one_cond: "call k ts ns \<Longrightarrow> k = ''UAG'' \<or> k = ''HAG'' \<Longrightarrow> conds us cs \<Longrightarrow> conds (ts @ us) ((k, ns) # cs)"

inductive trap_option :: "Token list \<Rightarrow> string option \<Rightarrow> bool" where
  no_trap: "trap_option [] None"
| trap: "tk_text c = '','' \<Longrightarrow> keyword k t \<Longrightarrow> k = ''TRAPWRITE'' \<or> k = ''NOTRAPWRITE'' \<Longrightarrow> trap_option [c, t] (Some k)"

inductive body :: "Token list \<Rightarrow> (string \<times> string list) list \<Rightarrow> bool" where
  no_body: "body [] []"
| body: "tk_text lb = ''{'' \<Longrightarrow> conds ts cs \<Longrightarrow> tk_text rb = ''}'' \<Longrightarrow> body (lb # ts @ [rb]) cs"

inductive rule_spelled :: "Token list \<Rightarrow> acf_rule \<Rightarrow> bool" where
  rule: "keyword ''RULE'' kw \<Longrightarrow> tk_text lp = ''('' \<Longrightarrow> \<not> tk_quoted lv \<Longrightarrow> tk_text lv = ''0'' \<or> tk_text lv = ''1''
    \<Longrightarrow> tk_text c = '','' \<Longrightarrow> keyword pm t \<Longrightarrow> pm \<in> {''NONE'', ''READ'', ''WRITE''} \<Longrightarrow> trap_option os trap
    \<Longrightarrow> tk_text rp = '')'' \<Longrightarrow> body bs cs
    \<Longrightarrow> rule_spelled (kw # lp # lv # c # t # os @ rp # bs)
      \<lparr>ru_level = tk_text lv, ru_permission = pm, ru_trap = trap, ru_conditions = cs\<rparr>"

inductive rules_spelled :: "Token list \<Rightarrow> acf_rule list \<Rightarrow> bool" where
  no_rule: "rules_spelled [] []"
| one_rule: "rule_spelled ts r \<Longrightarrow> rules_spelled us rs \<Longrightarrow> rules_spelled (ts @ us) (r # rs)"

inductive construct_spelled :: "Token list \<Rightarrow> acf_construct \<Rightarrow> bool" where
  named_list: "k = ''UAG'' \<or> k = ''HAG'' \<Longrightarrow> call k ts [d] \<Longrightarrow> tk_text lb = ''{'' \<Longrightarrow> members us ms \<Longrightarrow> tk_text rb = ''}''
    \<Longrightarrow> construct_spelled (ts @ lb # us @ [rb]) (Named k d ms)"
| group: "call ''ASG'' ts [g] \<Longrightarrow> tk_text lb = ''{'' \<Longrightarrow> rules_spelled us rs \<Longrightarrow> tk_text rb = ''}''
    \<Longrightarrow> construct_spelled (ts @ lb # us @ [rb]) (Group g rs)"

inductive spells :: "Token list \<Rightarrow> acf_construct list \<Rightarrow> bool" where
  end_of_policy: "spells [] []"
| one_construct: "construct_spelled ts c \<Longrightarrow> spells us cs \<Longrightarrow> spells (ts @ us) (c # cs)"

section \<open>Soundness\<close>

text \<open>What a parsing function may not change, the positions apart.\<close>

definition core :: "AcfSubsetParser \<Rightarrow> string set \<times> string set \<times> (string \<times> string) list" where
  "core p = (ap_uags p, ap_hags p, map (\<lambda>r. (rf_kind r, rf_name r)) (ap_references p))"

lemma take_sound: "take_token p = Inr (t, p') \<Longrightarrow> ap_rest p = t # ap_rest p' \<and> core p' = core p"
  by (auto simp: take_token_def core_def split: list.splits)

lemma expect_sound: "expect s p = Inr p' \<Longrightarrow> \<exists>t. ap_rest p = t # ap_rest p' \<and> tk_text t = s \<and> core p' = core p"
  by (auto simp: expect_def res_simps split: if_splits dest: take_sound)

lemma name_sound: "name_token p = Inr (t, p') \<Longrightarrow> ap_rest p = t # ap_rest p' \<and> is_name t \<and> core p' = core p"
  by (auto simp: name_token_def res_simps split: if_splits dest: take_sound)

lemma more_names_sound:
  "more_names names p = Inr (ns, p') \<Longrightarrow>
     \<exists>tail ms. ap_rest p = tail @ ap_rest p' \<and> names_tail tail ms \<and> ns = names @ ms \<and> core p' = core p"
proof (induction "length (ap_rest p)" arbitrary: names p rule: less_induct)
  case less
  obtain t ts where t: "ap_rest p = t # ts"
    using less.prems by (subst (asm) more_names.simps) (auto simp: res_simps peek_Inr)
  show ?case
  proof (cases "tk_text t = '',''")
    case True
    with t less.prems obtain u p1 n p2 where
      p: "take_token p = Inr (u, p1)" "name_token p1 = Inr (n, p2)" "more_names (names @ [tk_text n]) p2 = Inr (ns, p')"
      by (subst (asm) more_names.simps) (auto simp: res_simps peek_Inr peek_def)
    have q: "ap_rest p = t # n # ap_rest p2" "core p2 = core p" "is_name n"
      using take_sound[OF p(1)] name_sound[OF p(2)] t by auto
    then obtain tail ms where "ap_rest p2 = tail @ ap_rest p'" "names_tail tail ms" "ns = names @ tk_text n # ms" "core p' = core p2"
      using less.hyps[OF _ p(3)] by auto
    with q show ?thesis using True by (intro exI[of _ "t # n # tail"] exI[of _ "tk_text n # ms"]) (simp add: names_tail.intros)
  next
    case False
    with t less.prems have "ns = names" "p' = p"
      by (subst (asm) more_names.simps, auto simp: res_simps peek_def)+
    then show ?thesis by (auto intro!: exI[of _ "[]"] no_more)
  qed
qed

lemma reject_sound: "rejectDeferred t = Inr u \<longleftrightarrow> tk_quoted t \<or> \<not> deferred (upper (tk_text t))"
  by (simp add: rejectDeferred_def res_simps)

lemma callNames_sound:
  assumes "callNames k p = Inr (ns, p')"
  shows "\<exists>ts. ap_rest p = ts @ ap_rest p' \<and> call k ts ns \<and> core p' = core p"
proof -
  from assms obtain kw p1 p2 n p3 p4 where
    1: "take_token p = Inr (kw, p1)" "keyword k kw" "expect ''('' p1 = Inr p2" "name_token p2 = Inr (n, p3)"
      "more_names [tk_text n] p3 = Inr (ns, p4)" "expect '')'' p4 = Inr p'"
    by (auto simp: callNames_def res_simps keyword_def)
  from more_names_sound[OF 1(5)] obtain tail ms where
    2: "ap_rest p3 = tail @ ap_rest p4" "names_tail tail ms" "ns = tk_text n # ms" "core p4 = core p3" by auto
  from 1 2 take_sound[OF 1(1)] expect_sound[OF 1(3)] name_sound[OF 1(4)] expect_sound[OF 1(6)]
  obtain lp rp where "ap_rest p = (kw # lp # n # tail @ [rp]) @ ap_rest p'" "tk_text lp = ''(''" "tk_text rp = '')''"
    "is_name n" "core p' = core p" by auto
  then show ?thesis using 1(2) 2 by (auto intro: call.intros)
qed

lemma definitionName_sound:
  assumes "definitionName k p = Inr (d, p')"
  shows "\<exists>ts. ap_rest p = ts @ ap_rest p' \<and> call k ts [d] \<and> core p' = core p"
proof -
  from assms obtain ns where ns: "callNames k p = Inr (ns, p')" "length ns = 1" "d = hd ns"
    by (auto simp: definitionName_def res_simps split: if_splits)
  then have "ns = [d]" by (cases ns) auto
  then show ?thesis using callNames_sound[OF ns(1)] by simp
qed

lemma list_names_sound:
  "list_names p = Inr p' \<Longrightarrow>
     \<exists>n tail ms. ap_rest p = n # tail @ ap_rest p' \<and> is_name n \<and> names_tail tail ms \<and> core p' = core p"
proof (induction "length (ap_rest p)" arbitrary: p rule: less_induct)
  case less
  then obtain n p1 t where 1: "name_token p = Inr (n, p1)" "peek p1 = Inr t"
    by (subst (asm) (2) list_names.simps) (auto simp: res_simps)
  have n: "ap_rest p = n # ap_rest p1" "is_name n" "core p1 = core p" using name_sound[OF 1(1)] by auto
  show ?case
  proof (cases "tk_text t = ''}''")
    case True
    with 1 less.prems have "p' = p1" by (subst (asm) list_names.simps) (auto simp: res_simps)
    with n show ?thesis by (auto intro!: exI[of _ "[]"] no_more)
  next
    case False
    with 1 less.prems obtain p2 where 2: "expect '','' p1 = Inr p2" "list_names p2 = Inr p'"
      by (subst (asm) list_names.simps) (auto simp: res_simps)
    from expect_sound[OF 2(1)] obtain c where c: "ap_rest p1 = c # ap_rest p2" "tk_text c = '',''" "core p2 = core p1" by auto
    with n less.hyps[OF _ 2(2)] obtain m tail ms where
      "ap_rest p2 = m # tail @ ap_rest p'" "is_name m" "names_tail tail ms" "core p' = core p2" by auto
    with n c show ?thesis by (intro exI[of _ n] exI[of _ "c # m # tail"] exI[of _ "tk_text m # ms"]) (simp add: names_tail.intros)
  qed
qed

lemma conditions_sound:
  "conditions p = Inr p' \<Longrightarrow>
     \<exists>ts cs rb. ap_rest p = ts @ rb # ap_rest p' \<and> conds ts cs \<and> tk_text rb = ''}''
       \<and> core p' = (ap_uags p, ap_hags p, snd (snd (core p)) @ cond_refs cs)"
proof (induction "length (ap_rest p)" arbitrary: p rule: less_induct)
  case less
  then obtain t ts where t: "ap_rest p = t # ts"
    by (subst (asm) (2) conditions.simps) (auto simp: res_simps peek_Inr)
  show ?case
  proof (cases "tk_text t = ''}''")
    case True
    with t less.prems have "expect ''}'' p = Inr p'" by (subst (asm) conditions.simps) (auto simp: res_simps peek_def)
    from expect_sound[OF this] t True show ?thesis by (auto simp: core_def cond_refs_def intro!: exI[of _ "[]"] no_cond)
  next
    case False
    let ?k = "upper (tk_text t)"
    from False t less.prems obtain ns p1 where
      1: "?k = ''UAG'' \<or> ?k = ''HAG''" "callNames ?k p = Inr (ns, p1)" "conditions (add_references ?k t ns p1) = Inr p'"
      by (subst (asm) conditions.simps) (auto simp: res_simps peek_def split: if_splits)
    from callNames_sound[OF 1(2)] obtain us where us: "ap_rest p = us @ ap_rest p1" "call ?k us ns" "core p1 = core p" by auto
    have "length (ap_rest (add_references ?k t ns p1)) < length (ap_rest p)" using callNames_shorter[OF 1(2)] by simp
    from less.hyps[OF this 1(3)] obtain vs cs rb where
      "ap_rest p1 = vs @ rb # ap_rest p'" "conds vs cs" "tk_text rb = ''}''"
      "core p' = (ap_uags p1, ap_hags p1, (snd (snd (core p1)) @ map (Pair ?k) ns) @ cond_refs cs)"
      by (auto simp: add_references_def core_def comp_def)
    with us 1(1) show ?thesis
      by (intro exI[of _ "us @ vs"] exI[of _ "(?k, ns) # cs"] exI[of _ rb])
        (auto simp: conds.intros core_def cond_refs_def)
  qed
qed

lemma rule_option_sound:
  assumes "rule_option p = Inr p'" "peek p = Inr c" "tk_text c = '',''"
  shows "\<exists>os trap. ap_rest p = os @ ap_rest p' \<and> trap_option os trap \<and> core p' = core p"
proof -
  from assms(1) obtain u p1 t where 1: "take_token p = Inr (u, p1)" "name_token p1 = Inr (t, p')"
    "keyword (upper (tk_text t)) t" "upper (tk_text t) = ''TRAPWRITE'' \<or> upper (tk_text t) = ''NOTRAPWRITE''"
    by (auto simp: rule_option_def res_simps keyword_def split: if_splits)
  with take_sound[OF 1(1)] name_sound[OF 1(2)] assms(2) have "ap_rest p = [c, t] @ ap_rest p'" "core p' = core p"
    by (auto simp: peek_Inr)
  then show ?thesis using trap_option.trap[OF assms(3) 1(3,4)] by blast
qed

lemma rule_body_sound:
  assumes "rule_body p = Inr p'"
  shows "\<exists>bs cs. ap_rest p = bs @ ap_rest p' \<and> body bs cs
    \<and> core p' = (ap_uags p, ap_hags p, snd (snd (core p)) @ cond_refs cs)"
proof (cases "\<exists>t ts. ap_rest p = t # ts \<and> tk_text t = ''{''")
  case True
  then obtain t ts p1 where t: "ap_rest p = t # ts" "tk_text t = ''{''" "take_token p = Inr (t, p1)" "conditions p1 = Inr p'"
    using assms by (auto simp: rule_body_def res_simps take_token_def)
  from take_sound[OF t(3)] have p1: "ap_rest p = t # ap_rest p1" "core p1 = core p" by auto
  from conditions_sound[OF t(4)] obtain us cs rb where
    "ap_rest p1 = us @ rb # ap_rest p'" "conds us cs" "tk_text rb = ''}''"
    "core p' = (ap_uags p1, ap_hags p1, snd (snd (core p1)) @ cond_refs cs)" by auto
  with p1 t show ?thesis
    by (intro exI[of _ "t # us @ [rb]"] exI[of _ cs]) (auto simp: body.intros core_def)
next
  case False
  then have "p' = p" using assms by (auto simp: rule_body_def split: list.splits if_splits)
  then show ?thesis by (auto simp: core_def cond_refs_def intro!: exI[of _ "[]"] no_body)
qed

lemma parseRule_sound:
  assumes "parseRule p = Inr p'"
  shows "\<exists>ts r. ap_rest p = ts @ ap_rest p' \<and> rule_spelled ts r
    \<and> core p' = (ap_uags p, ap_hags p, snd (snd (core p)) @ cond_refs (ru_conditions r))"
proof -
  from assms obtain kw p1 p2 lv p3 p4 t p5 c p6 p7 where
    1: "take_token p = Inr (kw, p1)" "keyword ''RULE'' kw" "expect ''('' p1 = Inr p2" "name_token p2 = Inr (lv, p3)"
      "\<not> tk_quoted lv" "tk_text lv = ''0'' \<or> tk_text lv = ''1''" "expect '','' p3 = Inr p4" "name_token p4 = Inr (t, p5)"
      "\<not> tk_quoted t" "upper (tk_text t) \<in> {''NONE'', ''READ'', ''WRITE''}" "peek p5 = Inr c"
      "(if tk_text c = '','' then rule_option p5 else Inr p5) = Inr p6" "expect '')'' p6 = Inr p7" "rule_body p7 = Inr p'"
    by (auto simp: parseRule_def res_simps keyword_def)
  obtain os trap where os: "ap_rest p5 = os @ ap_rest p6" "trap_option os trap" "core p6 = core p5"
  proof (cases "tk_text c = '',''")
    case True
    with 1 rule_option_sound[of p5 p6 c] that show ?thesis by auto
  next
    case False
    with 1 have "p6 = p5" by simp
    with that[of "[]" None] show ?thesis by (simp add: no_trap)
  qed
  from rule_body_sound[OF 1(14)] obtain bs cs where
    bs: "ap_rest p7 = bs @ ap_rest p'" "body bs cs" "core p' = (ap_uags p7, ap_hags p7, snd (snd (core p7)) @ cond_refs cs)" by auto
  obtain lp cm rp where k: "ap_rest p1 = lp # ap_rest p2" "tk_text lp = ''(''" "core p2 = core p1"
    "ap_rest p3 = cm # ap_rest p4" "tk_text cm = '',''" "core p4 = core p3"
    "ap_rest p6 = rp # ap_rest p7" "tk_text rp = '')''" "core p7 = core p6"
    using expect_sound[OF 1(3)] expect_sound[OF 1(7)] expect_sound[OF 1(13)] by blast
  have "rule_spelled (kw # lp # lv # cm # t # os @ rp # bs)
      \<lparr>ru_level = tk_text lv, ru_permission = upper (tk_text t), ru_trap = trap, ru_conditions = cs\<rparr>"
    by (rule rule_spelled.rule) (use 1 os bs k in \<open>auto simp: keyword_def\<close>)
  moreover have "ap_rest p = (kw # lp # lv # cm # t # os @ rp # bs) @ ap_rest p'" "core p7 = core p"
    using take_sound[OF 1(1)] name_sound[OF 1(4)] name_sound[OF 1(8)] os bs k by auto
  ultimately show ?thesis using bs(3)
    by (intro exI[of _ "kw # lp # lv # cm # t # os @ rp # bs"] exI) (auto simp: core_def)
qed

lemma asg_rules_sound:
  "asg_rules p = Inr p' \<Longrightarrow>
     \<exists>ts rs. ap_rest p = ts @ ap_rest p' \<and> rules_spelled ts rs
       \<and> core p' = (ap_uags p, ap_hags p, snd (snd (core p)) @ rule_refs rs)"
proof (induction "length (ap_rest p)" arbitrary: p rule: less_induct)
  case less
  then obtain t ts where t: "ap_rest p = t # ts"
    by (subst (asm) (2) asg_rules.simps) (auto simp: res_simps peek_Inr)
  show ?case
  proof (cases "tk_text t = ''}''")
    case True
    with t less.prems have "p' = p" by (subst (asm) asg_rules.simps) (auto simp: res_simps peek_def)
    then show ?thesis by (auto simp: core_def rule_refs_def intro!: exI[of _ "[]"] no_rule)
  next
    case False
    with t less.prems obtain p1 where 1: "parseRule p = Inr p1" "asg_rules p1 = Inr p'"
      by (subst (asm) asg_rules.simps) (auto simp: res_simps peek_def)
    from parseRule_sound[OF 1(1)] obtain us r where us: "ap_rest p = us @ ap_rest p1" "rule_spelled us r"
      "core p1 = (ap_uags p, ap_hags p, snd (snd (core p)) @ cond_refs (ru_conditions r))" by auto
    from less.hyps[OF parseRule_shorter[OF 1(1)] 1(2)] obtain vs rs where "ap_rest p1 = vs @ ap_rest p'" "rules_spelled vs rs"
      "core p' = (ap_uags p1, ap_hags p1, snd (snd (core p1)) @ rule_refs rs)" by auto
    with us show ?thesis
      by (intro exI[of _ "us @ vs"] exI[of _ "r # rs"]) (auto simp: rules_spelled.intros rule_refs_def core_def)
  qed
qed

lemma parseAsg_sound:
  assumes "parseAsg p = Inr (g, p')"
  shows "\<exists>ts rs. ap_rest p = ts @ ap_rest p' \<and> construct_spelled ts (Group g rs)
    \<and> core p' = (ap_uags p, ap_hags p, snd (snd (core p)) @ rule_refs rs)"
proof -
  from assms obtain p1 p2 p3 where 1: "definitionName ''ASG'' p = Inr (g, p1)" "expect ''{'' p1 = Inr p2"
    "asg_rules p2 = Inr p3" "expect ''}'' p3 = Inr p'"
    by (auto simp: parseAsg_def res_simps)
  from definitionName_sound[OF 1(1)] obtain ts where ts: "ap_rest p = ts @ ap_rest p1" "call ''ASG'' ts [g]" "core p1 = core p" by auto
  from asg_rules_sound[OF 1(3)] obtain us rs where us: "ap_rest p2 = us @ ap_rest p3" "rules_spelled us rs"
    "core p3 = (ap_uags p2, ap_hags p2, snd (snd (core p2)) @ rule_refs rs)" by auto
  obtain lb rb where k: "ap_rest p1 = lb # ap_rest p2" "tk_text lb = ''{''" "core p2 = core p1"
    "ap_rest p3 = rb # ap_rest p'" "tk_text rb = ''}''" "core p' = core p3"
    using expect_sound[OF 1(2)] expect_sound[OF 1(4)] by blast
  have "construct_spelled (ts @ lb # us @ [rb]) (Group g rs)"
    using ts us k by (intro construct_spelled.group)
  with ts us k show ?thesis
    by (intro exI[of _ "ts @ lb # us @ [rb]"] exI[of _ rs]) (auto simp: core_def)
qed

definition add_name :: "string \<Rightarrow> string \<Rightarrow> AcfSubsetParser \<Rightarrow> AcfSubsetParser" where
  "add_name k d p = (if k = ''UAG'' then p\<lparr>ap_uags := insert d (ap_uags p)\<rparr> else p\<lparr>ap_hags := insert d (ap_hags p)\<rparr>)"

definition names_of :: "string \<Rightarrow> AcfSubsetParser \<Rightarrow> string set" where
  "names_of k p = (if k = ''UAG'' then ap_uags p else ap_hags p)"

lemma names_of_core: "names_of k p = (if k = ''UAG'' then fst (core p) else fst (snd (core p)))"
  by (simp add: names_of_def core_def)

lemma add_name_rest [simp]: "ap_rest (add_name k d p) = ap_rest p"
  by (simp add: add_name_def)

lemma core_add_name: "core p' = core p \<Longrightarrow> core (add_name k d p') = core (add_name k d p)"
  by (auto simp: core_def add_name_def)

lemma parseNamedList_sound:
  assumes "parseNamedList k p = Inr p'" "k = ''UAG'' \<or> k = ''HAG''"
  shows "\<exists>ts d ms. ap_rest p = ts @ ap_rest p' \<and> construct_spelled ts (Named k d ms) \<and> d \<notin> names_of k p
    \<and> core p' = core (add_name k d p)"
proof -
  from assms(1) obtain d p1 p2 t p3 where 1: "definitionName k p = Inr (d, p1)" "d \<notin> names_of k p1"
    "expect ''{'' (add_name k d p1) = Inr p2" "peek p2 = Inr t"
    "(if tk_text t \<noteq> ''}'' then list_names p2 else Inr p2) = Inr p3" "expect ''}'' p3 = Inr p'"
    by (auto simp: parseNamedList_def Let_def res_simps names_of_def add_name_def)
  from definitionName_sound[OF 1(1)] obtain ts where ts: "ap_rest p = ts @ ap_rest p1" "call k ts [d]" "core p1 = core p" by auto
  obtain us ms where us: "ap_rest p2 = us @ ap_rest p3" "members us ms" "core p3 = core p2"
  proof (cases "tk_text t = ''}''")
    case True
    with 1(5) that[of "[]" "[]"] show ?thesis by (simp add: no_member)
  next
    case False
    with 1(5) have "list_names p2 = Inr p3" by simp
    from list_names_sound[OF this] obtain n tail ms where
      n: "ap_rest p2 = n # tail @ ap_rest p3" "is_name n" "names_tail tail ms" "core p3 = core p2" by auto
    with 1(4) False have "members (n # tail) (tk_text n # ms)" by (intro some_members) (auto simp: peek_Inr)
    with n that show ?thesis by simp
  qed
  obtain lb rb where k: "ap_rest p1 = lb # ap_rest p2" "tk_text lb = ''{''" "core p2 = core (add_name k d p1)"
    "ap_rest p3 = rb # ap_rest p'" "tk_text rb = ''}''" "core p' = core p3"
    using expect_sound[OF 1(3)] expect_sound[OF 1(6)] by auto
  have "construct_spelled (ts @ lb # us @ [rb]) (Named k d ms)"
    using ts us k assms(2) by (intro construct_spelled.named_list)
  moreover have "d \<notin> names_of k p" using 1(2) ts(3) by (simp add: names_of_core split: if_splits)
  ultimately show ?thesis using ts(1) us(1,3) k(1,3,4,6) core_add_name[OF ts(3), of k d]
    by (intro exI[of _ "ts @ lb # us @ [rb]"] exI[of _ d] exI[of _ ms]) simp
qed

text \<open>What a list of constructs adds to a parser that has read others before.\<close>

definition fits :: "string set \<Rightarrow> AcfSubsetParser \<Rightarrow> acf_construct list \<Rightarrow> bool" where
  "fits groups p cs = (distinct (group_names cs) \<and> set (group_names cs) \<inter> groups = {}
     \<and> distinct (named ''UAG'' cs) \<and> set (named ''UAG'' cs) \<inter> ap_uags p = {}
     \<and> distinct (named ''HAG'' cs) \<and> set (named ''HAG'' cs) \<inter> ap_hags p = {})"

definition core_after :: "AcfSubsetParser \<Rightarrow> acf_construct list \<Rightarrow> string set \<times> string set \<times> (string \<times> string) list" where
  "core_after p cs = (ap_uags p \<union> set (named ''UAG'' cs), ap_hags p \<union> set (named ''HAG'' cs), snd (snd (core p)) @ references cs)"

lemma core_projections: "core p = (u, h, r) \<Longrightarrow> ap_uags p = u \<and> ap_hags p = h \<and> snd (snd (core p)) = r"
  by (auto simp: core_def)

lemma fits_group:
  assumes "core p1 = (ap_uags p, ap_hags p, snd (snd (core p)) @ rule_refs rs)"
  shows "fits groups p (Group g rs # cs) \<longleftrightarrow> g \<notin> groups \<and> fits (insert g groups) p1 cs"
    and "core_after p (Group g rs # cs) = core_after p1 cs"
  using core_projections[OF assms] by (auto simp: fits_def core_after_def group_names_def named_def references_def)

lemma fits_named:
  assumes "core p1 = core (add_name k d p)" "k = ''UAG'' \<or> k = ''HAG''"
  shows "fits groups p (Named k d ms # cs) \<longleftrightarrow> d \<notin> names_of k p \<and> fits groups p1 cs"
    and "core_after p (Named k d ms # cs) = core_after p1 cs"
proof -
  have p1: "ap_uags p1 = (if k = ''UAG'' then insert d (ap_uags p) else ap_uags p)"
    "ap_hags p1 = (if k = ''UAG'' then ap_hags p else insert d (ap_hags p))" "snd (snd (core p1)) = snd (snd (core p))"
    using assms(1) by (auto simp: core_def add_name_def)
  show "fits groups p (Named k d ms # cs) \<longleftrightarrow> d \<notin> names_of k p \<and> fits groups p1 cs"
    using assms(2) p1(1,2) by (auto simp: fits_def group_names_def named_def names_of_def)
  show "core_after p (Named k d ms # cs) = core_after p1 cs"
    using assms(2) p1 by (auto simp: core_after_def named_def references_def)
qed

lemma constructs_sound:
  "constructs groups p = Inr (gs, p') \<Longrightarrow>
     \<exists>cs. spells (ap_rest p) cs \<and> fits groups p cs \<and> gs = groups \<union> set (group_names cs) \<and> core p' = core_after p cs"
proof (induction "length (ap_rest p)" arbitrary: groups p rule: less_induct)
  case less
  show ?case
  proof (cases "ap_rest p")
    case Nil
    with less.prems show ?thesis
      by (subst (asm) constructs.simps)
        (auto simp: fits_def core_after_def named_def group_names_def references_def core_def intro!: exI[of _ "[]"] end_of_policy)
  next
    case (Cons t ts)
    let ?k = "upper (tk_text t)"
    consider p1 where "?k = ''UAG'' \<or> ?k = ''HAG''" "parseNamedList ?k p = Inr p1" "constructs groups p1 = Inr (gs, p')"
      | g p1 where "parseAsg p = Inr (g, p1)" "g \<notin> groups" "constructs (insert g groups) p1 = Inr (gs, p')"
      using less.prems Cons by (subst (asm) constructs.simps) (auto simp: res_simps split: if_splits)
    then show ?thesis
    proof cases
      case 1
      from parseNamedList_sound[OF 1(2,1)] obtain us d ms where us: "ap_rest p = us @ ap_rest p1"
        "construct_spelled us (Named ?k d ms)" "d \<notin> names_of ?k p" "core p1 = core (add_name ?k d p)" by auto
      from less.hyps[OF parseNamedList_shorter[OF 1(2)] 1(3)] obtain cs where cs: "spells (ap_rest p1) cs" "fits groups p1 cs"
        "gs = groups \<union> set (group_names cs)" "core p' = core_after p1 cs" by auto
      with us fits_named[OF us(4) 1(1)] show ?thesis
        by (intro exI[of _ "Named ?k d ms # cs"]) (auto simp: one_construct group_names_def)
    next
      case 2
      from parseAsg_sound[OF 2(1)] obtain us rs where us: "ap_rest p = us @ ap_rest p1" "construct_spelled us (Group g rs)"
        "core p1 = (ap_uags p, ap_hags p, snd (snd (core p)) @ rule_refs rs)" by auto
      from less.hyps[OF parseAsg_shorter[OF 2(1)] 2(3)] obtain cs where cs: "spells (ap_rest p1) cs" "fits (insert g groups) p1 cs"
        "gs = insert g groups \<union> set (group_names cs)" "core p' = core_after p1 cs" by auto
      with us fits_group[OF us(3)] 2(2) show ?thesis
        by (intro exI[of _ "Group g rs # cs"]) (auto simp: one_construct group_names_def)
    qed
  qed
qed

section \<open>Completeness\<close>

lemma take_complete: "ap_rest p = t # r \<Longrightarrow> \<exists>p'. take_token p = Inr (t, p') \<and> ap_rest p' = r \<and> core p' = core p"
  by (simp add: take_token_def core_def)

lemma expect_complete: "ap_rest p = t # r \<Longrightarrow> tk_text t = s \<Longrightarrow> \<exists>p'. expect s p = Inr p' \<and> ap_rest p' = r \<and> core p' = core p"
  by (auto simp: expect_def dest: take_complete)

lemma name_complete: "ap_rest p = t # r \<Longrightarrow> is_name t \<Longrightarrow> \<exists>p'. name_token p = Inr (t, p') \<and> ap_rest p' = r \<and> core p' = core p"
  by (auto simp: name_token_def dest: take_complete)

lemma peek_complete: "ap_rest p = t # r \<Longrightarrow> peek p = Inr t"
  by (simp add: peek_def)

lemma not_deferred: "k \<in> {''UAG'', ''HAG'', ''ASG'', ''RULE''} \<Longrightarrow> \<not> deferred k"
  by (auto simp: deferred_def)

lemma keyword_passes: "keyword k t \<Longrightarrow> k \<in> {''UAG'', ''HAG'', ''ASG'', ''RULE''} \<Longrightarrow> rejectDeferred t = Inr ()"
  using not_deferred by (auto simp: reject_sound keyword_def)

lemma more_names_complete:
  "names_tail tail ms \<Longrightarrow> ap_rest p = tail @ x # r \<Longrightarrow> tk_text x \<noteq> '','' \<Longrightarrow>
     \<exists>p'. more_names names p = Inr (names @ ms, p') \<and> ap_rest p' = x # r \<and> core p' = core p"
proof (induction tail ms arbitrary: names p rule: names_tail.induct)
  case no_more
  then show ?case by (subst more_names.simps) (simp add: peek_def)
next
  case (one_more c n ts ns)
  obtain p1 where 1: "take_token p = Inr (c, p1)" "ap_rest p1 = n # ts @ x # r" "core p1 = core p"
    using take_complete[of p c] one_more.prems by auto
  obtain p2 where 2: "name_token p1 = Inr (n, p2)" "ap_rest p2 = ts @ x # r" "core p2 = core p1"
    using name_complete[OF 1(2) one_more.hyps(2)] by auto
  show ?case using one_more.IH[OF 2(2) one_more.prems(2), of "names @ [tk_text n]"] 1 2 one_more.hyps(1) one_more.prems
    by (subst more_names.simps) (auto simp: peek_def)
qed

lemma callNames_complete:
  assumes "call k ts ns" "ap_rest p = ts @ r" "k \<in> {''UAG'', ''HAG'', ''ASG'', ''RULE''}"
  shows "\<exists>p'. callNames k p = Inr (ns, p') \<and> ap_rest p' = r \<and> core p' = core p"
  using assms(1)
proof cases
  case (call kw lp n tail ms rp)
  obtain p1 where 1: "take_token p = Inr (kw, p1)" "ap_rest p1 = lp # n # tail @ rp # r" "core p1 = core p"
    using take_complete[of p kw] assms(2) call by auto
  obtain p2 where 2: "expect ''('' p1 = Inr p2" "ap_rest p2 = n # tail @ rp # r" "core p2 = core p1"
    using expect_complete[OF 1(2)] call by auto
  obtain p3 where 3: "name_token p2 = Inr (n, p3)" "ap_rest p3 = tail @ rp # r" "core p3 = core p2"
    using name_complete[OF 2(2)] call by auto
  obtain p4 where 4: "more_names [tk_text n] p3 = Inr (ns, p4)" "ap_rest p4 = rp # r" "core p4 = core p3"
    using more_names_complete[OF _ 3(2), of ms "[tk_text n]"] call by auto
  obtain p5 where 5: "expect '')'' p4 = Inr p5" "ap_rest p5 = r" "core p5 = core p4"
    using expect_complete[OF 4(2)] call by auto
  have "rejectDeferred kw = Inr ()" "\<not> tk_quoted kw" "upper (tk_text kw) = k"
    using keyword_passes[OF call(3) assms(3)] call(3) by (auto simp: keyword_def)
  with 1 2 3 4 5 show ?thesis by (auto simp: callNames_def)
qed

lemma definitionName_complete:
  assumes "call k ts [d]" "ap_rest p = ts @ r" "k \<in> {''UAG'', ''HAG'', ''ASG'', ''RULE''}"
  shows "\<exists>p'. definitionName k p = Inr (d, p') \<and> ap_rest p' = r \<and> core p' = core p"
  using callNames_complete[OF assms] by (auto simp: definitionName_def)

lemma list_names_complete:
  "names_tail tail ms \<Longrightarrow> ap_rest p = n # tail @ x # r \<Longrightarrow> is_name n \<Longrightarrow> tk_text x = ''}'' \<Longrightarrow>
     \<exists>p'. list_names p = Inr p' \<and> ap_rest p' = x # r \<and> core p' = core p"
proof (induction tail ms arbitrary: n p rule: names_tail.induct)
  case no_more
  then obtain p1 where "name_token p = Inr (n, p1)" "ap_rest p1 = x # r" "core p1 = core p"
    using name_complete[of p n] by auto
  with no_more show ?case by (subst list_names.simps) (simp add: peek_def)
next
  case (one_more c m ts ns)
  obtain p1 where 1: "name_token p = Inr (n, p1)" "ap_rest p1 = c # m # ts @ x # r" "core p1 = core p"
    using name_complete[of p n] one_more.prems by auto
  obtain p2 where 2: "expect '','' p1 = Inr p2" "ap_rest p2 = m # ts @ x # r" "core p2 = core p1"
    using expect_complete[OF 1(2) one_more.hyps(1)] by auto
  show ?case using one_more.IH[OF 2(2) one_more.hyps(2) one_more.prems(3)] 1 2 one_more.hyps(1)
    by (subst list_names.simps) (auto simp: peek_def)
qed

lemma upper_call: "call k ts ns \<Longrightarrow> \<exists>t us. ts = t # us \<and> upper (tk_text t) = k \<and> keyword k t"
  by (auto simp: keyword_def elim: call.cases)

lemma upper_brace: "upper ''}'' = ''}''" "upper ''{'' = ''{''"
  by (simp_all add: upper_def toupper_def)

lemma conditions_complete:
  "conds ts cs \<Longrightarrow> ap_rest p = ts @ rb # r \<Longrightarrow> tk_text rb = ''}'' \<Longrightarrow>
     \<exists>p'. conditions p = Inr p' \<and> ap_rest p' = r \<and> core p' = (ap_uags p, ap_hags p, snd (snd (core p)) @ cond_refs cs)"
proof (induction ts cs arbitrary: p rule: conds.induct)
  case no_cond
  then obtain p' where "expect ''}'' p = Inr p'" "ap_rest p' = r" "core p' = core p" using expect_complete[of p rb] by auto
  with no_cond show ?case by (subst conditions.simps) (simp add: peek_def cond_refs_def core_def)
next
  case (one_cond k ts ns us cs)
  obtain t vs where t: "ts = t # vs" "upper (tk_text t) = k" "keyword k t" using upper_call[OF one_cond.hyps(1)] by auto
  obtain p1 where 1: "callNames k p = Inr (ns, p1)" "ap_rest p1 = us @ rb # r" "core p1 = core p"
    using callNames_complete[OF one_cond.hyps(1), of p "us @ rb # r"] one_cond.prems one_cond.hyps(2) by auto
  let ?p = "add_references k t ns p1"
  obtain p' where p': "conditions ?p = Inr p'" "ap_rest p' = r"
    "core p' = (ap_uags ?p, ap_hags ?p, snd (snd (core ?p)) @ cond_refs cs)"
    using one_cond.IH[of ?p] 1 one_cond.prems by auto
  have "core p' = (ap_uags p, ap_hags p, snd (snd (core p)) @ cond_refs ((k, ns) # cs))"
    using p'(3) 1(3) by (auto simp: add_references_def core_def cond_refs_def comp_def)
  moreover have "rejectDeferred t = Inr ()" using keyword_passes[OF t(3)] one_cond.hyps(2) by auto
  moreover have "tk_text t \<noteq> ''}''" using t(2) one_cond.hyps(2) upper_brace by auto
  moreover have "ap_rest p = t # (vs @ us @ rb # r)" using one_cond.prems t by simp
  ultimately show ?case using 1(1) p'(1,2) t(2) one_cond.hyps(2)
    by (subst conditions.simps) (auto simp: peek_def)
qed

lemma keyword_is_name: "keyword k t \<Longrightarrow> k \<in> {''NONE'', ''READ'', ''WRITE'', ''TRAPWRITE'', ''NOTRAPWRITE''} \<Longrightarrow> is_name t"
  by (auto simp: is_name_def keyword_def upper_def toupper_def)

lemma rule_option_complete:
  assumes "trap_option os trap" "ap_rest p = os @ rp # r" "tk_text rp = '')''"
  shows "\<exists>p' t. peek p = Inr t \<and> (if tk_text t = '','' then rule_option p else Inr p) = Inr p'
    \<and> ap_rest p' = rp # r \<and> core p' = core p"
  using assms(1)
proof cases
  case no_trap
  with assms show ?thesis by (simp add: peek_def)
next
  case (trap c k t)
  obtain p1 where 1: "take_token p = Inr (c, p1)" "ap_rest p1 = t # rp # r" "core p1 = core p"
    using take_complete[of p c] assms(2) trap by auto
  obtain p2 where "name_token p1 = Inr (t, p2)" "ap_rest p2 = rp # r" "core p2 = core p1"
    using name_complete[OF 1(2)] keyword_is_name[of k t] trap by auto
  with 1 trap assms(2) show ?thesis by (auto simp: peek_def rule_option_def keyword_def)
qed

lemma rule_body_complete:
  assumes "body bs cs" "ap_rest p = bs @ r" "r = [] \<or> tk_text (hd r) \<noteq> ''{''"
  shows "\<exists>p'. rule_body p = Inr p' \<and> ap_rest p' = r \<and> core p' = (ap_uags p, ap_hags p, snd (snd (core p)) @ cond_refs cs)"
  using assms(1)
proof cases
  case no_body
  with assms show ?thesis by (cases r) (auto simp: rule_body_def core_def cond_refs_def)
next
  case (body lb ts rb)
  obtain p1 where 1: "take_token p = Inr (lb, p1)" "ap_rest p1 = ts @ rb # r" "core p1 = core p"
    using take_complete[of p lb] assms(2) body by auto
  obtain p' where "conditions p1 = Inr p'" "ap_rest p' = r" "core p' = (ap_uags p1, ap_hags p1, snd (snd (core p1)) @ cond_refs cs)"
    using conditions_complete[OF body(3) 1(2)] body by auto
  moreover have "ap_uags p1 = ap_uags p" "ap_hags p1 = ap_hags p" using 1(3) by (simp_all add: core_def)
  ultimately show ?thesis using 1 assms(2) body by (auto simp: rule_body_def)
qed

lemma parseRule_complete:
  assumes "rule_spelled ts ru" "ap_rest p = ts @ r" "r = [] \<or> tk_text (hd r) \<noteq> ''{''"
  shows "\<exists>p'. parseRule p = Inr p' \<and> ap_rest p' = r
    \<and> core p' = (ap_uags p, ap_hags p, snd (snd (core p)) @ cond_refs (ru_conditions ru))"
  using assms(1)
proof cases
  case (rule kw lp lv c pm t os trap rp bs cs)
  have kw: "rejectDeferred kw = Inr ()" "\<not> tk_quoted kw" "upper (tk_text kw) = ''RULE''"
    using keyword_passes[OF rule(3)] rule(3) by (auto simp: keyword_def)
  have t: "\<not> tk_quoted t" "upper (tk_text t) \<in> {''NONE'', ''READ'', ''WRITE''}" "is_name t"
    using keyword_is_name[OF rule(8)] rule(8,9) by (auto simp: keyword_def)
  have lv: "is_name lv" using rule by (auto simp: is_name_def)
  obtain p1 where 1: "take_token p = Inr (kw, p1)" "ap_rest p1 = lp # lv # c # t # os @ rp # bs @ r" "core p1 = core p"
    using take_complete[of p kw] assms(2) rule by auto
  obtain p2 where 2: "expect ''('' p1 = Inr p2" "ap_rest p2 = lv # c # t # os @ rp # bs @ r" "core p2 = core p1"
    using expect_complete[OF 1(2)] rule by auto
  obtain p3 where 3: "name_token p2 = Inr (lv, p3)" "ap_rest p3 = c # t # os @ rp # bs @ r" "core p3 = core p2"
    using name_complete[OF 2(2) lv] by auto
  obtain p4 where 4: "expect '','' p3 = Inr p4" "ap_rest p4 = t # os @ rp # bs @ r" "core p4 = core p3"
    using expect_complete[OF 3(2)] rule by auto
  obtain p5 where 5: "name_token p4 = Inr (t, p5)" "ap_rest p5 = os @ rp # bs @ r" "core p5 = core p4"
    using name_complete[OF 4(2) t(3)] by auto
  obtain p6 o1 where 6: "peek p5 = Inr o1" "(if tk_text o1 = '','' then rule_option p5 else Inr p5) = Inr p6"
    "ap_rest p6 = rp # bs @ r" "core p6 = core p5"
    using rule_option_complete[OF _ 5(2)] rule by blast
  obtain p7 where 7: "expect '')'' p6 = Inr p7" "ap_rest p7 = bs @ r" "core p7 = core p6"
    using expect_complete[OF 6(3)] rule by auto
  obtain p' where 8: "rule_body p7 = Inr p'" "ap_rest p' = r" "core p' = (ap_uags p7, ap_hags p7, snd (snd (core p7)) @ cond_refs cs)"
    using rule_body_complete[OF _ 7(2) assms(3)] rule by auto
  have "core p7 = core p" using 1 2 3 4 5 6 7 by simp
  then have "core p' = (ap_uags p, ap_hags p, snd (snd (core p)) @ cond_refs (ru_conditions ru))"
    using 8(3) rule(2) by (auto simp: core_def)
  moreover have "parseRule p = Inr p'"
    using kw t rule(5,6) 1(1) 2(1) 3(1) 4(1) 5(1) 6(1,2) 7(1) 8(1) by (auto simp: parseRule_def)
  ultimately show ?thesis using 8(2) by blast
qed

lemma rule_starts: "rule_spelled ts ru \<Longrightarrow> \<exists>t us. ts = t # us \<and> tk_text t \<noteq> ''}'' \<and> tk_text t \<noteq> ''{''"
  using upper_brace by (auto simp: keyword_def elim!: rule_spelled.cases)

lemma asg_rules_complete:
  "rules_spelled ts rs \<Longrightarrow> ap_rest p = ts @ rb # r \<Longrightarrow> tk_text rb = ''}'' \<Longrightarrow>
     \<exists>p'. asg_rules p = Inr p' \<and> ap_rest p' = rb # r \<and> core p' = (ap_uags p, ap_hags p, snd (snd (core p)) @ rule_refs rs)"
proof (induction ts rs arbitrary: p rule: rules_spelled.induct)
  case no_rule
  then show ?case by (subst asg_rules.simps) (simp add: peek_def rule_refs_def core_def)
next
  case (one_rule ts ru us rs)
  have "us @ rb # r = [] \<or> tk_text (hd (us @ rb # r)) \<noteq> ''{''"
    using one_rule.hyps(2) one_rule.prems rule_starts by (cases rule: rules_spelled.cases) fastforce+
  with parseRule_complete[OF one_rule.hyps(1), of p "us @ rb # r"] one_rule.prems
  obtain p1 where 1: "parseRule p = Inr p1" "ap_rest p1 = us @ rb # r"
    "core p1 = (ap_uags p, ap_hags p, snd (snd (core p)) @ cond_refs (ru_conditions ru))" by auto
  obtain p' where 2: "asg_rules p1 = Inr p'" "ap_rest p' = rb # r" "core p' = (ap_uags p1, ap_hags p1, snd (snd (core p1)) @ rule_refs rs)"
    using one_rule.IH[OF 1(2) one_rule.prems(2)] by auto
  have "core p' = (ap_uags p, ap_hags p, snd (snd (core p)) @ rule_refs (ru # rs))"
    using 2(3) 1(3) core_projections[OF 1(3)] by (simp add: rule_refs_def)
  with 1 2 rule_starts[OF one_rule.hyps(1)] one_rule.prems show ?case
    by (subst asg_rules.simps) (auto simp: peek_def)
qed

lemma parseAsg_complete:
  assumes "call ''ASG'' ts [g]" "tk_text lb = ''{''" "rules_spelled us rs" "tk_text rb = ''}''"
    and "ap_rest p = (ts @ lb # us @ [rb]) @ r"
  shows "\<exists>p'. parseAsg p = Inr (g, p') \<and> ap_rest p' = r
    \<and> core p' = (ap_uags p, ap_hags p, snd (snd (core p)) @ rule_refs rs)"
proof -
  obtain p1 where 1: "definitionName ''ASG'' p = Inr (g, p1)" "ap_rest p1 = lb # us @ rb # r" "core p1 = core p"
    using definitionName_complete[OF assms(1), of p "lb # us @ rb # r"] assms(5) by auto
  obtain p2 where 2: "expect ''{'' p1 = Inr p2" "ap_rest p2 = us @ rb # r" "core p2 = core p1"
    using expect_complete[OF 1(2) assms(2)] by auto
  obtain p3 where 3: "asg_rules p2 = Inr p3" "ap_rest p3 = rb # r" "core p3 = (ap_uags p2, ap_hags p2, snd (snd (core p2)) @ rule_refs rs)"
    using asg_rules_complete[OF assms(3) 2(2) assms(4)] by auto
  obtain p4 where 4: "expect ''}'' p3 = Inr p4" "ap_rest p4 = r" "core p4 = core p3"
    using expect_complete[OF 3(2) assms(4)] by auto
  have "core p4 = (ap_uags p, ap_hags p, snd (snd (core p)) @ rule_refs rs)"
    using 1(3) 2(3) 3(3) 4(3) by (auto simp: core_def)
  with 1 2 3 4 show ?thesis by (auto simp: parseAsg_def)
qed

lemma parseNamedList_complete:
  assumes "k = ''UAG'' \<or> k = ''HAG''" "call k ts [d]" "tk_text lb = ''{''" "members us ms" "tk_text rb = ''}''"
    and "ap_rest p = (ts @ lb # us @ [rb]) @ r" "d \<notin> names_of k p"
  shows "\<exists>p'. parseNamedList k p = Inr p' \<and> ap_rest p' = r \<and> core p' = core (add_name k d p)"
proof -
  obtain p1 where 1: "definitionName k p = Inr (d, p1)" "ap_rest p1 = lb # us @ rb # r" "core p1 = core p"
    using definitionName_complete[OF assms(2), of p "lb # us @ rb # r"] assms(1,6) by auto
  have "ap_rest (add_name k d p1) = lb # us @ rb # r" using 1(2) by simp
  from expect_complete[OF this assms(3)]
  obtain p2 where 2: "expect ''{'' (add_name k d p1) = Inr p2" "ap_rest p2 = us @ rb # r" "core p2 = core (add_name k d p1)" by auto
  obtain t p3 where 3: "peek p2 = Inr t" "(if tk_text t \<noteq> ''}'' then list_names p2 else Inr p2) = Inr p3"
    "ap_rest p3 = rb # r" "core p3 = core p2"
    using assms(4)
  proof cases
    case no_member
    with 2(2) assms(5) that[of rb p2] show ?thesis by (simp add: peek_def)
  next
    case (some_members n tail ns)
    with 2(2) assms(5) list_names_complete[of tail ns p2 n rb r] that[of n] show ?thesis by (auto simp: peek_def)
  qed
  obtain p4 where 4: "expect ''}'' p3 = Inr p4" "ap_rest p4 = r" "core p4 = core p3"
    using expect_complete[OF 3(3) assms(5)] by auto
  have "d \<notin> (if k = ''UAG'' then ap_uags p1 else ap_hags p1)"
    using assms(7) 1(3) by (auto simp: names_of_def core_def)
  then have "parseNamedList k p = Inr p4"
    using 1(1) 2(1) 3(1,2) 4(1) by (auto simp: parseNamedList_def add_name_def split: if_splits)
  moreover have "core p4 = core (add_name k d p)" using 2(3) 3(4) 4(3) core_add_name[OF 1(3)] by simp
  ultimately show ?thesis using 4(2) by blast
qed

lemma constructs_complete:
  "spells ts cs \<Longrightarrow> ap_rest p = ts \<Longrightarrow> fits groups p cs \<Longrightarrow>
     \<exists>p'. constructs groups p = Inr (groups \<union> set (group_names cs), p') \<and> core p' = core_after p cs"
proof (induction ts cs arbitrary: groups p rule: spells.induct)
  case end_of_policy
  then show ?case
    by (subst constructs.simps) (simp add: core_after_def named_def group_names_def references_def core_def)
next
  case (one_construct ts c us cs)
  from one_construct.hyps(1) show ?case
  proof cases
    case (named_list k vs d lb ws ms rb)
    obtain p1 where 1: "d \<notin> names_of k p" "parseNamedList k p = Inr p1" "ap_rest p1 = us" "core p1 = core (add_name k d p)"
      using parseNamedList_complete[OF named_list(3-7), of p us] one_construct.prems named_list
        fits_named(1)[OF refl named_list(3)] by auto
    obtain p' where 2: "constructs groups p1 = Inr (groups \<union> set (group_names cs), p')" "core p' = core_after p1 cs"
      using one_construct.IH[OF 1(3), of groups] one_construct.prems(2) fits_named(1)[OF 1(4) named_list(3)] named_list(2) by blast
    obtain t xs where t: "vs = t # xs" "upper (tk_text t) = k" "keyword k t" using upper_call[OF named_list(4)] by auto
    have "rejectDeferred t = Inr ()" using keyword_passes[OF t(3)] named_list(3) by auto
    then show ?thesis using 1 2 t one_construct.prems(1) named_list fits_named(2)[OF 1(4) named_list(3)]
      by (subst constructs.simps) (auto simp: group_names_def)
  next
    case (group vs g lb ws rs rb)
    obtain p1 where 1: "parseAsg p = Inr (g, p1)" "ap_rest p1 = us"
      "core p1 = (ap_uags p, ap_hags p, snd (snd (core p)) @ rule_refs rs)"
      using parseAsg_complete[OF group(3-6), of p us] one_construct.prems group by auto
    have g: "g \<notin> groups" "fits (insert g groups) p1 cs" using fits_group(1)[OF 1(3)] one_construct.prems(2) group(2) by auto
    obtain p' where 2: "constructs (insert g groups) p1 = Inr (insert g groups \<union> set (group_names cs), p')" "core p' = core_after p1 cs"
      using one_construct.IH[OF 1(2) g(2)] by auto
    obtain t xs where t: "vs = t # xs" "upper (tk_text t) = ''ASG''" "keyword ''ASG'' t" using upper_call[OF group(3)] by auto
    have "rejectDeferred t = Inr ()" using keyword_passes[OF t(3)] by auto
    then show ?thesis using 1 2 g t one_construct.prems(1) group fits_group(2)[OF 1(3)]
      by (subst constructs.simps) (auto simp: group_names_def)
  qed
qed

section \<open>Exactness\<close>

lemma check_references:
  "efold (check_reference p) () refs = Inr () \<longleftrightarrow>
     list_all (\<lambda>r. rf_name r \<in> (if rf_kind r = ''UAG'' then ap_uags p else ap_hags p)) refs"
  by (induction refs) (auto simp: check_reference_def res_simps)

lemma reference_kinds:
  "spells ts cs \<Longrightarrow> (k, n) \<in> set (references cs) \<Longrightarrow> k = ''UAG'' \<or> k = ''HAG''"
proof (induction ts cs rule: spells.induct)
  case (one_construct ts c us cs)
  have conds: "(k, n) \<in> set (cond_refs ds) \<Longrightarrow> k = ''UAG'' \<or> k = ''HAG''" if "conds xs ds" for xs ds
    using that by induction (auto simp: cond_refs_def)
  have body: "(k, n) \<in> set (cond_refs ds) \<Longrightarrow> k = ''UAG'' \<or> k = ''HAG''" if "body xs ds" for xs ds
    using that by cases (simp add: cond_refs_def, rule conds)
  have one: "(k, n) \<in> set (cond_refs (ru_conditions r)) \<Longrightarrow> k = ''UAG'' \<or> k = ''HAG''" if "rule_spelled xs r" for xs r
    using that by cases (use body in fastforce)
  have split: "set (rule_refs (r # rs)) = set (cond_refs (ru_conditions r)) \<union> set (rule_refs rs)" for r rs
    by (simp add: rule_refs_def)
  have rules: "(k, n) \<in> set (rule_refs rs) \<Longrightarrow> k = ''UAG'' \<or> k = ''HAG''" if "rules_spelled xs rs" for xs rs
    using that by induction (simp add: rule_refs_def, use split one in blast)
  from one_construct show ?case by (auto simp: references_def dest: rules elim!: construct_spelled.cases)
qed (simp add: references_def)

lemma references_defined:
  assumes "spells ts cs" "core p = core_after (make_parser ts) cs"
  shows "efold (check_reference p) () (ap_references p) = Inr () \<longleftrightarrow>
    list_all (\<lambda>(kind, name). name \<in> set (named kind cs)) (references cs)"
proof -
  have c: "ap_uags p = set (named ''UAG'' cs)" "ap_hags p = set (named ''HAG'' cs)"
    "map (\<lambda>r. (rf_kind r, rf_name r)) (ap_references p) = references cs"
    using assms(2) by (auto simp: core_def core_after_def make_parser_def)
  have "efold (check_reference p) () (ap_references p) = Inr () \<longleftrightarrow>
      list_all (\<lambda>(k, n). n \<in> (if k = ''UAG'' then set (named ''UAG'' cs) else set (named ''HAG'' cs))) (references cs)"
    unfolding check_references c(1,2) c(3)[symmetric] by (simp add: list_all_iff)
  also have "\<dots> \<longleftrightarrow> list_all (\<lambda>(kind, name). name \<in> set (named kind cs)) (references cs)"
    using reference_kinds[OF assms(1)] by (fastforce simp: list_all_iff)
  finally show ?thesis .
qed

lemma fits_initial: "fits {} (make_parser ts) cs \<longleftrightarrow> distinct (named ''UAG'' cs) \<and> distinct (named ''HAG'' cs) \<and> distinct (group_names cs)"
  by (auto simp: fits_def make_parser_def)

text \<open>
  C33: the inspection of an access security file accepts exactly the supported subset. It succeeds
  if and only if the tokens spell a sequence of UAG, HAG and ASG constructs in which no group of a
  kind is defined twice and every group that a rule names is defined somewhere in the file, and
  then its result is the set of the ASG names with \<open>DEFAULT\<close>.
\<close>

theorem acf_parser_exact:
  "parse_policy (make_parser ts) = Inr groups \<longleftrightarrow>
     (\<exists>policy. spells ts policy \<and> wf_policy policy \<and> groups = insert ''DEFAULT'' (set (group_names policy)))"
proof
  assume "parse_policy (make_parser ts) = Inr groups"
  then obtain gs p where 1: "constructs {} (make_parser ts) = Inr (gs, p)"
    "efold (check_reference p) () (ap_references p) = Inr ()" "groups = insert ''DEFAULT'' gs"
    by (auto simp: parse_policy_def res_simps)
  from constructs_sound[OF 1(1)] obtain cs where cs: "spells ts cs" "fits {} (make_parser ts) cs"
    "gs = set (group_names cs)" "core p = core_after (make_parser ts) cs" by (auto simp: make_parser_def)
  with 1 references_defined[OF cs(1,4)] fits_initial show "\<exists>policy. spells ts policy \<and> wf_policy policy \<and> groups = insert ''DEFAULT'' (set (group_names policy))"
    unfolding wf_policy_def by blast
next
  assume "\<exists>policy. spells ts policy \<and> wf_policy policy \<and> groups = insert ''DEFAULT'' (set (group_names policy))"
  then obtain cs where cs: "spells ts cs" "wf_policy cs" "groups = insert ''DEFAULT'' (set (group_names cs))" by blast
  moreover have "ap_rest (make_parser ts) = ts" by (simp add: make_parser_def)
  ultimately obtain p where "constructs {} (make_parser ts) = Inr (set (group_names cs), p)" "core p = core_after (make_parser ts) cs"
    using constructs_complete[OF cs(1), of "make_parser ts" "{}"] by (auto simp: wf_policy_def fits_initial)
  with cs references_defined[OF cs(1)] show "parse_policy (make_parser ts) = Inr groups"
    by (simp add: parse_policy_def wf_policy_def)
qed

section \<open>Texts\<close>

definition escape :: "string \<Rightarrow> string" where
  "escape text = concat (map (\<lambda>c. if c = dquote \<or> c = backslash then [backslash, c] else [c]) text)"

definition print_token :: "Token \<Rightarrow> string" where
  "print_token t = (if tk_quoted t then dquote # escape (tk_text t) @ [dquote] else tk_text t)"

definition print_tokens :: "Token list \<Rightarrow> string" where
  "print_tokens ts = concat (map (\<lambda>t. print_token t @ '' '') ts)"

definition printable :: "Token \<Rightarrow> bool" where
  "printable t = (tk_quoted t \<or> (\<exists>c. tk_text t = [c] \<and> punctuation c)
     \<or> tk_text t \<noteq> [] \<and> list_all (\<lambda>c. \<not> ends_word c) (tk_text t))"

definition shape :: "Token \<Rightarrow> string \<times> bool" where
  "shape t = (tk_text t, tk_quoted t)"

lemma char_facts:
  "isspace CHR '' ''" "\<not> isspace dquote" "dquote \<noteq> CHR ''#''" "\<not> punctuation dquote" "dquote \<noteq> backslash" "ends_word CHR '' ''"
  "CHR '' '' \<noteq> newline"
  by (simp_all add: isspace_def dquote_def punctuation_def backslash_def ends_word_def newline_def)

lemma read_quoted_escape:
  "\<exists>line' column'. read_quoted False val line column (escape w @ dquote # rest) = Some (val @ w, line', column', rest)"
proof (induction w arbitrary: val line column)
  case Nil
  then show ?case using char_facts by (simp add: escape_def Let_def)
next
  case (Cons c w)
  have "escape (c # w) @ dquote # rest = (if c = dquote \<or> c = backslash then [backslash, c] else [c]) @ escape w @ dquote # rest"
    by (simp add: escape_def)
  with Cons.IH[of "val @ [c]"] show ?case by (simp add: Let_def)
qed

lemma punctuation_plain: "punctuation c \<Longrightarrow> \<not> isspace c \<and> c \<noteq> CHR ''#'' \<and> c \<noteq> dquote"
  by (auto simp: punctuation_def isspace_def dquote_def)

lemma tokens_from_space:
  "(\<And>l k. \<exists>us. tokens_from l k rest = Inr us \<and> map shape us = ss) \<Longrightarrow> \<exists>us. tokens_from l k (CHR '' '' # rest) = Inr us \<and> map shape us = ss"
  using char_facts by simp

lemma tokens_from_token:
  assumes "printable t" "\<And>l k. \<exists>us. tokens_from l k rest = Inr us \<and> map shape us = ss"
  shows "\<exists>us. tokens_from l k (print_token t @ CHR '' '' # rest) = Inr us \<and> map shape us = shape t # ss"
proof -
  note next_tokens = tokens_from_space[OF assms(2)]
  consider "tk_quoted t" | c where "\<not> tk_quoted t" "tk_text t = [c]" "punctuation c"
    | c cs where "\<not> tk_quoted t" "tk_text t = c # cs" "\<not> ends_word c" "list_all (\<lambda>c. \<not> ends_word c) cs"
    using assms(1) by (cases "tk_text t") (auto simp: printable_def)
  then show ?thesis
  proof cases
    case 1
    obtain l' k' where "read_quoted False [] l (k + 1) (escape (tk_text t) @ dquote # CHR '' '' # rest)
        = Some (tk_text t, l', k', CHR '' '' # rest)"
      using read_quoted_escape[of "[]"] by fastforce
    moreover obtain us where "tokens_from l' k' (CHR '' '' # rest) = Inr us" "map shape us = ss" using next_tokens by blast
    ultimately show ?thesis using 1 char_facts by (simp add: print_token_def shape_def)
  next
    case 2
    obtain us where "tokens_from l (k + 1) (CHR '' '' # rest) = Inr us" "map shape us = ss" using next_tokens by blast
    then show ?thesis using 2 punctuation_plain[OF 2(3)] by (simp add: print_token_def shape_def del: tokens_from.simps add: tokens_from.simps(2)[of l k c])
  next
    case 3
    have c: "\<not> isspace c" "c \<noteq> CHR ''#''" "c \<noteq> dquote" "\<not> punctuation c" using 3(3) by (auto simp: ends_word_def)
    have w: "takeWhile (\<lambda>d. \<not> ends_word d) (cs @ CHR '' '' # rest) = cs" "dropWhile (\<lambda>d. \<not> ends_word d) (cs @ CHR '' '' # rest) = CHR '' '' # rest"
      using 3(4) char_facts by (auto simp: list_all_iff takeWhile_append2 dropWhile_append2)
    obtain us where "tokens_from l (k + length (c # cs)) (CHR '' '' # rest) = Inr us" "map shape us = ss" using next_tokens by blast
    then show ?thesis using 3(1,2) c w by (simp add: print_token_def shape_def Let_def del: tokens_from.simps add: tokens_from.simps(2)[of l k c])
  qed
qed

lemma print_read: "list_all printable ts \<Longrightarrow> \<exists>us. tokens_from l k (print_tokens ts) = Inr us \<and> map shape us = map shape ts"
proof (induction ts arbitrary: l k)
  case (Cons t ts)
  have "print_tokens (t # ts) = print_token t @ CHR '' '' # print_tokens ts" by (simp add: print_tokens_def)
  with tokens_from_token[of t "print_tokens ts" "map shape ts"] Cons show ?case by auto
qed (simp add: print_tokens_def)

lemma word_printable:
  "\<not> isspace c \<Longrightarrow> c \<noteq> CHR ''#'' \<Longrightarrow> c \<noteq> dquote \<Longrightarrow> \<not> punctuation c \<Longrightarrow>
     printable \<lparr>tk_text = c # takeWhile (\<lambda>d. \<not> ends_word d) cs, tk_line = l, tk_column = k, tk_quoted = False\<rparr>"
  using set_takeWhileD by (fastforce simp: printable_def list_all_iff ends_word_def)

lemma tokens_printable: "tokens_from l k w = Inr ts \<Longrightarrow> list_all printable ts"
proof (induction "length w" arbitrary: l k w ts rule: less_induct)
  case less
  show ?case
  proof (cases w)
    case Nil
    then show ?thesis using less.prems by simp
  next
    case (Cons c cs)
    have ih: "list_all printable us" if "tokens_from l' k' u = Inr us" "length u \<le> length cs" for l' k' u us
      using less.hyps[OF _ that(1)] that(2) Cons by simp
    show ?thesis
    proof (cases "isspace c \<or> c = CHR ''#'' \<or> c = dquote \<or> punctuation c")
      case True
      then show ?thesis using less.prems Cons ih skip_comment_length
        by (auto simp: res_simps printable_def split_beta split: if_splits option.splits dest: less_imp_le read_quoted_length)
    next
      case False
      then show ?thesis using less.prems Cons word_printable[of c cs]
        by (auto simp: res_simps Let_def length_dropWhile_le dest!: ih)
    qed
  qed
qed


definition demo_policy :: string where
  "demo_policy = ''UAG(ops) {alice, bob} # users'' @ [newline] @ ''ASG('' @ [dquote] @ ''a '' @ [backslash, dquote, dquote] @ '') { RULE(1, READ) RULE(1, write, TRAPWRITE) { UAG(ops) } }''"


lemma demo_policy_groups: "inspectAcf demo_policy = Inr {''DEFAULT'', [CHR ''a'', CHR '' '', dquote]}"
  by code_simp

end
