(* ===== verification/Access_Policy.thy ===== *)
theory Access_Policy
  imports Acf_Correct Config_Diff
begin

text \<open>
  The sequential helpers of \<open>src/access_control.cpp\<close>: reading, expanding and inspecting the
  access security file, its fingerprint, the host and user names that the access library sees
  for a client, and the bounded texts of the audit log. The file is what the stream yields, and
  the EPICS macro library is the parameter \<open>mac\<close>: the result of \<open>macCreateHandle\<close> for a set of
  macros, and for a handle the number and the buffer that \<open>macExpandString\<close> leaves for an
  input and a capacity.
\<close>

unbundle bit_operations_syntax

section \<open>The policy file\<close>

definition kMaxRawPolicyBytes :: nat where
  "kMaxRawPolicyBytes = 1024 * 1024"

definition kMaxExpandedPolicyBytes :: nat where
  "kMaxExpandedPolicyBytes = 4 * 1024 * 1024"

text \<open>\<open>if_length\<close> is the result of \<open>tellg\<close>, \<open>if_failed\<close> the state of the stream after it was copied.\<close>

record input_file =
  if_open :: bool
  if_length :: int
  if_text :: string
  if_failed :: bool

definition readTextFile :: "(string \<Rightarrow> input_file) \<Rightarrow> string \<Rightarrow> string + string" where
  "readTextFile files path =
     (let input = files path; quoted = quoted_name path in
      if \<not> if_open input then Inl (''cannot open ACF file '' @ quoted)
      else if if_length input < 0 then Inl (''cannot determine ACF file size for '' @ quoted)
      else if int kMaxRawPolicyBytes < if_length input then Inl (''ACF file exceeds the 1 MiB limit: '' @ quoted)
      else if if_failed input then Inl (''cannot read ACF file '' @ quoted)
      else if CHR 0x00 \<in> set (if_text input) then Inl (''ACF file contains a NUL byte: '' @ quoted)
      else Inr (if_text input))"

type_synonym mac = "(string, string) omap \<Rightarrow> (string \<Rightarrow> nat \<Rightarrow> int \<times> string) option"

definition initial_capacity :: "string \<Rightarrow> nat" where
  "initial_capacity input = min (kMaxExpandedPolicyBytes + 1) (max (length input + 1024) 4096)"

partial_function (option) expand_loop :: "(nat \<Rightarrow> int \<times> string) \<Rightarrow> nat \<Rightarrow> (string + string) option" where
  "expand_loop expand capacity =
     (if capacity \<le> kMaxExpandedPolicyBytes + 1
      then (case expand capacity of (result, output) \<Rightarrow>
        if result < 0 then Some (Inl ''ACF contains an undefined macro'')
        else if nat result + 1 < capacity then Some (Inr (take (nat result) output))
        else if capacity = kMaxExpandedPolicyBytes + 1 then Some (Inl ''expanded ACF exceeds supported size'')
        else expand_loop expand (min (kMaxExpandedPolicyBytes + 1) (capacity * 2)))
      else Some (Inl ''expanded ACF exceeds supported size''))"

definition expandMacros :: "mac \<Rightarrow> string \<Rightarrow> (string, string) omap \<Rightarrow> (string + string) option" where
  "expandMacros mac input macros = (case mac macros of
     None \<Rightarrow> Some (Inl ''failed to create ACF macro context'')
   | Some expand \<Rightarrow> expand_loop (expand input) (initial_capacity input))"

definition hash_step :: "char \<Rightarrow> u64 \<Rightarrow> u64" where
  "hash_step ch hash = (hash XOR of_char ch) * 1099511628211"

definition hash_text :: "string \<Rightarrow> u64" where
  "hash_text text = fold hash_step text 1469598103934665603"

definition hex16 :: "u64 \<Rightarrow> string" where
  "hex16 hash = map (\<lambda>i. hex_digit (unat (drop_bit (4 * (15 - i)) hash) mod 16)) [0..<16]"

definition fingerprint :: "string \<Rightarrow> string" where
  "fingerprint text = hex16 (hash_text text)"

record PreparedPolicy =
  pp_raw :: string
  pp_rawFingerprint :: string
  pp_expanded :: string
  pp_fingerprint :: string
  pp_groups :: "string set"

definition require_asg :: "string set \<Rightarrow> unit \<Rightarrow> string \<Rightarrow> string + unit" where
  "require_asg groups u asg = ensure (asg \<in> groups) (''ACF does not define required ASG '' @ quoted_name asg)"

text \<open>The required groups are listed in the order of the set.\<close>

definition preparePolicy :: "(string \<Rightarrow> input_file) \<Rightarrow> mac \<Rightarrow> AccessConfig \<Rightarrow> string list \<Rightarrow> (string + PreparedPolicy) option" where
  "preparePolicy files mac config requiredAsgs =
     (case readTextFile files (ac_file config) of
        Inl e \<Rightarrow> Some (Inl e)
      | Inr raw \<Rightarrow>
          map_option (\<lambda>expanded.
            ebind expanded (\<lambda>text.
            ebind (inspectAcf text) (\<lambda>groups.
            ebind (efold (require_asg groups) () requiredAsgs) (\<lambda>_.
            Inr \<lparr>pp_raw = raw, pp_rawFingerprint = fingerprint raw, pp_expanded = text,
                 pp_fingerprint = fingerprint text, pp_groups = groups\<rparr>))))
            (expandMacros mac raw (ac_macros config)))"

text \<open>The success, the fingerprint and the error text.\<close>

definition validateAccessPolicy :: "(string \<Rightarrow> input_file) \<Rightarrow> mac \<Rightarrow> AccessConfig \<Rightarrow> string list \<Rightarrow> (bool \<times> string \<times> string) option" where
  "validateAccessPolicy files mac config requiredAsgs =
     (if \<not> ac_enabled config then Some (True, [], [])
      else map_option (\<lambda>prepared. case prepared of
             Inl e \<Rightarrow> (False, [], e) | Inr p \<Rightarrow> (True, pp_fingerprint p, []))
           (preparePolicy files mac config requiredAsgs))"

section \<open>Clients\<close>

record ClientCredentials =
  cc_peer :: string
  cc_method :: string
  cc_account :: string
  cc_roles :: "string list"

definition mapped_prefix :: string where
  "mapped_prefix = ''::ffff:''"

definition clientHost :: "string \<Rightarrow> string" where
  "clientHost peer =
     (let host = (if peer \<noteq> [] \<and> hd peer = CHR ''[''
                  then (if CHR '']'' \<in> set peer then tl (takeWhile (\<lambda>c. c \<noteq> CHR '']'') peer) else peer)
                  else if count_list peer (CHR '':'') = 1 then takeWhile (\<lambda>c. c \<noteq> CHR '':'') peer else peer)
      in if take (length mapped_prefix) host = mapped_prefix then drop (length mapped_prefix) host else host)"

definition after_slash :: "string \<Rightarrow> string" where
  "after_slash account = rev (takeWhile (\<lambda>c. c \<noteq> CHR ''/'') (rev account))"

definition clientUsers :: "ClientCredentials \<Rightarrow> string list" where
  "clientUsers credentials =
     (if cc_method credentials = ''ca'' then after_slash (cc_account credentials)
      else cc_method credentials @ ''/'' @ cc_account credentials)
     # map (\<lambda>role. ''role/'' @ role) (cc_roles credentials)"

section \<open>Audit texts\<close>

record BoundedStreamBuffer =
  bb_limit :: nat
  bb_output :: string
  bb_truncated :: bool

definition make_buffer :: "nat \<Rightarrow> BoundedStreamBuffer" where
  "make_buffer limit = \<lparr>bb_limit = limit, bb_output = [], bb_truncated = False\<rparr>"

definition xsputn :: "string \<Rightarrow> BoundedStreamBuffer \<Rightarrow> BoundedStreamBuffer" where
  "xsputn chunk b =
     (let available = bb_limit b - length (bb_output b); copied = min available (length chunk) in
      b\<lparr>bb_output := bb_output b @ take copied chunk, bb_truncated := bb_truncated b \<or> copied \<noteq> length chunk\<rparr>)"

definition overflow :: "char \<Rightarrow> BoundedStreamBuffer \<Rightarrow> BoundedStreamBuffer" where
  "overflow ch b =
     (if length (bb_output b) < bb_limit b then b\<lparr>bb_output := bb_output b @ [ch]\<rparr> else b\<lparr>bb_truncated := True\<rparr>)"

definition buffer_result :: "BoundedStreamBuffer \<Rightarrow> string" where
  "buffer_result b = bb_output b @ (if bb_truncated b then ''...'' else [])"

text \<open>What the formatter of the PVXS library does to the stream.\<close>

datatype stream_write = Chunk string | Single char

fun write_stream :: "stream_write \<Rightarrow> BoundedStreamBuffer \<Rightarrow> BoundedStreamBuffer" where
  "write_stream (Chunk s) b = xsputn s b"
| "write_stream (Single c) b = overflow c b"

definition valuePreview :: "stream_write list \<Rightarrow> string" where
  "valuePreview writes =
     map (\<lambda>c. if c = CHR 0x0A \<or> c = CHR 0x0D then CHR '' '' else c) (buffer_result (fold write_stream writes (make_buffer 256)))"

definition audit_char :: "char \<Rightarrow> char" where
  "audit_char ch = (if (of_char ch :: nat) < 32 \<or> of_char ch = (127 :: nat) \<or> ch = dquote \<or> ch = backslash then CHR ''?'' else ch)"

definition auditField :: "string \<Rightarrow> string" where
  "auditField input = map audit_char (take 256 input) @ (if 256 < length input then ''...'' else [])"

section \<open>Expansion returns\<close>

lemma expand_loop_returns:
  assumes "0 < capacity"
  shows "\<exists>r. expand_loop expand capacity = Some r
    \<and> (\<forall>text. r = Inr text \<longrightarrow> (\<exists>c n output. capacity \<le> c \<and> c \<le> kMaxExpandedPolicyBytes + 1
         \<and> expand c = (int n, output) \<and> n + 1 < c \<and> text = take n output))"
  using assms
proof (induction "kMaxExpandedPolicyBytes + 1 - capacity" arbitrary: capacity rule: less_induct)
  case less
  obtain result out where e: "expand capacity = (result, out)" by fastforce
  consider "kMaxExpandedPolicyBytes + 1 < capacity \<or> result < 0 \<or> \<not> nat result + 1 < capacity \<and> capacity = kMaxExpandedPolicyBytes + 1"
    | "capacity \<le> kMaxExpandedPolicyBytes + 1" "0 \<le> result" "nat result + 1 < capacity"
    | "capacity < kMaxExpandedPolicyBytes + 1" "0 \<le> result" "\<not> nat result + 1 < capacity"
    by linarith
  then show ?case
  proof cases
    case 1
    then show ?thesis using e by (subst expand_loop.simps) auto
  next
    case 2
    then have "expand_loop expand capacity = Some (Inr (take (nat result) out))" using e by (subst expand_loop.simps) simp
    moreover have "expand capacity = (int (nat result), out)" using e 2 by simp
    ultimately show ?thesis using 2 by blast
  next
    case 3
    let ?c = "min (kMaxExpandedPolicyBytes + 1) (capacity * 2)"
    have "kMaxExpandedPolicyBytes + 1 - ?c < kMaxExpandedPolicyBytes + 1 - capacity" "0 < ?c" "capacity \<le> ?c"
      using 3 less.prems by auto
    with less.hyps[of ?c] have "\<exists>r. expand_loop expand ?c = Some r
      \<and> (\<forall>text. r = Inr text \<longrightarrow> (\<exists>c n output. capacity \<le> c \<and> c \<le> kMaxExpandedPolicyBytes + 1
           \<and> expand c = (int n, output) \<and> n + 1 < c \<and> text = take n output))"
      by (meson order_trans)
    then show ?thesis using 3 e by (subst expand_loop.simps) auto
  qed
qed

lemma initial_capacity_pos: "0 < initial_capacity input"
  by (simp add: initial_capacity_def max_def)

text \<open>
  C35: the expansion of macros ends for every input and every behaviour of the macro library, and
  a text it returns was written by the library into a buffer with room to spare, so it is never
  a truncated one and is below the limit of the expanded size.
\<close>

theorem expansion_returns:
  "\<exists>r. expandMacros mac input macros = Some r
    \<and> (\<forall>text. r = Inr text \<longrightarrow> length text < kMaxExpandedPolicyBytes
         \<and> (\<exists>expand c n output. mac macros = Some expand \<and> expand input c = (int n, output) \<and> n + 1 < c \<and> text = take n output))"
proof (cases "mac macros")
  case (Some expand)
  obtain r where r: "expand_loop (expand input) (initial_capacity input) = Some r"
    "\<forall>text. r = Inr text \<longrightarrow> (\<exists>c n output. c \<le> kMaxExpandedPolicyBytes + 1 \<and> expand input c = (int n, output) \<and> n + 1 < c \<and> text = take n output)"
    using expand_loop_returns[of "initial_capacity input" "expand input"] by (metis initial_capacity_pos)
  have "length w < kMaxExpandedPolicyBytes
      \<and> (\<exists>c n output. expand input c = (int n, output) \<and> n + 1 < c \<and> w = take n output)" if "r = Inr w" for w
    using r(2) that by fastforce
  then show ?thesis using r(1) Some by (auto simp: expandMacros_def)
qed (simp add: expandMacros_def)

definition demo_mac :: mac where
  "demo_mac macros = Some (\<lambda>input capacity. (int (length input), take (capacity - 1) input))"

theorem expansion_returns_witness:
  "\<exists>text. expandMacros demo_mac ''ASG(DEFAULT) { RULE(1, READ) }'' [] = Some (Inr text) \<and> length text < kMaxExpandedPolicyBytes"
proof -
  have "\<exists>text. expandMacros demo_mac ''ASG(DEFAULT) { RULE(1, READ) }'' [] = Some (Inr text)"
    by (simp add: expandMacros_def demo_mac_def initial_capacity_def kMaxExpandedPolicyBytes_def expand_loop.simps)
  then show ?thesis using expansion_returns[of demo_mac "''ASG(DEFAULT) { RULE(1, READ) }''" "[]"] by auto
qed

section \<open>Fingerprints\<close>

text \<open>The multiplier is odd, so a step can be undone.\<close>

definition hash_inverse :: u64 where
  "hash_inverse = 14886173955864302971"

lemma hash_step_inverse: "hash_step ch hash * hash_inverse = hash XOR of_char ch"
proof -
  have "(1099511628211 :: u64) * hash_inverse = 1" by (simp add: hash_inverse_def)
  then show ?thesis by (simp add: hash_step_def mult.assoc)
qed

lemma xor_inj: "(a :: 'a::len word) XOR c = b XOR c \<longleftrightarrow> a = b" "c XOR a = c XOR b \<longleftrightarrow> a = b"
  by (auto simp: bit_eq_iff bit_simps)

lemma hash_step_inj: "hash_step ch h = hash_step ch h' \<longleftrightarrow> h = h'"
  using hash_step_inverse[of ch h] hash_step_inverse[of ch h'] xor_inj(1) by metis

lemma of_char_u64_inj: "(of_char c :: u64) = of_char d \<longleftrightarrow> c = d"
proof -
  have "unat (of_char x :: u64) = of_char x" for x :: char
  proof -
    have "(of_char x :: nat) < 2 ^ LENGTH(64)" using less_le_trans[OF nat_of_char_less_256[of x], of "2 ^ LENGTH(64)"] by simp
    then have "unat (word_of_nat (of_char x) :: u64) = of_char x" by (rule unat_word_of_nat)
    then show ?thesis by (simp only: of_nat_of_char)
  qed
  then show ?thesis by (metis of_char_eq_iff)
qed

lemma hash_step_char: "hash_step c h = hash_step d h \<longleftrightarrow> c = d"
  using hash_step_inverse[of c h] hash_step_inverse[of d h] xor_inj(2) of_char_u64_inj by metis

lemma fold_hash_inj: "fold hash_step s h = fold hash_step s h' \<longleftrightarrow> h = h'"
  by (induction s arbitrary: h h') (simp_all add: hash_step_inj)

lemma hex_digit_inj: "m < 16 \<Longrightarrow> n < 16 \<Longrightarrow> hex_digit m = hex_digit n \<longleftrightarrow> m = n"
proof -
  assume *: "m < 16" "n < 16"
  have "(of_char (hex_digit k) :: nat) = (if k < 10 then 48 + k else 87 + k)" if "k < 16" for k
    using that by (simp add: hex_digit_def of_char_of take_bit_eq_mod)
  then have "hex_digit m = hex_digit n \<Longrightarrow> (if m < 10 then 48 + m else 87 + m) = (if n < 10 then 48 + n else 87 + n)"
    using * by metis
  then show ?thesis by (auto split: if_splits)
qed

lemma nibble_bits: "m < 4 \<Longrightarrow> bit (drop_bit (4 * k) h) m = bit (unat (drop_bit (4 * k) (h :: u64)) mod 16) m"
  using bit_take_bit_iff[of 4 "unat (drop_bit (4 * k) h)" m] by (simp add: take_bit_eq_mod bit_unsigned_iff)

lemma hex16_inj: "hex16 h = hex16 h' \<longleftrightarrow> h = h'"
proof
  assume eq: "hex16 h = hex16 h'"
  have n: "unat (drop_bit (4 * k) h) mod 16 = unat (drop_bit (4 * k) h') mod 16" if "k < 16" for k
  proof -
    from eq have "\<forall>i \<in> {0..<16}. hex_digit (unat (drop_bit (4 * (15 - i)) h) mod 16) = hex_digit (unat (drop_bit (4 * (15 - i)) h') mod 16)"
      unfolding hex16_def by simp
    from this[rule_format, of "15 - k"] that show ?thesis by (simp add: hex_digit_inj)
  qed
  have "bit h m = bit h' m" if "m < 64" for m
  proof -
    have "m div 4 < 16" "m mod 4 < 4" using that by auto
    then have "bit (drop_bit (4 * (m div 4)) h) (m mod 4) = bit (drop_bit (4 * (m div 4)) h') (m mod 4)"
      using n[of "m div 4"] nibble_bits by metis
    then show ?thesis by (simp add: bit_drop_bit_eq)
  qed
  then show "h = h'" by (auto simp: bit_eq_iff dest: bit_imp_le_length)
qed simp

text \<open>
  the fingerprint of a policy detects the change of any single character: two texts that differ
  in exactly one place have different fingerprints.
\<close>

theorem fingerprint_detects_change:
  "fingerprint (before @ c # after) = fingerprint (before @ d # after) \<longleftrightarrow> c = d"
  by (simp add: fingerprint_def hex16_inj hash_text_def fold_hash_inj hash_step_char)

section \<open>Clients and audit texts\<close>

text \<open>
  C36: a client of the \<open>ca\<close> method cannot pass for a role or for a client of another method: the
  user name taken from its account has no slash, while the names of roles and of other methods
  have one.
\<close>

theorem ca_account_has_no_slash:
  assumes "cc_method credentials = ''ca''" "cc_method other \<noteq> ''ca''"
  shows "hd (clientUsers credentials) \<notin> set (clientUsers other)
    \<and> hd (clientUsers credentials) \<notin> set (tl (clientUsers credentials))"
proof -
  have "CHR ''/'' \<notin> set (hd (clientUsers credentials))"
    using assms(1) set_takeWhileD[of "CHR ''/''" "\<lambda>c. c \<noteq> CHR ''/''"] by (auto simp: clientUsers_def after_slash_def)
  moreover have "list_all (\<lambda>u. CHR ''/'' \<in> set u) (clientUsers other)" "list_all (\<lambda>u. CHR ''/'' \<in> set u) (tl (clientUsers credentials))"
    using assms(2) by (simp_all add: clientUsers_def list_all_iff)
  ultimately show ?thesis unfolding list_all_iff by metis
qed

definition demo_client :: ClientCredentials where
  "demo_client = \<lparr>cc_peer = ''[::ffff:10.0.0.7]:5076'', cc_method = ''ca'', cc_account = ''role/admin'', cc_roles = [''ops'']\<rparr>"

theorem ca_account_has_no_slash_witness:
  "clientUsers demo_client = [''admin'', ''role/ops'']
   \<and> ''admin'' \<notin> set (clientUsers (demo_client\<lparr>cc_method := ''x509''\<rparr>)) \<and> clientHost (cc_peer demo_client) = ''10.0.0.7''"
proof -
  have "clientUsers demo_client = [''admin'', ''role/ops'']" "clientHost (cc_peer demo_client) = ''10.0.0.7''" by code_simp+
  then show ?thesis using ca_account_has_no_slash[of demo_client "demo_client\<lparr>cc_method := ''x509''\<rparr>"]
    by (simp add: demo_client_def)
qed

lemma bracketed: "CHR '']'' \<notin> set address \<Longrightarrow> takeWhile (\<lambda>c. c \<noteq> CHR '']'') (address @ CHR '']'' # port) = address"
  by (induction address) auto

lemma client_host_forms:
  "CHR '']'' \<notin> set address \<Longrightarrow> take (length mapped_prefix) address \<noteq> mapped_prefix \<Longrightarrow>
     clientHost (CHR ''['' # address @ CHR '']'' # port) = address"
  "CHR '']'' \<notin> set address \<Longrightarrow> clientHost (CHR ''['' # mapped_prefix @ address @ CHR '']'' # port) = address"
  using bracketed[of address port] bracketed[of "mapped_prefix @ address" port]
  by (simp_all add: clientHost_def Let_def) (simp add: mapped_prefix_def)

definition put_text :: "stream_write \<Rightarrow> string" where
  "put_text w = (case w of Chunk s \<Rightarrow> s | Single c \<Rightarrow> [c])"

lemma write_stream_step:
  assumes "bb_output b = take (bb_limit b) all" "bb_truncated b \<longleftrightarrow> bb_limit b < length all"
  shows "bb_output (write_stream w b) = take (bb_limit b) (all @ put_text w)
    \<and> (bb_truncated (write_stream w b) \<longleftrightarrow> bb_limit b < length (all @ put_text w))
    \<and> bb_limit (write_stream w b) = bb_limit b"
  using assms by (cases w) (auto simp: xsputn_def overflow_def put_text_def Let_def min_def)

lemma write_streams:
  assumes "bb_output b = take (bb_limit b) all" "bb_truncated b \<longleftrightarrow> bb_limit b < length all"
  shows "bb_output (fold write_stream ws b) = take (bb_limit b) (all @ concat (map put_text ws))
    \<and> (bb_truncated (fold write_stream ws b) \<longleftrightarrow> bb_limit b < length (all @ concat (map put_text ws)))"
  using assms
proof (induction ws arbitrary: b all)
  case (Cons w ws)
  from write_stream_step[OF Cons.prems, of w] Cons.IH[of "write_stream w b" "all @ put_text w"] show ?case by simp
qed simp

text \<open>
  a preview of a value is the first 256 characters that the formatter writes, however it cuts
  its output into pieces, followed by dots exactly when something was left out; and a field of the
  audit log is at most 259 characters long and holds no control character, quote or backslash, so
  no client can forge a line of the log or a field of it.
\<close>

theorem audit_texts_bounded:
  "buffer_result (fold write_stream writes (make_buffer limit))
     = take limit (concat (map put_text writes)) @ (if limit < length (concat (map put_text writes)) then ''...'' else [])
   \<and> length (auditField input) \<le> 259
   \<and> list_all (\<lambda>c. 32 \<le> (of_char c :: nat) \<and> of_char c \<noteq> (127 :: nat) \<and> c \<noteq> dquote \<and> c \<noteq> backslash) (auditField input)"
proof -
  have "list_all (\<lambda>c. 32 \<le> (of_char c :: nat) \<and> of_char c \<noteq> (127 :: nat) \<and> c \<noteq> dquote \<and> c \<noteq> backslash) (map audit_char s)" for s
    by (induction s) (auto simp: audit_char_def dquote_def backslash_def)
  then have "list_all (\<lambda>c. 32 \<le> (of_char c :: nat) \<and> of_char c \<noteq> (127 :: nat) \<and> c \<noteq> dquote \<and> c \<noteq> backslash) (auditField input)"
    by (simp add: auditField_def dquote_def backslash_def)
  moreover have "length (auditField input) \<le> 259" by (simp add: auditField_def)
  ultimately show ?thesis
    using write_streams[of "make_buffer limit" "[]" writes] by (simp add: make_buffer_def buffer_result_def)
qed

end
