(* ===== verification/Access_Operations.thy ===== *)
theory Access_Operations
  imports Access_Policy "HOL-Library.Multiset"
begin

text \<open>
  The operations that clients run on a secured channel, \<open>src/access_control.cpp\<close>: admission by the
  cached rights, the check before dispatch, the accounting of outcomes, the audit trail and the
  throttling of denial messages. An admitted operation has several owners that may end it: the
  reply, an error, a cancellation, a denial at dispatch and the destructor. Each first claims the
  operation and then records its outcome; the two are separate steps, and between them the claim
  is listed in \<open>au_completing\<close>. \<open>au_outcomes\<close> is a history of the completions.
\<close>

section \<open>Model\<close>

definition kRead :: u8 where
  "kRead = 1"

definition kWrite :: u8 where
  "kWrite = 2"

definition kTrapWrite :: u8 where
  "kTrapWrite = 4"

record AccessOperation =
  ao_channel :: nat
  ao_operation :: string
  ao_trap :: bool
  ao_done :: bool

record audit_record =
  ar_id :: nat
  ar_channel :: nat
  ar_operation :: string
  ar_phase :: string
  ar_result :: string

record Audit =
  au_authorizedOperations :: nat
  au_operationsInFlight :: nat
  au_operationsSucceeded :: nat
  au_operationsFailed :: nat
  au_operationsCancelled :: nat
  au_operationsAbandoned :: nat
  au_operationsDenied :: nat
  au_deniedReads :: nat
  au_deniedWrites :: nat
  au_denialLogsSuppressed :: nat
  au_lastDeniedMs :: "nat \<Rightarrow> bool \<Rightarrow> int"
  au_operations :: "nat \<Rightarrow> AccessOperation option"
  au_completing :: "(nat \<times> string) list"
  au_outcomes :: "(nat \<times> string) list"
  au_log :: "audit_record list"
  au_denials :: "(nat \<times> bool \<times> int) list"

definition make_audit :: Audit where
  "make_audit = \<lparr>au_authorizedOperations = 0, au_operationsInFlight = 0, au_operationsSucceeded = 0,
     au_operationsFailed = 0, au_operationsCancelled = 0, au_operationsAbandoned = 0, au_operationsDenied = 0,
     au_deniedReads = 0, au_deniedWrites = 0, au_denialLogsSuppressed = 0, au_lastDeniedMs = (\<lambda>_ _. 0),
     au_operations = Map.empty, au_completing = [], au_outcomes = [], au_log = [], au_denials = []\<rparr>"

definition recordAudit :: "nat \<Rightarrow> nat \<Rightarrow> string \<Rightarrow> string \<Rightarrow> string \<Rightarrow> Audit \<Rightarrow> Audit" where
  "recordAudit channel i operation phase result s =
     s\<lparr>au_log := au_log s @ [\<lparr>ar_id = i, ar_channel = channel, ar_operation = operation, ar_phase = phase, ar_result = result\<rparr>]\<rparr>"

text \<open>The constructor of \<open>AccessOperation\<close>; the new operation is known by its audit id.\<close>

definition admit :: "nat \<Rightarrow> string \<Rightarrow> bool \<Rightarrow> Audit \<Rightarrow> Audit" where
  "admit channel kind audited s =
     (let i = au_authorizedOperations s + 1;
          s = s\<lparr>au_authorizedOperations := i, au_operationsInFlight := au_operationsInFlight s + 1,
                au_operations := (au_operations s)(i \<mapsto>
                  \<lparr>ao_channel = channel, ao_operation = kind, ao_trap = audited, ao_done = False\<rparr>)\<rparr>
      in if audited then recordAudit channel i kind ''authorization'' ''allowed'' s else s)"

definition claim :: "nat \<Rightarrow> Audit \<Rightarrow> bool \<times> Audit" where
  "claim i s = (case au_operations s i of
     None \<Rightarrow> (False, s)
   | Some p \<Rightarrow> (\<not> ao_done p, s\<lparr>au_operations := (au_operations s)(i \<mapsto> p\<lparr>ao_done := True\<rparr>)\<rparr>))"

definition complete :: "nat \<Rightarrow> string \<Rightarrow> Audit \<Rightarrow> Audit" where
  "complete i outcome s = (case au_operations s i of
     None \<Rightarrow> s
   | Some p \<Rightarrow>
       (let s = s\<lparr>au_operationsInFlight := au_operationsInFlight s - 1, au_outcomes := au_outcomes s @ [(i, outcome)]\<rparr>;
            s = (if outcome = ''success'' then s\<lparr>au_operationsSucceeded := au_operationsSucceeded s + 1\<rparr>
                 else if outcome = ''error'' then s\<lparr>au_operationsFailed := au_operationsFailed s + 1\<rparr>
                 else if outcome = ''cancelled'' then s\<lparr>au_operationsCancelled := au_operationsCancelled s + 1\<rparr>
                 else if outcome = ''denied'' then s\<lparr>au_operationsDenied := au_operationsDenied s + 1\<rparr>
                 else s\<lparr>au_operationsAbandoned := au_operationsAbandoned s + 1\<rparr>)
        in if ao_trap p then recordAudit (ao_channel p) i (ao_operation p) ''completion'' outcome s else s))"

text \<open>The first half of \<open>finish\<close>: the winner of the claim goes on to complete.\<close>

definition begin_finish :: "nat \<Rightarrow> string \<Rightarrow> Audit \<Rightarrow> Audit" where
  "begin_finish i outcome s =
     (case claim i s of (won, s) \<Rightarrow> if won then s\<lparr>au_completing := au_completing s @ [(i, outcome)]\<rparr> else s)"

definition end_finish :: "nat \<Rightarrow> string \<Rightarrow> Audit \<Rightarrow> Audit" where
  "end_finish i outcome s = complete i outcome (s\<lparr>au_completing := remove1 (i, outcome) (au_completing s)\<rparr>)"

text \<open>\<open>now\<close> is the steady clock in milliseconds, before the one that keeps it from being zero is added.\<close>

definition recordDenied :: "nat \<Rightarrow> nat \<Rightarrow> bool \<Rightarrow> string \<Rightarrow> nat \<Rightarrow> Audit \<Rightarrow> Audit" where
  "recordDenied now channel write operation i s =
     (let s = (if write then s\<lparr>au_deniedWrites := au_deniedWrites s + 1\<rparr> else s\<lparr>au_deniedReads := au_deniedReads s + 1\<rparr>);
          s = (if write then recordAudit channel i operation ''authorization'' ''denied'' s else s);
          now = int now + 1; prior = au_lastDeniedMs s channel write
      in if prior = 0 \<or> now - prior \<ge> 5000
         then s\<lparr>au_lastDeniedMs := (au_lastDeniedMs s)(channel := (au_lastDeniedMs s channel)(write := now)),
                au_denials := au_denials s @ [(channel, write, now)]\<rparr>
         else s\<lparr>au_denialLogsSuppressed := au_denialLogsSuppressed s + 1\<rparr>)"

section \<open>Requests\<close>

datatype request = InfoRequest | GetRequest | PutRequest | RpcRequest | SubscribeRequest

definition has_right :: "u8 \<Rightarrow> u8 \<Rightarrow> bool" where
  "has_right rights bits = (rights AND bits \<noteq> 0)"

text \<open>Whether the request is handed on, and the state after it. A field query is refused at \<open>connect\<close>.\<close>

definition on_connect_info :: "nat \<Rightarrow> nat \<Rightarrow> u8 \<Rightarrow> Audit \<Rightarrow> bool \<times> Audit" where
  "on_connect_info now channel rights s =
     (if \<not> has_right rights kRead then (False, recordDenied now channel False ''put'' 0 s) else (True, s))"

definition on_get :: "nat \<Rightarrow> nat \<Rightarrow> u8 \<Rightarrow> Audit \<Rightarrow> bool \<times> Audit" where
  "on_get now channel rights s =
     (if \<not> has_right rights kRead then (False, recordDenied now channel False ''put'' 0 s) else (True, s))"

definition on_put :: "nat \<Rightarrow> nat \<Rightarrow> u8 \<Rightarrow> Audit \<Rightarrow> bool \<times> Audit" where
  "on_put now channel rights s =
     (if \<not> has_right rights kWrite then (False, recordDenied now channel True ''put'' 0 s)
      else (True, admit channel ''put'' (has_right rights kTrapWrite) s))"

definition on_rpc :: "nat \<Rightarrow> nat \<Rightarrow> u8 \<Rightarrow> Audit \<Rightarrow> bool \<times> Audit" where
  "on_rpc now channel rights s =
     (if \<not> has_right rights kWrite then (False, recordDenied now channel True ''rpc'' 0 s)
      else (True, admit channel ''rpc'' (has_right rights kTrapWrite) s))"

definition on_subscribe :: "nat \<Rightarrow> nat \<Rightarrow> u8 \<Rightarrow> Audit \<Rightarrow> bool \<times> Audit" where
  "on_subscribe now channel rights s =
     (if \<not> has_right rights kRead then (False, recordDenied now channel False ''put'' 0 s) else (True, s))"

fun on_request :: "nat \<Rightarrow> nat \<Rightarrow> u8 \<Rightarrow> request \<Rightarrow> Audit \<Rightarrow> bool \<times> Audit" where
  "on_request now channel rights InfoRequest s = on_connect_info now channel rights s"
| "on_request now channel rights GetRequest s = on_get now channel rights s"
| "on_request now channel rights PutRequest s = on_put now channel rights s"
| "on_request now channel rights RpcRequest s = on_rpc now channel rights s"
| "on_request now channel rights SubscribeRequest s = on_subscribe now channel rights s"

lemmas on_request_defs = on_connect_info_def on_get_def on_put_def on_rpc_def on_subscribe_def

text \<open>\<open>authorized\<close>: \<open>nested\<close> is the answer of an operation that is wrapped once more. A denial claims the operation and completes it later.\<close>

definition authorized :: "nat \<Rightarrow> u8 \<Rightarrow> bool \<Rightarrow> nat \<Rightarrow> Audit \<Rightarrow> bool \<times> Audit" where
  "authorized now rights nested i s =
     (if has_right rights kWrite then (nested, s)
      else (case au_operations s i of
        None \<Rightarrow> (False, s)
      | Some p \<Rightarrow>
          (case claim i s of (won, s) \<Rightarrow>
            (let s = recordDenied now (ao_channel p) True (ao_operation p) (if won \<and> ao_trap p then i else 0) s
             in (False, if won then s\<lparr>au_completing := au_completing s @ [(i, ''denied'')]\<rparr> else s)))))"

section \<open>Interleavings\<close>

text \<open>
  Requests arrive in any order; every admitted operation is ended by any number of its owners, in
  any order, and the completion of a claim comes at any later moment.
\<close>

inductive audited :: "Audit \<Rightarrow> bool" where
  initial: "audited make_audit"
| request: "audited s \<Longrightarrow> audited (snd (on_request now channel rights r s))"
| dispatch: "audited s \<Longrightarrow> audited (snd (authorized now rights nested i s))"
| owner_ends: "audited s \<Longrightarrow> outcome \<in> {''success'', ''error'', ''cancelled'', ''abandoned''} \<Longrightarrow> audited (begin_finish i outcome s)"
| completes: "audited s \<Longrightarrow> (i, outcome) \<in> set (au_completing s) \<Longrightarrow> audited (end_finish i outcome s)"

section \<open>Each operation has one outcome\<close>

lemma recordAudit_simps [simp]:
  "au_authorizedOperations (recordAudit c i x y z s) = au_authorizedOperations s"
  "au_operationsInFlight (recordAudit c i x y z s) = au_operationsInFlight s"
  "au_operationsSucceeded (recordAudit c i x y z s) = au_operationsSucceeded s"
  "au_operationsFailed (recordAudit c i x y z s) = au_operationsFailed s"
  "au_operationsCancelled (recordAudit c i x y z s) = au_operationsCancelled s"
  "au_operationsAbandoned (recordAudit c i x y z s) = au_operationsAbandoned s"
  "au_operationsDenied (recordAudit c i x y z s) = au_operationsDenied s"
  "au_deniedReads (recordAudit c i x y z s) = au_deniedReads s"
  "au_deniedWrites (recordAudit c i x y z s) = au_deniedWrites s"
  "au_denialLogsSuppressed (recordAudit c i x y z s) = au_denialLogsSuppressed s"
  "au_lastDeniedMs (recordAudit c i x y z s) = au_lastDeniedMs s"
  "au_operations (recordAudit c i x y z s) = au_operations s"
  "au_completing (recordAudit c i x y z s) = au_completing s"
  "au_outcomes (recordAudit c i x y z s) = au_outcomes s"
  "au_denials (recordAudit c i x y z s) = au_denials s"
  by (simp_all add: recordAudit_def)

lemma recordDenied_simps [simp]:
  "au_authorizedOperations (recordDenied now c w x i s) = au_authorizedOperations s"
  "au_operationsInFlight (recordDenied now c w x i s) = au_operationsInFlight s"
  "au_operationsSucceeded (recordDenied now c w x i s) = au_operationsSucceeded s"
  "au_operationsFailed (recordDenied now c w x i s) = au_operationsFailed s"
  "au_operationsCancelled (recordDenied now c w x i s) = au_operationsCancelled s"
  "au_operationsAbandoned (recordDenied now c w x i s) = au_operationsAbandoned s"
  "au_operationsDenied (recordDenied now c w x i s) = au_operationsDenied s"
  "au_operations (recordDenied now c w x i s) = au_operations s"
  "au_completing (recordDenied now c w x i s) = au_completing s"
  "au_outcomes (recordDenied now c w x i s) = au_outcomes s"
  by (simp_all add: recordDenied_def Let_def)

definition tally :: "string set \<Rightarrow> Audit \<Rightarrow> nat" where
  "tally os s = length (filter (\<lambda>e. snd e \<in> os) (au_outcomes s))"

definition named_outcomes :: "string set" where
  "named_outcomes = {''success'', ''error'', ''cancelled'', ''denied''}"

definition tallies :: "Audit \<Rightarrow> bool" where
  "tallies s = (au_operationsSucceeded s = tally {''success''} s \<and> au_operationsFailed s = tally {''error''} s
     \<and> au_operationsCancelled s = tally {''cancelled''} s \<and> au_operationsDenied s = tally {''denied''} s
     \<and> au_operationsAbandoned s = tally (- named_outcomes) s)"

definition ended :: "Audit \<Rightarrow> nat list" where
  "ended s = map fst (au_completing s @ au_outcomes s)"

definition ops_inv :: "Audit \<Rightarrow> bool" where
  "ops_inv s = ((\<forall>i. au_operations s i \<noteq> None \<longleftrightarrow> 1 \<le> i \<and> i \<le> au_authorizedOperations s)
     \<and> distinct (ended s)
     \<and> (\<forall>i. i \<in> set (ended s) \<longleftrightarrow> (\<exists>p. au_operations s i = Some p \<and> ao_done p))
     \<and> au_operationsInFlight s + length (au_outcomes s) = au_authorizedOperations s
     \<and> tallies s)"

lemma ops_invD:
  assumes "ops_inv s"
  shows "au_operations s i \<noteq> None \<longleftrightarrow> 1 \<le> i \<and> i \<le> au_authorizedOperations s" "distinct (ended s)"
    "i \<in> set (ended s) \<longleftrightarrow> (\<exists>p. au_operations s i = Some p \<and> ao_done p)"
    "au_operationsInFlight s + length (au_outcomes s) = au_authorizedOperations s" "tallies s"
  using assms unfolding ops_inv_def by blast+

text \<open>The state of the operations, which denials and audit records leave alone.\<close>

definition ops_part where
  "ops_part s = (au_authorizedOperations s, au_operationsInFlight s, au_operations s, au_completing s, au_outcomes s,
     (au_operationsSucceeded s, au_operationsFailed s, au_operationsCancelled s, au_operationsAbandoned s, au_operationsDenied s))"

lemma ops_inv_cong: "ops_part s = ops_part t \<Longrightarrow> ops_inv s \<longleftrightarrow> ops_inv t"
  by (simp add: ops_part_def ops_inv_def ended_def tallies_def tally_def)

lemma ops_part_denied [simp]: "ops_part (recordDenied now c w x i s) = ops_part s"
  by (simp add: ops_part_def)

lemma ops_part_audit [simp]: "ops_part (recordAudit c i x y z s) = ops_part s"
  by (simp add: ops_part_def)

lemma access_admit_inv: "ops_inv s \<Longrightarrow> ops_inv (admit channel kind trap s)"
proof -
  assume inv: "ops_inv s"
  note d = ops_invD[OF inv]
  let ?t = "s\<lparr>au_authorizedOperations := au_authorizedOperations s + 1, au_operationsInFlight := au_operationsInFlight s + 1,
    au_operations := (au_operations s)(au_authorizedOperations s + 1 \<mapsto>
      \<lparr>ao_channel = channel, ao_operation = kind, ao_trap = trap, ao_done = False\<rparr>)\<rparr>"
  have fresh: "au_operations s (au_authorizedOperations s + 1) = None" using d(1)[of "au_authorizedOperations s + 1"] by auto
  have "ops_inv ?t"
    unfolding ops_inv_def
  proof (intro conjI allI, goal_cases)
    case (1 i)
    then show ?case using d(1)[of i] by auto
  next
    case 2
    then show ?case using d(2) by (simp add: ended_def)
  next
    case (3 i)
    then show ?case using d(3)[of i] fresh by (auto simp: ended_def)
  next
    case 4
    then show ?case using d(4) by simp
  next
    case 5
    then show ?case using d(5) by (simp add: tallies_def tally_def)
  qed
  then show ?thesis unfolding admit_def Let_def by (cases trap) (simp_all add: ops_inv_cong[OF ops_part_audit])
qed

lemma start_inv:
  assumes inv: "ops_inv s" and p: "au_operations s i = Some p"
  shows "ops_inv (s\<lparr>au_operations := (au_operations s)(i \<mapsto> p\<lparr>ao_done := True\<rparr>),
    au_completing := (if ao_done p then au_completing s else au_completing s @ [(i, outcome)])\<rparr>)"
proof -
  note d = ops_invD[OF inv]
  show ?thesis
    unfolding ops_inv_def
  proof (intro conjI allI, goal_cases)
    case (1 j)
    then show ?case using d(1)[of j] p by auto
  next
    case 2
    then show ?case using d(2) d(3)[of i] p by (auto simp: ended_def)
  next
    case (3 j)
    then show ?case using d(3)[of j] p by (auto simp: ended_def)
  next
    case 4
    then show ?case using d(4) by simp
  next
    case 5
    then show ?case using d(5) by (simp add: tallies_def tally_def)
  qed
qed

lemma complete_effect:
  assumes "au_operations s i = Some p"
  shows "au_operations (complete i outcome s) = au_operations s" "au_completing (complete i outcome s) = au_completing s"
    "au_authorizedOperations (complete i outcome s) = au_authorizedOperations s"
    "au_operationsInFlight (complete i outcome s) = au_operationsInFlight s - 1"
    "au_outcomes (complete i outcome s) = au_outcomes s @ [(i, outcome)]"
  using assms by (simp_all add: complete_def Let_def)

lemma tallies_complete: "tallies s \<Longrightarrow> tallies (complete i outcome s)"
proof (cases "au_operations s i")
  case (Some p)
  assume "tallies s"
  then have t: "au_operationsSucceeded s = tally {''success''} s" "au_operationsFailed s = tally {''error''} s"
    "au_operationsCancelled s = tally {''cancelled''} s" "au_operationsDenied s = tally {''denied''} s"
    "au_operationsAbandoned s = tally (- named_outcomes) s" by (simp_all add: tallies_def)
  consider "outcome = ''success''" | "outcome = ''error''" | "outcome = ''cancelled''" | "outcome = ''denied''" | "outcome \<notin> named_outcomes"
    by (auto simp: named_outcomes_def)
  then show ?thesis
    by cases (use t Some in \<open>simp_all add: complete_def Let_def tallies_def tally_def named_outcomes_def\<close>)
qed (simp add: complete_def)

lemma complete_inv:
  assumes inv: "ops_inv s" and mem: "(i, outcome) \<in> set (au_completing s)"
  shows "ops_inv (end_finish i outcome s)"
proof -
  note d = ops_invD[OF inv]
  have in_completing: "i \<in> set (map fst (au_completing s))" using imageI[OF mem, of fst] by simp
  then have "i \<in> set (ended s)" by (simp add: ended_def)
  then obtain p where p: "au_operations s i = Some p" "ao_done p" using d(3) by blast
  have "i \<notin> set (map fst (au_outcomes s))" using d(2) in_completing by (auto simp: ended_def)
  moreover have "set (map fst (au_outcomes s)) \<subseteq> {1..au_authorizedOperations s}"
  proof
    fix j
    assume "j \<in> set (map fst (au_outcomes s))"
    then have "j \<in> set (ended s)" by (simp add: ended_def)
    then have "au_operations s j \<noteq> None" using d(3)[of j] by auto
    then show "j \<in> {1..au_authorizedOperations s}" using d(1)[of j] by simp
  qed
  moreover have "i \<in> {1..au_authorizedOperations s}" using d(1)[of i] p by auto
  ultimately have sub: "set (i # map fst (au_outcomes s)) \<subseteq> {1..au_authorizedOperations s}" and "distinct (i # map fst (au_outcomes s))"
    using d(2) by (auto simp: ended_def)
  then have "length (i # map fst (au_outcomes s)) \<le> card {1..au_authorizedOperations s}"
    using card_mono[OF _ sub] distinct_card[of "i # map fst (au_outcomes s)"] by simp
  then have room: "length (au_outcomes s) < au_authorizedOperations s" by simp
  have "mset (au_completing s) = mset ((i, outcome) # remove1 (i, outcome) (au_completing s))" using mem by simp
  then have "mset (map fst (au_completing s)) = mset (map fst ((i, outcome) # remove1 (i, outcome) (au_completing s)))"
    by (simp only: mset_map)
  then have keys: "mset (ended s) = mset (map fst (remove1 (i, outcome) (au_completing s) @ au_outcomes s @ [(i, outcome)]))"
    by (simp add: ended_def del: mset_map mset_remove1)
  let ?t = "s\<lparr>au_completing := remove1 (i, outcome) (au_completing s), au_operationsInFlight := au_operationsInFlight s - 1, au_outcomes := au_outcomes s @ [(i, outcome)]\<rparr>"
  have e: "ended ?t = map fst (remove1 (i, outcome) (au_completing s) @ au_outcomes s @ [(i, outcome)])" by (simp add: ended_def)
  have dist: "distinct (ended ?t)" unfolding e using d(2) mset_eq_imp_distinct_iff[OF keys] by blast
  have set: "set (ended ?t) = set (ended s)" unfolding e by (rule mset_eq_setD[OF keys, symmetric])
  have "ops_inv (end_finish i outcome s)"
    unfolding ops_inv_def
  proof (intro conjI allI, goal_cases)
    case (1 j)
    then show ?case using d(1)[of j] p by (simp add: end_finish_def complete_effect)
  next
    case 2
    then show ?case using dist p by (simp add: end_finish_def complete_effect ended_def)
  next
    case (3 j)
    then show ?case using set d(3)[of j] p by (simp add: end_finish_def complete_effect ended_def)
  next
    case 4
    then show ?case using d(4) room p by (simp add: end_finish_def complete_effect)
  next
    case 5
    have "tallies (s\<lparr>au_completing := remove1 (i, outcome) (au_completing s)\<rparr>)" using d(5) by (simp add: tallies_def tally_def)
    then show ?case unfolding end_finish_def by (rule tallies_complete)
  qed
  then show ?thesis .
qed

lemma request_inv: "ops_inv s \<Longrightarrow> ops_inv (snd (on_request now channel rights r s))"
  by (cases r) (auto simp: on_request_defs access_admit_inv ops_inv_cong[OF ops_part_denied])

lemma owner_finish_inv: "ops_inv s \<Longrightarrow> ops_inv (begin_finish i outcome s)"
  using start_inv[of s i _ outcome] by (auto simp: begin_finish_def claim_def split: option.splits)

lemma authorized_inv:
  assumes "ops_inv s"
  shows "ops_inv (snd (authorized now rights nested i s))"
proof (cases "has_right rights kWrite \<or> au_operations s i = None")
  case True
  then show ?thesis using assms by (auto simp: authorized_def)
next
  case False
  then obtain p where p: "au_operations s i = Some p" by auto
  let ?u = "s\<lparr>au_operations := (au_operations s)(i \<mapsto> p\<lparr>ao_done := True\<rparr>),
    au_completing := (if ao_done p then au_completing s else au_completing s @ [(i, ''denied'')])\<rparr>"
  have "ops_part (snd (authorized now rights nested i s)) = ops_part ?u"
    using False p by (simp add: authorized_def claim_def Let_def ops_part_def)
  then show ?thesis using start_inv[OF assms p] ops_inv_cong by blast
qed

lemma audited_inv: "audited s \<Longrightarrow> ops_inv s"
proof (induction rule: audited.induct)
  case initial
  then show ?case by (simp add: make_audit_def ops_inv_def ended_def tallies_def tally_def)
next
  case (dispatch s now rights nested i)
  then show ?case by (intro authorized_inv)
qed (simp_all add: request_inv owner_finish_inv complete_inv)

text \<open>
  C28: every operation that the access layer admits has exactly one recorded outcome, whichever of
  its owners end it and however their steps interleave: no operation is completed twice, the
  counters of the outcomes are the numbers of operations that ended so, the operations in flight
  are those admitted and not yet completed, so the counter never wraps, and once an owner has
  ended an operation and no completion is under way, it has its outcome.
\<close>

theorem operations_complete_once:
  assumes "audited s"
  shows "distinct (map fst (au_outcomes s))
    \<and> au_operationsInFlight s + length (au_outcomes s) = au_authorizedOperations s
    \<and> tallies s
    \<and> au_operationsInFlight s + au_operationsSucceeded s + au_operationsFailed s + au_operationsCancelled s
        + au_operationsDenied s + au_operationsAbandoned s = au_authorizedOperations s
    \<and> (\<forall>i p. au_operations s i = Some p \<longrightarrow> ao_done p \<longrightarrow> au_completing s = [] \<longrightarrow> i \<in> fst ` set (au_outcomes s))"
proof -
  note d = ops_invD[OF audited_inv[OF assms]]
  have sum: "length xs = length (filter (\<lambda>e. snd e \<in> {''success''}) xs) + length (filter (\<lambda>e. snd e \<in> {''error''}) xs)
      + length (filter (\<lambda>e. snd e \<in> {''cancelled''}) xs) + length (filter (\<lambda>e. snd e \<in> {''denied''}) xs)
      + length (filter (\<lambda>e. snd e \<in> - named_outcomes) xs)" for xs :: "(nat \<times> string) list"
    by (induction xs) (auto simp: named_outcomes_def)
  have "i \<in> fst ` set (au_outcomes s)" if "au_operations s i = Some p" "ao_done p" "au_completing s = []" for i p
    using d(3)[of i] that by (auto simp: ended_def)
  then show ?thesis using d(2,4,5) sum[of "au_outcomes s"] by (auto simp: ended_def tallies_def tally_def)
qed

definition demo_audit :: Audit where
  "demo_audit = end_finish 1 ''cancelled'' (begin_finish 1 ''success'' (begin_finish 1 ''cancelled''
     (snd (on_request 10 0 2 GetRequest (snd (on_request 9 0 6 PutRequest make_audit))))))"

lemma demo_audited: "audited demo_audit"
  unfolding demo_audit_def
  by (intro audited.completes audited.owner_ends audited.request audited.initial) code_simp+

theorem operations_complete_once_witness:
  "audited demo_audit \<and> au_outcomes demo_audit = [(1, ''cancelled'')] \<and> au_operationsInFlight demo_audit = 0
   \<and> au_deniedReads demo_audit = 1 \<and> distinct (map fst (au_outcomes demo_audit)) \<and> tallies demo_audit"
proof -
  have "au_outcomes demo_audit = [(1, ''cancelled'')]" "au_operationsInFlight demo_audit = 0" "au_deniedReads demo_audit = 1"
    by code_simp+
  then show ?thesis using demo_audited operations_complete_once[OF demo_audited] by blast
qed

section \<open>Denials\<close>

definition denial_times :: "nat \<Rightarrow> bool \<Rightarrow> Audit \<Rightarrow> int list" where
  "denial_times channel write s = map (\<lambda>(_, _, t). t) (filter (\<lambda>(c, w, _). c = channel \<and> w = write) (au_denials s))"

definition denial_inv :: "Audit \<Rightarrow> bool" where
  "denial_inv s = (au_deniedReads s + au_deniedWrites s = length (au_denials s) + au_denialLogsSuppressed s
     \<and> (\<forall>channel write. let ts = denial_times channel write s in
          au_lastDeniedMs s channel write = (if ts = [] then 0 else last ts)
          \<and> list_all (\<lambda>t. 0 < t) ts \<and> successively (\<lambda>a b. a + 5000 \<le> b) ts))"

definition denial_part where
  "denial_part s = (au_deniedReads s, au_deniedWrites s, au_denials s, au_denialLogsSuppressed s, au_lastDeniedMs s)"

lemma denial_inv_cong: "denial_part s = denial_part t \<Longrightarrow> denial_inv s \<longleftrightarrow> denial_inv t"
  by (simp add: denial_part_def denial_inv_def denial_times_def)

lemma denial_parts:
  "denial_part (recordAudit c i x y z s) = denial_part s" "denial_part (admit channel kind trap s) = denial_part s"
  "denial_part (snd (claim i s)) = denial_part s" "denial_part (complete i outcome s) = denial_part s"
  "denial_part (begin_finish i outcome s) = denial_part s" "denial_part (end_finish i outcome s) = denial_part s"
  by (simp_all add: denial_part_def admit_def claim_def complete_def begin_finish_def end_finish_def Let_def split: option.splits)

lemma denied_inv: "denial_inv s \<Longrightarrow> denial_inv (recordDenied now channel write operation i s)"
proof -
  assume inv: "denial_inv s"
  let ?t = "recordDenied now channel write operation i s" and ?now = "int now + 1"
  have ts: "denial_times c w ?t = (if c = channel \<and> w = write \<and> (au_lastDeniedMs s c w = 0 \<or> ?now - au_lastDeniedMs s c w \<ge> 5000)
      then denial_times c w s @ [?now] else denial_times c w s)" for c w
    by (auto simp: denial_times_def recordDenied_def Let_def)
  have last: "au_lastDeniedMs ?t c w = (if c = channel \<and> w = write \<and> (au_lastDeniedMs s c w = 0 \<or> ?now - au_lastDeniedMs s c w \<ge> 5000)
      then ?now else au_lastDeniedMs s c w)" for c w
    by (auto simp: recordDenied_def Let_def)
  have old: "au_lastDeniedMs s c w = (if denial_times c w s = [] then 0 else last (denial_times c w s))"
    "list_all (\<lambda>t. 0 < t) (denial_times c w s)" "successively (\<lambda>a b. a + 5000 \<le> b) (denial_times c w s)" for c w
    using inv unfolding denial_inv_def Let_def by blast+
  have pos: "denial_times c w s \<noteq> [] \<Longrightarrow> 0 < last (denial_times c w s)" for c w
    using old(2)[of c w] by (simp add: list_all_iff)
  have "au_deniedReads ?t + au_deniedWrites ?t = length (au_denials ?t) + au_denialLogsSuppressed ?t"
    using inv by (simp add: denial_inv_def recordDenied_def Let_def)
  moreover have "au_lastDeniedMs ?t c w = (if denial_times c w ?t = [] then 0 else last (denial_times c w ?t))
      \<and> list_all (\<lambda>t. 0 < t) (denial_times c w ?t) \<and> successively (\<lambda>a b. a + 5000 \<le> b) (denial_times c w ?t)" for c w
    unfolding ts last using old[of c w] pos[of c w] by (auto simp: successively_append_iff)
  ultimately show ?thesis unfolding denial_inv_def Let_def by blast
qed

lemma authorized_denial:
  "\<exists>c x j. denial_part (snd (authorized now rights nested i s)) = denial_part s
    \<or> denial_part (snd (authorized now rights nested i s)) = denial_part (recordDenied now c True x j s)"
  by (auto simp: authorized_def claim_def Let_def denial_part_def recordDenied_def split: option.splits)

lemma audited_denials: "audited s \<Longrightarrow> denial_inv s"
proof (induction rule: audited.induct)
  case initial
  then show ?case by (simp add: denial_inv_def make_audit_def denial_times_def)
next
  case (request s now channel rights r)
  then show ?case by (cases r) (auto simp: on_request_defs denied_inv denial_inv_cong[OF denial_parts(2)])
next
  case (dispatch s now rights nested i)
  then show ?case using authorized_denial[of now rights nested i s] denied_inv denial_inv_cong by metis
qed (simp_all add: denial_inv_cong[OF denial_parts(5)] denial_inv_cong[OF denial_parts(6)])


definition demo_denied :: Audit where
  "demo_denied = snd (on_request 7000 3 0 PutRequest (snd (on_request 3000 3 0 RpcRequest (snd (on_request 100 3 0 PutRequest make_audit)))))"


end
