(* ===== verification/Access_Rights.thy ===== *)
theory Access_Rights
  imports Access_Operations
begin

text \<open>
  The cached rights of the secured channels, \<open>src/access_control.cpp\<close>: the class \<open>ChannelState\<close>, the
  callback that the access library makes when it changes the rights of a client, and the
  recomputation that the controller runs afterwards. The EPICS library is the parameter \<open>access\<close>:
  for a policy in force and a channel, what \<open>asCheckGet\<close>, \<open>asCheckPut\<close> and the trap mask say for
  each user of the channel. The maintenance of the controller runs on one thread, so a
  recomputation is one step; a channel is created on the threads of the server, so the calls of
  \<open>initialize\<close> are steps of their own.
\<close>

section \<open>Model\<close>

record client_access =
  ca_get :: bool
  ca_put :: bool
  ca_trap :: bool

record ChannelState =
  ch_member :: nat
  ch_rights :: u8
  ch_rightsBeforeChange :: u8
  ch_dirty :: bool
  ch_initialized :: bool
  ch_read :: "u8 option"
  ch_listed :: bool
  ch_counted :: bool
  ch_closed :: bool

record 'p Rights =
  cr_policy :: 'p
  cr_channels :: "(nat, ChannelState) omap"
  cr_members :: "nat list"
  cr_dirty :: "nat list"
  cr_recomputeNeeded :: bool
  cr_activeClients :: nat
  cr_rightsChanges :: nat

type_synonym 'p access = "'p \<Rightarrow> nat \<Rightarrow> client_access list"

definition make_rights :: "'p \<Rightarrow> 'p Rights" where
  "make_rights p = \<lparr>cr_policy = p, cr_channels = [], cr_members = [], cr_dirty = [],
     cr_recomputeNeeded = False, cr_activeClients = 0, cr_rightsChanges = 0\<rparr>"

definition client_bits :: "client_access \<Rightarrow> u8" where
  "client_bits a = (if ca_get a then kRead else 0) OR (if ca_put a then kWrite OR (if ca_trap a then kTrapWrite else 0) else 0)"

definition computed_rights :: "client_access list \<Rightarrow> u8" where
  "computed_rights clients = fold (\<lambda>a rights. rights OR client_bits a) clients 0"

definition granted :: "'p access \<Rightarrow> 'p Rights \<Rightarrow> nat \<Rightarrow> u8" where
  "granted access s c = computed_rights (access (cr_policy s) c)"

abbreviation channel :: "'p Rights \<Rightarrow> nat \<Rightarrow> ChannelState option" where
  "channel s c \<equiv> omap_find (cr_channels s) c"

definition put_channel :: "nat \<Rightarrow> ChannelState \<Rightarrow> 'p Rights \<Rightarrow> 'p Rights" where
  "put_channel c ch s = s\<lparr>cr_channels := omap_assign c ch (cr_channels s)\<rparr>"

section \<open>Creation\<close>

text \<open>The constructor and the registration of the callbacks.\<close>

definition create_channel :: "nat \<Rightarrow> nat \<Rightarrow> 'p Rights \<Rightarrow> 'p Rights" where
  "create_channel c m s = put_channel c \<lparr>ch_member = m, ch_rights = 0, ch_rightsBeforeChange = 0, ch_dirty = False,
     ch_initialized = False, ch_read = None, ch_listed = False, ch_counted = False, ch_closed = False\<rparr> s"

text \<open>\<open>recompute(false)\<close>: the checks of the library, then the stores.\<close>

definition read_rights :: "'p access \<Rightarrow> nat \<Rightarrow> ChannelState \<Rightarrow> 'p Rights \<Rightarrow> 'p Rights" where
  "read_rights access c ch s = put_channel c (ch\<lparr>ch_read := Some (granted access s c)\<rparr>) s"

definition store_rights :: "nat \<Rightarrow> u8 \<Rightarrow> ChannelState \<Rightarrow> 'p Rights \<Rightarrow> 'p Rights" where
  "store_rights c next ch s =
     put_channel c (ch\<lparr>ch_rights := next, ch_dirty := False, ch_rightsBeforeChange := 0, ch_read := None, ch_initialized := True\<rparr>) s"

definition list_channel :: "nat \<Rightarrow> ChannelState \<Rightarrow> 'p Rights \<Rightarrow> 'p Rights" where
  "list_channel c ch s =
     (put_channel c (ch\<lparr>ch_listed := True, ch_counted := True\<rparr>) s)\<lparr>cr_activeClients := cr_activeClients s + 1\<rparr>"

definition destroy_channel :: "nat \<Rightarrow> ChannelState \<Rightarrow> 'p Rights \<Rightarrow> 'p Rights" where
  "destroy_channel c ch s =
     s\<lparr>cr_channels := omap_erase c (cr_channels s),
       cr_activeClients := (if ch_counted ch then cr_activeClients s - 1 else cr_activeClients s)\<rparr>"

section \<open>Changes of rights\<close>

definition recompute :: "'p access \<Rightarrow> nat \<Rightarrow> 'p Rights \<Rightarrow> 'p Rights" where
  "recompute access c s = (case channel s c of
     None \<Rightarrow> s
   | Some ch \<Rightarrow>
       (let next = granted access s c;
            prior = (if ch_rightsBeforeChange ch \<noteq> 0 then ch_rightsBeforeChange ch else ch_rights ch);
            ch' = ch\<lparr>ch_rights := next, ch_dirty := False, ch_rightsBeforeChange := 0\<rparr>
        in if prior \<noteq> next
           then (put_channel c (ch'\<lparr>ch_closed := True\<rparr>) s)\<lparr>cr_rightsChanges := cr_rightsChanges s + 1\<rparr>
           else put_channel c ch' s))"

text \<open>\<open>thrown\<close>: the allocation in \<open>markDirty\<close> fails.\<close>

definition accessChanged :: "bool \<Rightarrow> nat \<Rightarrow> 'p Rights \<Rightarrow> 'p Rights" where
  "accessChanged thrown c s = (case channel s c of
     None \<Rightarrow> s
   | Some ch \<Rightarrow>
       (let zeroed = ch\<lparr>ch_rights := 0, ch_rightsBeforeChange := ch_rightsBeforeChange ch OR ch_rights ch\<rparr>
        in if \<not> ch_initialized ch then put_channel c zeroed s
           else if ch_dirty ch then put_channel c zeroed s
           else let s = put_channel c (zeroed\<lparr>ch_dirty := True\<rparr>) s
                in if thrown then s\<lparr>cr_recomputeNeeded := True\<rparr> else s\<lparr>cr_dirty := cr_dirty s @ [c]\<rparr>))"

text \<open>The library installs a policy, or resolves host groups anew, and calls the clients concerned.\<close>

definition change_policy :: "'p \<Rightarrow> bool \<Rightarrow> nat list \<Rightarrow> 'p Rights \<Rightarrow> 'p Rights" where
  "change_policy p thrown called s = fold (accessChanged thrown) called (s\<lparr>cr_policy := p\<rparr>)"

definition liveClients :: "'p Rights \<Rightarrow> nat list" where
  "liveClients s = map fst (filter (\<lambda>(c, ch). ch_listed ch \<and> ch_member ch \<in> set (cr_members s)) (cr_channels s))"

definition recomputeAllClients :: "'p access \<Rightarrow> 'p Rights \<Rightarrow> 'p Rights" where
  "recomputeAllClients access s = fold (recompute access) (liveClients s) (s\<lparr>cr_dirty := []\<rparr>)"

definition drainDirty :: "'p access \<Rightarrow> 'p Rights \<Rightarrow> 'p Rights" where
  "drainDirty access s =
     (if cr_recomputeNeeded s then recomputeAllClients access (s\<lparr>cr_recomputeNeeded := False\<rparr>)
      else fold (recompute access) (cr_dirty s) (s\<lparr>cr_dirty := []\<rparr>))"

section \<open>Interleavings\<close>

text \<open>
  The library calls at least the clients whose rights the change of policy alters. In the runs
  where \<open>quiet\<close> holds it changes the policy only when no creation is under way.
\<close>

definition creating :: "'p Rights \<Rightarrow> bool" where
  "creating s = list_ex (\<lambda>(c, ch). \<not> ch_listed ch) (cr_channels s)"

definition calls_affected :: "'p access \<Rightarrow> 'p \<Rightarrow> nat list \<Rightarrow> 'p Rights \<Rightarrow> bool" where
  "calls_affected access p called s =
     list_all (\<lambda>c. access p c = access (cr_policy s) c \<or> c \<in> set called) (map fst (cr_channels s))"

inductive rights_run :: "bool \<Rightarrow> 'p access \<Rightarrow> 'p Rights \<Rightarrow> bool" for quiet and access :: "'p access" where
  start: "rights_run quiet access (make_rights p)"
| members: "rights_run quiet access s \<Longrightarrow> rights_run quiet access (s\<lparr>cr_members := ms\<rparr>)"
| create: "rights_run quiet access s \<Longrightarrow> channel s c = None \<Longrightarrow> c \<notin> set (cr_dirty s) \<Longrightarrow> rights_run quiet access (create_channel c m s)"
| check: "rights_run quiet access s \<Longrightarrow> channel s c = Some ch \<Longrightarrow> \<not> ch_initialized ch \<Longrightarrow> ch_read ch = None
    \<Longrightarrow> rights_run quiet access (read_rights access c ch s)"
| store: "rights_run quiet access s \<Longrightarrow> channel s c = Some ch \<Longrightarrow> ch_read ch = Some next \<Longrightarrow> rights_run quiet access (store_rights c next ch s)"
| listing: "rights_run quiet access s \<Longrightarrow> channel s c = Some ch \<Longrightarrow> ch_initialized ch \<Longrightarrow> \<not> ch_listed ch
    \<Longrightarrow> rights_run quiet access (list_channel c ch s)"
| destroy: "rights_run quiet access s \<Longrightarrow> channel s c = Some ch \<Longrightarrow> rights_run quiet access (destroy_channel c ch s)"
| policy: "rights_run quiet access s \<Longrightarrow> calls_affected access p called s \<Longrightarrow> quiet \<longrightarrow> \<not> creating s
    \<Longrightarrow> rights_run quiet access (change_policy p thrown called s)"
| drain: "rights_run quiet access s \<Longrightarrow> rights_run quiet access (drainDirty access s)"
| all_clients: "rights_run quiet access s \<Longrightarrow> rights_run quiet access (recomputeAllClients access s)"

section \<open>Effects\<close>

lemma put_channel_simps [simp]:
  "cr_policy (put_channel c ch s) = cr_policy s" "cr_members (put_channel c ch s) = cr_members s"
  "cr_dirty (put_channel c ch s) = cr_dirty s" "cr_recomputeNeeded (put_channel c ch s) = cr_recomputeNeeded s"
  by (simp_all add: put_channel_def)

lemma put_channel_find:
  "omap_wf (cr_channels s) \<Longrightarrow> channel (put_channel c ch s) d = (if d = c then Some ch else channel s d)"
  "omap_wf (cr_channels s) \<Longrightarrow> omap_wf (cr_channels (put_channel c ch s))"
  by (simp_all add: put_channel_def omap_find_assign omap_wf_assign)

lemma granted_cong: "cr_policy s = cr_policy t \<Longrightarrow> granted access s c = granted access t c"
  by (simp add: granted_def)

lemma accessChanged_effect:
  assumes "omap_wf (cr_channels s)"
  shows "cr_policy (accessChanged thrown c s) = cr_policy s" "omap_wf (cr_channels (accessChanged thrown c s))"
    "channel (accessChanged thrown c s) d = None \<longleftrightarrow> channel s d = None"
    "channel (accessChanged thrown c s) d = Some ch' \<Longrightarrow> \<exists>ch. channel s d = Some ch
       \<and> ch_read ch' = ch_read ch \<and> ch_listed ch' = ch_listed ch \<and> ch_initialized ch' = ch_initialized ch
       \<and> ch_rights ch' = (if d = c then 0 else ch_rights ch)"
  using assms by (auto simp: accessChanged_def Let_def put_channel_find split: option.splits if_splits)

lemma callbacks_effect:
  assumes "omap_wf (cr_channels s)"
  shows "cr_policy (fold (accessChanged thrown) called s) = cr_policy s \<and> omap_wf (cr_channels (fold (accessChanged thrown) called s))
    \<and> (\<forall>ch'. channel (fold (accessChanged thrown) called s) d = Some ch' \<longrightarrow> (\<exists>ch. channel s d = Some ch
       \<and> ch_read ch' = ch_read ch \<and> ch_listed ch' = ch_listed ch \<and> ch_initialized ch' = ch_initialized ch
       \<and> ch_rights ch' = (if d \<in> set called then 0 else ch_rights ch)))"
  using assms
proof (induction called arbitrary: s)
  case (Cons c called)
  note one = accessChanged_effect[OF Cons.prems, of thrown c]
  from Cons.IH[OF one(2)] one(1) one(4)[of d] show ?case by fastforce
qed simp

definition recomputed :: "u8 \<Rightarrow> ChannelState \<Rightarrow> ChannelState" where
  "recomputed next ch = ch\<lparr>ch_rights := next, ch_dirty := False, ch_rightsBeforeChange := 0,
     ch_closed := (ch_closed ch \<or> (if ch_rightsBeforeChange ch \<noteq> 0 then ch_rightsBeforeChange ch else ch_rights ch) \<noteq> next)\<rparr>"

lemma recomputed_twice: "recomputed next (recomputed next ch) = recomputed next ch"
  by (simp add: recomputed_def)

lemma recompute_effect:
  assumes "omap_wf (cr_channels s)"
  shows "cr_policy (recompute access c s) = cr_policy s" "omap_wf (cr_channels (recompute access c s))"
    "channel (recompute access c s) d = map_option (\<lambda>ch. if d = c then recomputed (granted access s c) ch else ch) (channel s d)"
proof -
  show "cr_policy (recompute access c s) = cr_policy s" "omap_wf (cr_channels (recompute access c s))"
    using assms by (auto simp: recompute_def Let_def put_channel_find split: option.splits)
  show "channel (recompute access c s) d = map_option (\<lambda>ch. if d = c then recomputed (granted access s c) ch else ch) (channel s d)"
    using assms by (cases "channel s d"; cases "d = c")
      (auto simp: recompute_def recomputed_def Let_def put_channel_find split: option.splits)
qed

lemma recomputes_effect:
  assumes "omap_wf (cr_channels s)"
  shows "cr_policy (fold (recompute access) cs s) = cr_policy s \<and> omap_wf (cr_channels (fold (recompute access) cs s))
    \<and> channel (fold (recompute access) cs s) d
        = map_option (\<lambda>ch. if d \<in> set cs then recomputed (granted access s d) ch else ch) (channel s d)"
  using assms
proof (induction cs arbitrary: s)
  case (Cons c cs)
  note one = recompute_effect[OF Cons.prems, of access c]
  have "granted access (recompute access c s) d = granted access s d" by (rule granted_cong[OF one(1)])
  with Cons.IH[OF one(2)] one(1) one(3)[of d] show ?case
    by (cases "channel s d") (auto simp: recomputed_twice)
qed (simp add: option.map_ident)

lemma recompute_all_effect:
  assumes "omap_wf (cr_channels s)"
  shows "cr_policy (recomputeAllClients access s) = cr_policy s" "omap_wf (cr_channels (recomputeAllClients access s))"
    "channel (recomputeAllClients access s) d
       = map_option (\<lambda>ch. if d \<in> set (liveClients s) then recomputed (granted access s d) ch else ch) (channel s d)"
proof -
  have g: "granted access (s\<lparr>cr_dirty := []\<rparr>) d = granted access s d" by (simp add: granted_def)
  note e = recomputes_effect[of "s\<lparr>cr_dirty := []\<rparr>" access "liveClients s" d, unfolded g]
  show "cr_policy (recomputeAllClients access s) = cr_policy s" "omap_wf (cr_channels (recomputeAllClients access s))"
    using e assms by (simp_all add: recomputeAllClients_def)
  show "channel (recomputeAllClients access s) d
       = map_option (\<lambda>ch. if d \<in> set (liveClients s) then recomputed (granted access s d) ch else ch) (channel s d)"
    using e assms by (simp add: recomputeAllClients_def)
qed

lemma drain_effect:
  assumes "omap_wf (cr_channels s)"
  shows "cr_policy (drainDirty access s) = cr_policy s" "omap_wf (cr_channels (drainDirty access s))"
    "channel (drainDirty access s) d = channel s d
      \<or> channel (drainDirty access s) d = map_option (recomputed (granted access s d)) (channel s d)"
proof -
  have g: "granted access (s\<lparr>cr_dirty := []\<rparr>) d = granted access s d" "granted access (s\<lparr>cr_recomputeNeeded := False\<rparr>) d = granted access s d"
    by (simp_all add: granted_def)
  note e = recomputes_effect[of "s\<lparr>cr_dirty := []\<rparr>" access "cr_dirty s" d, unfolded g]
    and a = recompute_all_effect[of "s\<lparr>cr_recomputeNeeded := False\<rparr>" access, unfolded g]
  show "cr_policy (drainDirty access s) = cr_policy s" "omap_wf (cr_channels (drainDirty access s))"
    using e a(1,2) assms by (simp_all add: drainDirty_def)
  show "channel (drainDirty access s) d = channel s d
      \<or> channel (drainDirty access s) d = map_option (recomputed (granted access s d)) (channel s d)"
    using e a(3)[of d, unfolded g] assms by (cases "channel s d") (auto simp: drainDirty_def)
qed

section \<open>No stale rights\<close>

definition rights_inv :: "'p access \<Rightarrow> 'p Rights \<Rightarrow> bool" where
  "rights_inv access s = (omap_wf (cr_channels s) \<and> (\<forall>c ch. channel s c = Some ch \<longrightarrow>
     (ch_rights ch = 0 \<or> ch_rights ch = granted access s c)
     \<and> (\<forall>next. ch_read ch = Some next \<longrightarrow> next = granted access s c \<and> \<not> ch_initialized ch) \<and> (ch_listed ch \<longrightarrow> ch_initialized ch)))"

definition chan_ok :: "u8 \<Rightarrow> ChannelState \<Rightarrow> bool" where
  "chan_ok g ch = ((ch_rights ch = 0 \<or> ch_rights ch = g) \<and> (\<forall>next. ch_read ch = Some next \<longrightarrow> next = g \<and> \<not> ch_initialized ch) \<and> (ch_listed ch \<longrightarrow> ch_initialized ch))"

lemma rights_invI:
  "omap_wf (cr_channels s) \<Longrightarrow> (\<And>c ch. channel s c = Some ch \<Longrightarrow> chan_ok (granted access s c) ch) \<Longrightarrow> rights_inv access s"
  by (simp add: rights_inv_def chan_ok_def)

lemma rights_invD:
  assumes "rights_inv access s"
  shows "omap_wf (cr_channels s)" "channel s c = Some ch \<Longrightarrow> chan_ok (granted access s c) ch"
  using assms by (auto simp: rights_inv_def chan_ok_def)

lemma put_inv:
  assumes "rights_inv access s" "chan_ok (granted access s c) ch"
  shows "rights_inv access (put_channel c ch s)"
  using rights_invD[OF assms(1)] assms(2)
  by (intro rights_invI) (auto simp: put_channel_find granted_def split: if_splits)

lemma recomputed_ok: "chan_ok g ch \<Longrightarrow> chan_ok g (recomputed g ch)"
  by (simp add: chan_ok_def recomputed_def)

lemma policy_inv:
  assumes inv: "rights_inv access s" and calls: "calls_affected access p called s" and quiet: "\<not> creating s"
  shows "rights_inv access (change_policy p thrown called s)"
proof (rule rights_invI)
  let ?s = "s\<lparr>cr_policy := p\<rparr>"
  note d = rights_invD[OF inv]
  have wf: "omap_wf (cr_channels ?s)" using d(1) by simp
  note e = callbacks_effect[OF wf, of thrown called]
  show "omap_wf (cr_channels (change_policy p thrown called s))" using e by (simp add: change_policy_def)
  fix c ch'
  assume "channel (change_policy p thrown called s) c = Some ch'"
  then obtain ch where ch: "channel s c = Some ch" "ch_read ch' = ch_read ch" "ch_listed ch' = ch_listed ch" "ch_initialized ch' = ch_initialized ch"
    "ch_rights ch' = (if c \<in> set called then 0 else ch_rights ch)"
    using e[of c] by (auto simp: change_policy_def)
  have g: "granted access (change_policy p thrown called s) c = computed_rights (access p c)"
    using e by (simp add: change_policy_def granted_def)
  have entry: "(c, ch) \<in> set (cr_channels s)" using ch(1) by (rule map_of_SomeD)
  then have "ch_listed ch" using quiet by (auto simp: creating_def list_ex_iff)
  with d(2)[OF ch(1)] have "ch_read ch = None" by (auto simp: chan_ok_def)
  moreover have "access p c = access (cr_policy s) c \<or> c \<in> set called"
    using calls entry by (force simp: calls_affected_def list_all_iff)
  ultimately show "chan_ok (granted access (change_policy p thrown called s) c) ch'"
    unfolding g using d(2)[OF ch(1)] ch(2-5) by (cases "c \<in> set called") (auto simp: chan_ok_def granted_def)
qed

lemma run_inv: "rights_run True access s \<Longrightarrow> rights_inv access s"
proof (induction rule: rights_run.induct)
  case (start p)
  then show ?case by (simp add: rights_inv_def make_rights_def)
next
  case (members s ms)
  then show ?case by (simp add: rights_inv_def granted_def)
next
  case (create s c m)
  then show ?case unfolding create_channel_def by (intro put_inv) (auto simp: chan_ok_def)
next
  case (check s c ch)
  then show ?case using rights_invD(2)[OF check.IH check.hyps(2)]
    unfolding read_rights_def by (intro put_inv) (auto simp: chan_ok_def)
next
  case (store s c ch "next")
  then show ?case using rights_invD(2)[OF store.IH store.hyps(2)]
    unfolding store_rights_def by (intro put_inv) (auto simp: chan_ok_def)
next
  case (listing s c ch)
  have "rights_inv access (put_channel c (ch\<lparr>ch_listed := True, ch_counted := True\<rparr>) s)"
    using rights_invD(2)[OF listing.IH listing.hyps(2)] listing by (intro put_inv) (auto simp: chan_ok_def)
  then show ?case by (simp add: list_channel_def rights_inv_def granted_def)
next
  case (destroy s c ch)
  then show ?case using omap_wf_erase by (auto simp: destroy_channel_def rights_inv_def granted_def omap_find_erase)
next
  case (policy s p called thrown)
  then show ?case by (intro policy_inv) auto
next
  case (drain s)
  note d = rights_invD[OF drain.IH] and e = drain_effect[OF rights_invD(1)[OF drain.IH], of access]
  show ?case
  proof (rule rights_invI)
    show "omap_wf (cr_channels (drainDirty access s))" by (rule e(2))
    fix c ch
    assume "channel (drainDirty access s) c = Some ch"
    then have "\<exists>ch0. channel s c = Some ch0 \<and> (ch = ch0 \<or> ch = recomputed (granted access s c) ch0)"
      using e(3)[of c] by (cases "channel s c") auto
    then show "chan_ok (granted access (drainDirty access s) c) ch"
      using d(2)[of c] recomputed_ok by (auto simp: granted_cong[OF e(1)])
  qed
next
  case (all_clients s)
  note d = rights_invD[OF all_clients.IH] and e = recompute_all_effect[OF rights_invD(1)[OF all_clients.IH], of access]
  show ?case
    using d(2) e(2) e(3) granted_cong[OF e(1)] by (intro rights_invI) (auto intro: recomputed_ok split: if_splits)
qed


text \<open>Policy 0 lets the user read and write, policy 1 only read.\<close>

definition demo_access :: "nat access" where
  "demo_access p c = [\<lparr>ca_get = True, ca_put = (p = 0), ca_trap = False\<rparr>]"

definition demo_revoked :: "nat Rights" where
  "demo_revoked = (let
     s = create_channel 7 1 ((make_rights 0)\<lparr>cr_members := [1]\<rparr>);
     s = read_rights demo_access 7 (the (channel s 7)) s;
     s = store_rights 7 3 (the (channel s 7)) s;
     s = list_channel 7 (the (channel s 7)) s
   in change_policy 1 False [7] s)"

lemma demo_revoked_run: "rights_run True demo_access demo_revoked"
  unfolding demo_revoked_def Let_def
  by (rule rights_run.policy, rule rights_run.listing, rule rights_run.store, rule rights_run.check,
      rule rights_run.create, rule rights_run.members, rule rights_run.start) code_simp+


text \<open>
  a recomputation of all clients gives every live client of a current member exactly the
  rights that the policy grants, clears its mark, and closes the channel exactly when the rights
  it had before the change were different.
\<close>

theorem recomputation_installs_rights:
  assumes "omap_wf (cr_channels s)" "channel s c = Some ch" "ch_listed ch" "ch_member ch \<in> set (cr_members s)"
  shows "\<exists>ch'. channel (recomputeAllClients access s) c = Some ch' \<and> ch_rights ch' = granted access s c \<and> \<not> ch_dirty ch'
    \<and> (ch_closed ch' \<longleftrightarrow> ch_closed ch \<or> (if ch_rightsBeforeChange ch \<noteq> 0 then ch_rightsBeforeChange ch else ch_rights ch) \<noteq> granted access s c)"
proof -
  have "(c, ch) \<in> set (cr_channels s)" using assms(2) by (rule map_of_SomeD)
  then have "c \<in> set (liveClients s)" using assms(3,4) by (force simp: liveClients_def)
  then show ?thesis using recompute_all_effect(3)[OF assms(1), of access c] assms(2) by (simp add: recomputed_def)
qed

theorem recomputation_installs_rights_witness:
  "\<exists>ch. channel (recomputeAllClients demo_access demo_revoked) 7 = Some ch \<and> ch_rights ch = 1 \<and> ch_closed ch"
proof -
  have e: "channel demo_revoked 7 = Some \<lparr>ch_member = 1, ch_rights = 0, ch_rightsBeforeChange = 3, ch_dirty = True,
      ch_initialized = True, ch_read = None, ch_listed = True, ch_counted = True, ch_closed = False\<rparr>" by code_simp
  have "omap_wf (cr_channels demo_revoked)" "cr_members demo_revoked = [1]" "granted demo_access demo_revoked 7 = 1" by code_simp+
  with recomputation_installs_rights[OF _ e, of demo_access] show ?thesis by auto
qed

definition demo_stale :: "nat Rights" where
  "demo_stale = (let
     s = create_channel 7 1 ((make_rights 0)\<lparr>cr_members := [1]\<rparr>);
     s = read_rights demo_access 7 (the (channel s 7)) s;
     s = recomputeAllClients demo_access (change_policy 1 False [7] s);
     s = store_rights 7 3 (the (channel s 7)) s
   in list_channel 7 (the (channel s 7)) s)"


end
