(* ===== verification/Access_Controller.thy ===== *)
theory Access_Controller
  imports Access_Rights
begin

text \<open>
  The controller of \<open>src/access_control.cpp\<close>: the policy in force and its configuration, reloading
  on request and when the watched file changes, replacing the configuration and going back to the
  previous one. The policy of the access library is a text and the state of its host groups;
  installing a text is the parameter \<open>lib_init\<close>, which returns the message of a failure. The
  controller runs on one thread, so each operation is one function; the calls that the library
  makes to the clients while it changes the policy are an argument.
\<close>

section \<open>State\<close>

type_synonym policy = "string \<times> nat"

record AccessImpl =
  ai_config :: AccessConfig
  ai_configuredAsgs :: "string list"
  ai_activePolicy :: string
  ai_policyFingerprint :: string
  ai_observedRaw :: string
  ai_generation :: nat
  ai_lastStatus :: string
  ai_lastError :: string
  ai_watchStatus :: string
  ai_pendingTrigger :: string
  ai_previousConfig :: AccessConfig
  ai_previousConfiguredAsgs :: "string list"
  ai_previousPolicy :: string
  ai_previousPolicyFingerprint :: string
  ai_previousRaw :: string
  ai_previousGeneration :: nat
  ai_hasPreviousPolicy :: bool
  ai_lastMaintenance :: nat
  ai_lastWatchPoll :: nat
  ai_watchCandidateSince :: nat
  ai_watchCandidateRaw :: string
  ai_watchLastAttemptRaw :: string
  ai_watchMissingReported :: bool
  ai_rights :: "policy Rights"

text \<open>What the environment yields during one operation.\<close>

record access_env =
  en_files :: "string \<Rightarrow> input_file"
  en_mac :: mac
  lib_init :: "string \<Rightarrow> string option"
  en_called :: "nat list"
  en_thrown :: bool

definition make_access :: "AccessConfig \<Rightarrow> AccessImpl" where
  "make_access config = \<lparr>ai_config = config, ai_configuredAsgs = [], ai_activePolicy = [], ai_policyFingerprint = [],
     ai_observedRaw = [], ai_generation = 0, ai_lastStatus = ''initializing'', ai_lastError = [], ai_watchStatus = ''disabled'',
     ai_pendingTrigger = [], ai_previousConfig = config, ai_previousConfiguredAsgs = [], ai_previousPolicy = [],
     ai_previousPolicyFingerprint = [], ai_previousRaw = [], ai_previousGeneration = 0, ai_hasPreviousPolicy = False,
     ai_lastMaintenance = 0, ai_lastWatchPoll = 0, ai_watchCandidateSince = 0, ai_watchCandidateRaw = [],
     ai_watchLastAttemptRaw = [], ai_watchMissingReported = False, ai_rights = make_rights ([], 0)\<rparr>"

section \<open>Operations\<close>

text \<open>\<open>preparePolicy\<close> returns for every environment, so the default is never taken.\<close>

definition prepare_now :: "access_env \<Rightarrow> AccessConfig \<Rightarrow> string list \<Rightarrow> string + PreparedPolicy" where
  "prepare_now env config requiredAsgs =
     (case preparePolicy (en_files env) (en_mac env) config requiredAsgs of Some r \<Rightarrow> r | None \<Rightarrow> Inl [])"

text \<open>\<open>asInitMem\<close> on a text that the library accepts: the callbacks come with it.\<close>

definition install_policy :: "access_env \<Rightarrow> string \<Rightarrow> AccessImpl \<Rightarrow> AccessImpl" where
  "install_policy env text s =
     s\<lparr>ai_rights := change_policy (text, snd (cr_policy (ai_rights s))) (en_thrown env) (en_called env) (ai_rights s)\<rparr>"

definition recompute_clients :: "policy access \<Rightarrow> AccessImpl \<Rightarrow> AccessImpl" where
  "recompute_clients access s = s\<lparr>ai_rights := recomputeAllClients access (ai_rights s)\<rparr>"

definition watch_text :: "AccessConfig \<Rightarrow> string" where
  "watch_text config = (if aw_enabled (ac_watch config) then ''watching '' @ ac_file config else ''disabled'')"

definition init_policy :: "access_env \<Rightarrow> string \<Rightarrow> PreparedPolicy \<Rightarrow> string + PreparedPolicy" where
  "init_policy env message prepared =
     (case lib_init env (pp_expanded prepared) of None \<Rightarrow> Inr prepared | Some e \<Rightarrow> Inl (message @ e))"

definition reloadLocked :: "policy access \<Rightarrow> access_env \<Rightarrow> string \<Rightarrow> AccessConfig \<Rightarrow> string list \<Rightarrow> AccessImpl \<Rightarrow> bool \<times> string \<times> AccessImpl" where
  "reloadLocked access env trigger configSnapshot requiredAsgs s =
     (case ebind (prepare_now env configSnapshot requiredAsgs) (init_policy env ''ACF parse failed: '') of
        Inr prepared \<Rightarrow>
          (let s = recompute_clients access (install_policy env (pp_expanded prepared) s) in
           (True, [], s\<lparr>ai_activePolicy := pp_expanded prepared, ai_policyFingerprint := pp_fingerprint prepared,
              ai_observedRaw := pp_raw prepared, ai_watchLastAttemptRaw := [], ai_watchMissingReported := False,
              ai_lastStatus := trigger @ '' reload active'', ai_lastError := [], ai_watchStatus := watch_text configSnapshot,
              ai_generation := ai_generation s + 1\<rparr>))
      | Inl error \<Rightarrow>
          (False, error, s\<lparr>ai_lastStatus := trigger @ '' reload failed'', ai_lastError := error\<rparr>))"

definition reload :: "policy access \<Rightarrow> access_env \<Rightarrow> string \<Rightarrow> AccessImpl \<Rightarrow> bool \<times> string \<times> AccessImpl" where
  "reload access env trigger s = reloadLocked access env trigger (ai_config s) (ai_configuredAsgs s) s"

definition start_access :: "policy access \<Rightarrow> access_env \<Rightarrow> string list \<Rightarrow> AccessImpl \<Rightarrow> bool \<times> string \<times> AccessImpl" where
  "start_access access env requiredAsgs s =
     (if \<not> ac_enabled (ai_config s) then (False, ''access controller requires enabled configuration'', s)
      else reload access env ''startup'' (s\<lparr>ai_configuredAsgs := requiredAsgs\<rparr>))"

definition reconfigure :: "policy access \<Rightarrow> access_env \<Rightarrow> AccessConfig \<Rightarrow> string list \<Rightarrow> AccessImpl \<Rightarrow> bool \<times> string \<times> AccessImpl" where
  "reconfigure access env config requiredAsgs s =
     (if ac_enabled config \<noteq> ac_enabled (ai_config s) then (False, ''access.enabled is immutable after startup'', s)
      else case reloadLocked access env ''config'' config requiredAsgs (s\<lparr>ai_config := config, ai_configuredAsgs := requiredAsgs\<rparr>) of
        (ok, error, t) \<Rightarrow>
          if \<not> ok then (False, error, t\<lparr>ai_config := ai_config s, ai_configuredAsgs := ai_configuredAsgs s\<rparr>)
          else (True, error, t\<lparr>ai_previousConfig := ai_config s, ai_previousConfiguredAsgs := ai_configuredAsgs s,
                 ai_previousPolicy := ai_activePolicy s, ai_previousPolicyFingerprint := ai_policyFingerprint s,
                 ai_previousRaw := ai_observedRaw s, ai_previousGeneration := ai_generation t - 1, ai_hasPreviousPolicy := True\<rparr>))"

definition restorePrevious :: "policy access \<Rightarrow> access_env \<Rightarrow> AccessImpl \<Rightarrow> bool \<times> string \<times> AccessImpl" where
  "restorePrevious access env s =
     (if \<not> ai_hasPreviousPolicy s then (False, ''no previous access policy is available'', s)
      else case lib_init env (ai_previousPolicy s) of
        Some e \<Rightarrow> (False, ''previous ACF restore failed: '' @ e, s)
      | None \<Rightarrow>
          (let s = recompute_clients access (install_policy env (ai_previousPolicy s) s) in
           (True, [], s\<lparr>ai_config := ai_previousConfig s, ai_configuredAsgs := ai_previousConfiguredAsgs s,
              ai_activePolicy := ai_previousPolicy s, ai_policyFingerprint := ai_previousPolicyFingerprint s,
              ai_observedRaw := ai_previousRaw s, ai_lastStatus := ''previous policy restored'', ai_lastError := [],
              ai_watchStatus := watch_text (ai_previousConfig s), ai_hasPreviousPolicy := False,
              ai_generation := ai_previousGeneration s\<rparr>)))"

record PreparedConfiguration =
  pc_config :: AccessConfig
  pc_requiredAsgs :: "string list"
  pc_policy :: PreparedPolicy
  pc_status :: string
  pc_watchStatus :: string
  pc_policyChanged :: bool

definition prepareConfiguration :: "access_env \<Rightarrow> AccessConfig \<Rightarrow> string list \<Rightarrow> AccessImpl \<Rightarrow> string + PreparedConfiguration" where
  "prepareConfiguration env config requiredAsgs s =
     ebind (prepare_now env config requiredAsgs) (\<lambda>policy.
     if ac_enabled config \<noteq> ac_enabled (ai_config s) then Inl ''access.enabled is immutable after startup''
     else Inr \<lparr>pc_config = config, pc_requiredAsgs = requiredAsgs, pc_policy = policy, pc_status = ''config reload active'',
       pc_watchStatus = watch_text config, pc_policyChanged = (pp_expanded policy \<noteq> ai_activePolicy s)\<rparr>)"

text \<open>
  A prepared configuration holds the reload lock until it is activated or dropped; \<open>valid\<close> says
  that it is one of this controller and still holds it.
\<close>

definition activateConfiguration :: "access_env \<Rightarrow> bool \<Rightarrow> PreparedConfiguration \<Rightarrow> AccessImpl \<Rightarrow> bool \<times> string \<times> AccessImpl" where
  "activateConfiguration env valid prepared s =
     (if \<not> valid then (False, ''invalid prepared access configuration'', s)
      else case (if pc_policyChanged prepared then init_policy env ''ACF parse failed: '' (pc_policy prepared) else Inr (pc_policy prepared)) of
        Inl error \<Rightarrow> (False, error, s)
      | Inr policy \<Rightarrow>
          (let s = (if pc_policyChanged prepared then install_policy env (pp_expanded policy) s else s) in
           (True, [], s\<lparr>ai_config := pc_config prepared, ai_configuredAsgs := pc_requiredAsgs prepared,
              ai_activePolicy := pp_expanded policy, ai_policyFingerprint := pp_fingerprint policy, ai_observedRaw := pp_raw policy,
              ai_lastStatus := pc_status prepared, ai_watchStatus := pc_watchStatus prepared, ai_lastError := [],
              ai_watchLastAttemptRaw := [], ai_watchCandidateRaw := [], ai_watchMissingReported := False,
              ai_hasPreviousPolicy := False, ai_generation := ai_generation s + 1\<rparr>)))"

definition finishConfiguration :: "policy access \<Rightarrow> AccessImpl \<Rightarrow> AccessImpl" where
  "finishConfiguration access s = recompute_clients access s"

definition requestReload :: "string \<Rightarrow> AccessImpl \<Rightarrow> AccessImpl" where
  "requestReload trigger s = s\<lparr>ai_pendingTrigger := trigger\<rparr>"

section \<open>Maintenance\<close>

text \<open>The result of \<open>asRefreshHag\<close>: a failure, or how many groups changed, with the calls it made.\<close>

datatype hag_refresh = HagFailed | HagRefreshed nat

definition pump_trigger :: "policy access \<Rightarrow> access_env \<Rightarrow> AccessImpl \<Rightarrow> AccessImpl" where
  "pump_trigger access env s =
     (if ai_pendingTrigger s \<noteq> [] then snd (snd (reload access env (ai_pendingTrigger s) (s\<lparr>ai_pendingTrigger := []\<rparr>))) else s)"

definition refresh_hosts :: "access_env \<Rightarrow> AccessImpl \<Rightarrow> AccessImpl" where
  "refresh_hosts env s =
     s\<lparr>ai_rights := change_policy (fst (cr_policy (ai_rights s)), Suc (snd (cr_policy (ai_rights s)))) (en_thrown env) (en_called env) (ai_rights s)\<rparr>"

definition pump_maintenance :: "policy access \<Rightarrow> access_env \<Rightarrow> hag_refresh \<Rightarrow> nat \<Rightarrow> AccessImpl \<Rightarrow> AccessImpl" where
  "pump_maintenance access env hag now s =
     (if ai_lastMaintenance s + 1000 \<le> now
      then (let s = s\<lparr>ai_lastMaintenance := now\<rparr> in
        case hag of
          HagFailed \<Rightarrow> s
        | HagRefreshed changed \<Rightarrow>
            if changed \<noteq> 0 then recompute_clients access (refresh_hosts env s)
            else s\<lparr>ai_rights := drainDirty access (ai_rights s)\<rparr>)
      else s)"

definition watch_same :: "AccessImpl \<Rightarrow> AccessImpl" where
  "watch_same s =
     (let t = (if ai_watchMissingReported s \<or> ai_lastStatus s = ''watch reload failed''
               then s\<lparr>ai_lastStatus := ''watch active'', ai_lastError := []\<rparr> else s)
      in t\<lparr>ai_watchMissingReported := False, ai_watchCandidateRaw := [], ai_watchLastAttemptRaw := []\<rparr>)"

definition watch_file :: "policy access \<Rightarrow> access_env \<Rightarrow> nat \<Rightarrow> AccessConfig \<Rightarrow> string \<Rightarrow> AccessImpl \<Rightarrow> AccessImpl" where
  "watch_file access env now config raw s =
     (if raw = ai_observedRaw s then watch_same s
      else let s = s\<lparr>ai_watchMissingReported := False\<rparr> in
        if raw = ai_watchLastAttemptRaw s then s\<lparr>ai_watchCandidateRaw := []\<rparr>
        else if raw \<noteq> ai_watchCandidateRaw s then s\<lparr>ai_watchCandidateRaw := raw, ai_watchCandidateSince := now\<rparr>
        else if ai_watchCandidateSince s + unat (aw_settleMs (ac_watch config)) \<le> now
        then (snd (snd (reload access env ''watch'' (s\<lparr>ai_watchLastAttemptRaw := raw\<rparr>))))\<lparr>ai_watchCandidateRaw := []\<rparr>
        else s)"

definition pump_watch :: "policy access \<Rightarrow> access_env \<Rightarrow> nat \<Rightarrow> AccessImpl \<Rightarrow> AccessImpl" where
  "pump_watch access env now s =
     (let config = ai_config s in
      if \<not> aw_enabled (ac_watch config) \<or> now < ai_lastWatchPoll s + unat (aw_intervalMs (ac_watch config)) then s
      else let s = s\<lparr>ai_lastWatchPoll := now\<rparr> in
        case readTextFile (en_files env) (ac_file config) of
          Inr raw \<Rightarrow> watch_file access env now config raw s
        | Inl error \<Rightarrow>
            if \<not> ai_watchMissingReported s
            then s\<lparr>ai_lastStatus := ''watch reload failed'', ai_lastError := error, ai_watchMissingReported := True\<rparr>
            else s)"

text \<open>Each part may call the library, so each has its own environment.\<close>

definition pump :: "policy access \<Rightarrow> access_env \<Rightarrow> access_env \<Rightarrow> access_env \<Rightarrow> hag_refresh \<Rightarrow> nat \<Rightarrow> AccessImpl \<Rightarrow> AccessImpl" where
  "pump access env1 env2 env3 hag now s = pump_watch access env3 now (pump_maintenance access env2 hag now (pump_trigger access env1 s))"

section \<open>The policy in force\<close>

text \<open>
  The states of a controller that has started. Between two operations the channels come and go,
  which leaves the policy of the library alone.
\<close>

inductive controlled :: "policy access \<Rightarrow> AccessImpl \<Rightarrow> bool" for access where
  started: "start_access access env asgs (make_access config) = (True, e, s) \<Longrightarrow> controlled access s"
| channels: "controlled access s \<Longrightarrow> cr_policy r = cr_policy (ai_rights s) \<Longrightarrow> controlled access (s\<lparr>ai_rights := r\<rparr>)"
| reloaded: "controlled access s \<Longrightarrow> controlled access (snd (snd (reload access env trigger s)))"
| reconfigured: "controlled access s \<Longrightarrow> controlled access (snd (snd (reconfigure access env config asgs s)))"
| restored: "controlled access s \<Longrightarrow> controlled access (snd (snd (restorePrevious access env s)))"
| activated: "controlled access s \<Longrightarrow> prepareConfiguration env config asgs s = Inr p
    \<Longrightarrow> controlled access (snd (snd (activateConfiguration env' valid p s)))"
| finished: "controlled access s \<Longrightarrow> controlled access (finishConfiguration access s)"
| requested: "controlled access s \<Longrightarrow> controlled access (requestReload trigger s)"
| pumped: "controlled access s \<Longrightarrow> controlled access (pump access env1 env2 env3 hag now s)"

definition defines_groups :: "string \<Rightarrow> string list \<Rightarrow> bool" where
  "defines_groups text asgs = (case inspectAcf text of Inl _ \<Rightarrow> False | Inr groups \<Rightarrow> list_all (\<lambda>a. a \<in> groups) asgs)"

definition consistent :: "AccessImpl \<Rightarrow> bool" where
  "consistent s = (fst (cr_policy (ai_rights s)) = ai_activePolicy s
     \<and> ai_policyFingerprint s = fingerprint (ai_activePolicy s) \<and> defines_groups (ai_activePolicy s) (ai_configuredAsgs s)
     \<and> (ai_hasPreviousPolicy s \<longrightarrow> ai_previousPolicyFingerprint s = fingerprint (ai_previousPolicy s)
          \<and> defines_groups (ai_previousPolicy s) (ai_previousConfiguredAsgs s)))"

lemma fold_accessChanged_policy: "cr_policy (fold (accessChanged thrown) cs r) = cr_policy r"
proof (induction cs arbitrary: r)
  case (Cons c cs)
  have "cr_policy (accessChanged thrown c r) = cr_policy r" by (simp add: accessChanged_def Let_def split: option.splits)
  with Cons show ?case by simp
qed simp

lemma fold_recompute_policy: "cr_policy (fold (recompute access) cs r) = cr_policy r"
proof (induction cs arbitrary: r)
  case (Cons c cs)
  have "cr_policy (recompute access c r) = cr_policy r" by (simp add: recompute_def Let_def split: option.splits)
  with Cons show ?case by simp
qed simp

lemma library_policy [simp]:
  "cr_policy (change_policy p thrown called r) = p"
  "cr_policy (recomputeAllClients access r) = cr_policy r"
  "cr_policy (drainDirty access r) = cr_policy r"
  by (simp_all add: change_policy_def recomputeAllClients_def drainDirty_def fold_accessChanged_policy fold_recompute_policy)

lemma required_defined: "efold (require_asg groups) () asgs = Inr u \<longleftrightarrow> list_all (\<lambda>a. a \<in> groups) asgs"
  by (induction asgs) (auto simp: require_asg_def res_simps)

lemma prepared_policy:
  assumes "prepare_now env config asgs = Inr p"
  shows "pp_fingerprint p = fingerprint (pp_expanded p)" "defines_groups (pp_expanded p) asgs"
  using assms
  by (auto simp: prepare_now_def preparePolicy_def defines_groups_def res_simps required_defined
      split: option.splits sum.splits)

lemma init_policy_Inr: "init_policy env m p = Inr q \<longleftrightarrow> q = p \<and> lib_init env (pp_expanded p) = None"
  by (auto simp: init_policy_def split: option.splits)

text \<open>The outcome of a reload: the new policy is in force everywhere, or only the status changes.\<close>

lemma reloadLocked_cases:
  obtains (active) p where "prepare_now env config asgs = Inr p" "lib_init env (pp_expanded p) = None"
      "reloadLocked access env trigger config asgs s = (True, [], (recompute_clients access (install_policy env (pp_expanded p) s))
        \<lparr>ai_activePolicy := pp_expanded p, ai_policyFingerprint := pp_fingerprint p,
         ai_observedRaw := pp_raw p, ai_watchLastAttemptRaw := [], ai_watchMissingReported := False,
         ai_lastStatus := trigger @ '' reload active'', ai_lastError := [], ai_watchStatus := watch_text config,
         ai_generation := ai_generation s + 1\<rparr>)"
    | (kept) error where "reloadLocked access env trigger config asgs s = (False, error, s\<lparr>ai_lastStatus := trigger @ '' reload failed'', ai_lastError := error\<rparr>)"
proof (cases "ebind (prepare_now env config asgs) (init_policy env ''ACF parse failed: '')")
  case (Inl error)
  then show ?thesis by (intro kept) (simp add: reloadLocked_def)
next
  case (Inr p)
  then show ?thesis
    by (intro active[of p]) (auto simp: reloadLocked_def res_simps init_policy_def recompute_clients_def install_policy_def split: option.splits)
qed

lemma reloadLocked_consistent:
  assumes "consistent s \<or> fst (reloadLocked access env trigger config asgs s)" "ai_configuredAsgs s = asgs"
    and "ai_hasPreviousPolicy s \<longrightarrow> ai_previousPolicyFingerprint s = fingerprint (ai_previousPolicy s)
      \<and> defines_groups (ai_previousPolicy s) (ai_previousConfiguredAsgs s)"
  shows "consistent (snd (snd (reloadLocked access env trigger config asgs s)))"
proof (cases rule: reloadLocked_cases[of env config asgs access trigger s])
  case (active p)
  then show ?thesis using prepared_policy[OF active(1)] assms(2,3)
    by (simp add: consistent_def recompute_clients_def install_policy_def)
next
  case (kept error)
  then show ?thesis using assms by (simp add: consistent_def)
qed

lemma reload_consistent: "consistent s \<Longrightarrow> consistent (snd (snd (reload access env trigger s)))"
  unfolding reload_def by (rule reloadLocked_consistent) (auto simp: consistent_def)

lemma reconfigure_consistent:
  assumes "consistent s"
  shows "consistent (snd (snd (reconfigure access env config asgs s)))"
proof (cases "ac_enabled config = ac_enabled (ai_config s)")
  case True
  let ?u = "s\<lparr>ai_config := config, ai_configuredAsgs := asgs\<rparr>"
  show ?thesis
  proof (cases rule: reloadLocked_cases[of env config asgs access "''config''" ?u])
    case (active p)
    then show ?thesis using prepared_policy[OF active(1)] assms True
      by (simp add: reconfigure_def consistent_def recompute_clients_def install_policy_def)
  next
    case (kept error)
    then show ?thesis using assms True by (simp add: reconfigure_def consistent_def)
  qed
qed (use assms in \<open>simp add: reconfigure_def\<close>)

lemma restore_consistent: "consistent s \<Longrightarrow> consistent (snd (snd (restorePrevious access env s)))"
  by (auto simp: restorePrevious_def consistent_def Let_def recompute_clients_def install_policy_def split: option.splits)

lemma activate_consistent:
  assumes "consistent s" "prepareConfiguration env config asgs s = Inr p"
  shows "consistent (snd (snd (activateConfiguration env' valid p s)))"
proof -
  from assms(2) obtain policy where p: "prepare_now env config asgs = Inr policy" "pc_policy p = policy" "pc_requiredAsgs p = asgs"
    "pc_policyChanged p \<longleftrightarrow> pp_expanded policy \<noteq> ai_activePolicy s"
    by (auto simp: prepareConfiguration_def res_simps split: if_splits)
  then show ?thesis using assms(1) prepared_policy[OF p(1)]
    by (auto simp: activateConfiguration_def consistent_def Let_def install_policy_def init_policy_def split: sum.splits option.splits if_splits)
qed

lemma pump_consistent: "consistent s \<Longrightarrow> consistent (pump access env1 env2 env3 hag now s)"
proof -
  assume s: "consistent s"
  have t: "consistent (pump_trigger access env1 s)"
  proof -
    have "consistent (s\<lparr>ai_pendingTrigger := []\<rparr>)" using s by (simp add: consistent_def)
    then show ?thesis using s reload_consistent by (simp add: pump_trigger_def)
  qed
  have m: "consistent (pump_maintenance access env2 hag now u)" if "consistent u" for u
    using that by (cases hag) (auto simp: pump_maintenance_def consistent_def Let_def recompute_clients_def refresh_hosts_def)
  have w: "consistent (pump_watch access env3 now u)" if u: "consistent u" for u
  proof -
    have "consistent (watch_file access env3 now config raw v)" if v: "consistent v" for config raw v
    proof -
      have "consistent (v\<lparr>ai_watchMissingReported := False, ai_watchLastAttemptRaw := raw\<rparr>)" using v by (simp add: consistent_def)
      from reload_consistent[OF this, of access env3 "''watch''"] v show ?thesis
        by (auto simp: watch_file_def watch_same_def consistent_def Let_def)
    qed
    moreover have "consistent (u\<lparr>ai_lastWatchPoll := now\<rparr>)" using u by (simp add: consistent_def)
    ultimately show ?thesis using u by (auto simp: pump_watch_def consistent_def Let_def split: sum.splits)
  qed
  show ?thesis unfolding pump_def by (intro w m t)
qed

lemma controlled_consistent: "controlled access s \<Longrightarrow> consistent s"
proof (induction rule: controlled.induct)
  case (started env asgs config e s)
  let ?u = "(make_access config)\<lparr>ai_configuredAsgs := asgs\<rparr>"
  from started have r: "reloadLocked access env ''startup'' config asgs ?u = (True, e, s)"
    by (auto simp: start_access_def reload_def make_access_def split: if_splits)
  have "consistent (snd (snd (reloadLocked access env ''startup'' config asgs ?u)))"
    by (rule reloadLocked_consistent) (simp add: r, simp_all add: make_access_def)
  then show ?case by (simp add: r)
next
  case (channels s r)
  then show ?case by (simp add: consistent_def)
next
  case (finished s)
  then show ?case by (simp add: consistent_def finishConfiguration_def recompute_clients_def)
next
  case (requested s trigger)
  then show ?case by (simp add: consistent_def requestReload_def)
qed (simp_all add: reload_consistent reconfigure_consistent restore_consistent activate_consistent pump_consistent)

text \<open>
  C30: in every state of a started controller the policy that the access library enforces is the
  one the controller reports as active, the published fingerprint is that of this text, and it
  defines every access security group that the configured PVs need, whatever reloads, replaced
  configurations, failed files, rejected policies and rollbacks came before.
\<close>

theorem active_policy_consistent:
  assumes "controlled access s"
  shows "fst (cr_policy (ai_rights s)) = ai_activePolicy s \<and> ai_policyFingerprint s = fingerprint (ai_activePolicy s)
    \<and> (\<exists>groups. inspectAcf (ai_activePolicy s) = Inr groups \<and> set (ai_configuredAsgs s) \<subseteq> groups)"
  using controlled_consistent[OF assms]
  by (auto simp: consistent_def defines_groups_def list_all_iff split: sum.splits)

definition demo_file :: "string \<Rightarrow> input_file" where
  "demo_file path = \<lparr>if_open = True, if_length = 20, if_text = ''ASG(ops) { RULE(1, WRITE) }'', if_failed = False\<rparr>"

definition demo_env :: access_env where
  "demo_env = \<lparr>en_files = demo_file, en_mac = demo_mac, lib_init = (\<lambda>_. None), en_called = [], en_thrown = False\<rparr>"

definition demo_config :: AccessConfig where
  "demo_config = default_access\<lparr>ac_enabled := True, ac_file := ''policy.acf''\<rparr>"

definition full_access :: "policy access" where
  "full_access p c = [\<lparr>ca_get = True, ca_put = True, ca_trap = False\<rparr>]"

definition demo_started :: "bool \<times> string \<times> AccessImpl" where
  "demo_started = start_access full_access demo_env [''ops''] (make_access demo_config)"

lemma demo_policy_prepares:
  "\<exists>p. prepare_now demo_env demo_config [''ops''] = Inr p \<and> pp_expanded p = ''ASG(ops) { RULE(1, WRITE) }''"
proof -
  have "inspectAcf ''ASG(ops) { RULE(1, WRITE) }'' = Inr {''DEFAULT'', ''ops''}" by code_simp
  moreover have "readTextFile demo_file ''policy.acf'' = Inr ''ASG(ops) { RULE(1, WRITE) }''"
    by (simp add: readTextFile_def demo_file_def kMaxRawPolicyBytes_def)
  moreover have "expandMacros demo_mac ''ASG(ops) { RULE(1, WRITE) }'' macros = Some (Inr ''ASG(ops) { RULE(1, WRITE) }'')" for macros
    by (simp add: expandMacros_def demo_mac_def initial_capacity_def kMaxExpandedPolicyBytes_def expand_loop.simps)
  ultimately show ?thesis
    by (simp add: prepare_now_def preparePolicy_def demo_env_def demo_config_def require_asg_def)
qed

lemma demo_starts: "\<exists>s. demo_started = (True, [], s) \<and> ai_activePolicy s = ''ASG(ops) { RULE(1, WRITE) }'' \<and> ai_configuredAsgs s = [''ops'']
    \<and> ai_config s = demo_config \<and> ai_generation s = 1"
proof -
  obtain p where p: "prepare_now demo_env demo_config [''ops''] = Inr p" "pp_expanded p = ''ASG(ops) { RULE(1, WRITE) }''" using demo_policy_prepares by blast
  have "ac_enabled demo_config" "lib_init demo_env = (\<lambda>_. None)" by (simp_all add: demo_config_def demo_env_def)
  with p show ?thesis
    by (simp add: demo_started_def start_access_def reload_def reloadLocked_def make_access_def init_policy_def
        recompute_clients_def install_policy_def Let_def)
qed

theorem active_policy_consistent_witness:
  "\<exists>s. controlled full_access s \<and> ai_activePolicy s = ''ASG(ops) { RULE(1, WRITE) }''
     \<and> fst (cr_policy (ai_rights s)) = ''ASG(ops) { RULE(1, WRITE) }''"
proof -
  obtain s where s: "demo_started = (True, [], s)" "ai_activePolicy s = ''ASG(ops) { RULE(1, WRITE) }''" using demo_starts by blast
  have "controlled full_access s" using s(1) unfolding demo_started_def by (rule controlled.started)
  then show ?thesis using active_policy_consistent[of full_access s] s(2) by auto
qed

text \<open>
  C31: replacing the access configuration and then restoring the previous one brings back the
  configuration, the required groups, the policy with its fingerprint and raw text, the generation
  and the policy that the library enforces, as they were.
\<close>

theorem restore_undoes_reconfigure:
  assumes "controlled access s" "reconfigure access env config asgs s = (True, e, t)" "restorePrevious access env' t = (True, e', u)"
  shows "ai_config u = ai_config s \<and> ai_configuredAsgs u = ai_configuredAsgs s \<and> ai_activePolicy u = ai_activePolicy s
    \<and> ai_policyFingerprint u = ai_policyFingerprint s \<and> ai_observedRaw u = ai_observedRaw s \<and> ai_generation u = ai_generation s
    \<and> fst (cr_policy (ai_rights u)) = fst (cr_policy (ai_rights s)) \<and> \<not> ai_hasPreviousPolicy u"
proof -
  have enabled: "ac_enabled config = ac_enabled (ai_config s)" using assms(2) by (auto simp: reconfigure_def split: if_splits)
  have policy: "fst (cr_policy (ai_rights s)) = ai_activePolicy s" using controlled_consistent[OF assms(1)] by (simp add: consistent_def)
  show ?thesis
  proof (cases rule: reloadLocked_cases[of env config asgs access "''config''" "s\<lparr>ai_config := config, ai_configuredAsgs := asgs\<rparr>"])
    case (active p)
    with assms(2) enabled have "ai_hasPreviousPolicy t" "ai_previousConfig t = ai_config s" "ai_previousConfiguredAsgs t = ai_configuredAsgs s"
      "ai_previousPolicy t = ai_activePolicy s" "ai_previousPolicyFingerprint t = ai_policyFingerprint s" "ai_previousRaw t = ai_observedRaw s"
      "ai_previousGeneration t = ai_generation s"
      by (auto simp: reconfigure_def recompute_clients_def install_policy_def)
    then show ?thesis using assms(3) policy
      by (auto simp: restorePrevious_def recompute_clients_def install_policy_def Let_def split: option.splits)
  next
    case (kept error)
    with assms(2) enabled show ?thesis by (simp add: reconfigure_def)
  qed
qed

theorem restore_undoes_reconfigure_witness:
  "\<exists>s t u. reconfigure full_access demo_env demo_config [''ops''] s = (True, [], t) \<and> ai_generation t = 2
     \<and> restorePrevious full_access demo_env t = (True, [], u) \<and> ai_generation u = 1 \<and> ai_configuredAsgs u = [''ops'']"
proof -
  obtain s where s: "demo_started = (True, [], s)" "ai_configuredAsgs s = [''ops'']" "ai_config s = demo_config" "ai_generation s = 1"
    using demo_starts by blast
  have c: "controlled full_access s" using s(1) unfolding demo_started_def by (rule controlled.started)
  obtain p where p: "prepare_now demo_env demo_config [''ops''] = Inr p" using demo_policy_prepares by blast
  have init: "lib_init demo_env = (\<lambda>_. None)" by (simp add: demo_env_def)
  obtain t where t: "reconfigure full_access demo_env demo_config [''ops''] s = (True, [], t)" "ai_generation t = 2" "ai_hasPreviousPolicy t"
    using p init s by (simp add: reconfigure_def reloadLocked_def init_policy_def recompute_clients_def install_policy_def Let_def)
  obtain u where u: "restorePrevious full_access demo_env t = (True, [], u)" using t(3) init by (simp add: restorePrevious_def Let_def)
  from restore_undoes_reconfigure[OF c t(1) u] t u s show ?thesis by auto
qed

text \<open>
  C32: when a reload succeeds, every live client of a current member has exactly the rights that
  the new policy grants before the operation returns; when it fails, nothing changes but the
  reported status and error.
\<close>

theorem reload_applies_policy:
  assumes "reload access env trigger s = (ok, error, t)" "omap_wf (cr_channels (ai_rights s))"
  shows "if ok then (\<exists>p. prepare_now env (ai_config s) (ai_configuredAsgs s) = Inr p \<and> ai_activePolicy t = pp_expanded p
           \<and> cr_policy (ai_rights t) = (pp_expanded p, snd (cr_policy (ai_rights s)))
           \<and> (\<forall>c ch. channel (ai_rights t) c = Some ch \<longrightarrow> ch_listed ch \<longrightarrow> ch_member ch \<in> set (cr_members (ai_rights t))
                \<longrightarrow> ch_rights ch = granted access (ai_rights t) c))
         else t = s\<lparr>ai_lastStatus := trigger @ '' reload failed'', ai_lastError := error\<rparr>"
proof (cases rule: reloadLocked_cases[of env "ai_config s" "ai_configuredAsgs s" access trigger s])
  case (kept e)
  then show ?thesis using assms(1) by (auto simp: reload_def)
next
  case (active p)
  let ?r = "change_policy (pp_expanded p, snd (cr_policy (ai_rights s))) (en_thrown env) (en_called env) (ai_rights s)"
  have t: "ok" "ai_rights t = recomputeAllClients access ?r" "ai_activePolicy t = pp_expanded p"
    using active(3) assms(1) by (auto simp: reload_def recompute_clients_def install_policy_def)
  have wf: "omap_wf (cr_channels ?r)"
    using callbacks_effect[of "(ai_rights s)\<lparr>cr_policy := (pp_expanded p, snd (cr_policy (ai_rights s)))\<rparr>"] assms(2)
    by (simp add: change_policy_def)
  have members: "cr_members (recomputeAllClients access ?r) = cr_members ?r"
  proof -
    have "cr_members (fold (recompute access) cs r) = cr_members r" for cs r
      by (induction cs arbitrary: r) (auto simp: recompute_def Let_def split: option.splits)
    then show ?thesis by (simp add: recomputeAllClients_def)
  qed
  have "ch_rights ch = granted access (ai_rights t) c"
    if h: "channel (ai_rights t) c = Some ch" "ch_listed ch" "ch_member ch \<in> set (cr_members (ai_rights t))" for c ch
  proof -
    obtain ch0 where ch0: "channel ?r c = Some ch0" "ch = (if c \<in> set (liveClients ?r) then recomputed (granted access ?r c) ch0 else ch0)"
      using h(1) recompute_all_effect(3)[OF wf, of access c] by (auto simp: t(2))
    then have "ch_listed ch0" "ch_member ch0 \<in> set (cr_members ?r)"
      using h(2,3) by (auto simp: recomputed_def t(2) members split: if_splits)
    moreover have "(c, ch0) \<in> set (cr_channels ?r)" using ch0(1) by (rule map_of_SomeD)
    ultimately have "c \<in> set (liveClients ?r)" by (force simp: liveClients_def)
    with ch0(2) show ?thesis by (simp add: recomputed_def t(2) granted_def)
  qed
  then show ?thesis using active(1) t by (auto simp: recompute_all_effect(1)[OF wf])
qed

theorem reload_applies_policy_witness:
  "\<exists>s t. reload full_access demo_env ''admin-pv'' s = (True, [], t) \<and> ai_activePolicy t = ''ASG(ops) { RULE(1, WRITE) }''
     \<and> fst (cr_policy (ai_rights t)) = ''ASG(ops) { RULE(1, WRITE) }''"
proof -
  let ?s = "(make_access demo_config)\<lparr>ai_configuredAsgs := [''ops'']\<rparr>"
  obtain p where p: "prepare_now demo_env demo_config [''ops''] = Inr p" "pp_expanded p = ''ASG(ops) { RULE(1, WRITE) }''" using demo_policy_prepares by blast
  have init: "lib_init demo_env = (\<lambda>_. None)" by (simp add: demo_env_def)
  obtain t where t: "reload full_access demo_env ''admin-pv'' ?s = (True, [], t)"
    using p init by (simp add: reload_def reloadLocked_def init_policy_def make_access_def Let_def)
  have "omap_wf (cr_channels (ai_rights ?s))" by (simp add: make_access_def make_rights_def)
  from reload_applies_policy[OF t this] p
  have "ai_activePolicy t = ''ASG(ops) { RULE(1, WRITE) }''" "fst (cr_policy (ai_rights t)) = ''ASG(ops) { RULE(1, WRITE) }''"
    by (auto simp: make_access_def)
  with t show ?thesis by blast
qed

end
