(* ===== verification/Spec2Isabelle.thy ===== *)
theory Spec2Isabelle
  imports Prelude Operation_Queue_Correct Config_Types Config_Diff Endpoints Discovery_Catalog
    Discovery_Publisher Float_Arith Value_Util NTNDArray_Frame NTNDArray_Value
    Secrets Source_Health Config_Correct PV_Registry_Correct Alarm_Budget Access_Controller
begin

text \<open>
  \<^bold>\<open>The redis-pvxs-ioc server\<close>

  The program serves process variables (PVs) over PV Access from data held in Redis. A YAML document
  is read into an \<open>AppConfig\<close>; from it the server builds the namespace of endpoints, one source
  or writer per PV, the queues that bound Redis writes and remote calls, the publication of alarms
  to a Redis stream, and the catalogue announced to channel discovery. On a reload the new
  configuration is read and checked, compared with the one in force, prepared off line and
  published as a whole.

  \<^bold>\<open>Theories\<close>

  \<^item> \<open>Prelude\<close>: results as sums with \<open>ebind\<close>, \<open>ensure\<close> and \<open>efold\<close>; \<open>std::map\<close> as a
    sorted association list, with the locale \<open>dictionary\<close> of its laws; decimal numbers.
  \<^item> \<open>Operation_Queue\<close>, \<open>Operation_Queue_Correct\<close> (\<open>src/operation_queue.cpp\<close>): every critical
    section of the bounded queue is a step on the record \<open>Queue\<close>, the threads interleave freely. In
    every reachable state one task per key runs, tasks of a key run in the order of admission, each
    accepted task is answered, the limits hold, no section throws, and one worker drains the queue.
  \<^item> \<open>Config_Types\<close> (\<open>config.h\<close>, the end of \<open>src/config.cpp\<close>): the configuration records, enumerators
    and comparisons. \<open>Endpoints\<close> (\<open>endpoints.h\<close>): the reservation of names.
  \<^item> \<open>Yaml_Reader\<close>, \<open>Config_Sections\<close>, \<open>Config_Load\<close>, \<open>Config_Correct\<close> (\<open>src/config.cpp\<close>): the reader
    from the YAML document to the checked configuration with the path and text of each error. The
    YAML library is the record \<open>yaml\<close>. Every configuration that is read is well formed, and the
    validation of the tree equals a reference without ancestors and counters.
  \<^item> \<open>Config_Diff\<close> (\<open>src/config_diff.cpp\<close>): what a reload reports, exactly, and its JSON text.
  \<^item> \<open>Secrets\<close> (\<open>src/secrets.cpp\<close>): the bounded reader of a secret over scripts of system calls.
  \<^item> \<open>Discovery_Catalog\<close>, \<open>Discovery_Publisher\<close> (\<open>src/discovery.cpp\<close>): the wire form of the
    catalogue, with a decoder as its specification, and the worker that uploads it, as steps over
    scripts of the socket calls.
  \<^item> \<open>Float_Arith\<close>, \<open>Value_Util\<close> (\<open>src/util.cpp\<close>): binary64 and binary32 arithmetic, alarm evaluation
    with hysteresis, linear transforms, metadata and comparison of values.
  \<^item> \<open>NTNDArray_Frame\<close>, \<open>NTNDArray_Value\<close> (\<open>src/ntndarray.cpp\<close>): image frames of a Redis entry, their
    consistency, and the published structure.
  \<^item> \<open>Source_Health\<close> (\<open>src/source_health.cpp\<close>): when a source counts as ready.
  \<^item> \<open>PV_Registry\<close>, \<open>PV_Registry_Correct\<close> (\<open>src/pv_registry.cpp\<close>): snapshots of registrations, their
    preparation and publication, and the non-atomic creation of channels; channels of a retired
    registration close, and a publication installs exactly what was asked for.
  \<^item> \<open>Alarm_Publisher\<close>, \<open>Alarm_Worker\<close>, \<open>Alarm_Worker_Correct\<close>, \<open>Alarm_Budget\<close> (\<open>src/alarm_publisher.cpp\<close>,
    \<open>src/alarm_worker.cpp\<close>): stored states, the ring with the locale \<open>bounded_fifo\<close>, the Redis
    connection, the operations of the owners and the rounds of the worker. A state counts as
    delivered only when the stream holds it, and the memory stays within the budget.

  \<^item> \<open>Acf_Parser\<close>, \<open>Acf_Correct\<close> (\<open>src/access_control.cpp\<close>, the access security file): tokenizer and
    recursive-descent parser of the accepted subset, with an inductive grammar that the parser
    accepts exactly. \<open>Access_Policy\<close>: reading, macro expansion, fingerprint and validation of a
    policy, identities of clients, bounded audit texts. \<open>Access_Operations\<close>: the accounting of client
    operations, each completed once, and the throttled record of denials. \<open>Access_Rights\<close>: rights of
    channels under concurrent recomputation. \<open>Access_Controller\<close>: reload, reconfiguration with
    restoration, and the pump of file events. The EPICS libraries \<open>asLib\<close> and \<open>macLib\<close> are parameters.

  \<^bold>\<open>Conventions\<close>

  Concurrent components are a state record and one function per critical section, with an inductive
  predicate of the states that some interleaving reaches; invariants are proved by rule induction.
  Clocks, system calls and calls into other libraries are arguments or scripts. Unsigned numbers of
  the configuration and of wire formats are words of their width; counters and sizes that a bound
  keeps small are natural numbers. A loop is a structural recursion or has a termination proof;
  where the source follows nodes of a document that may be recursive, the reader carries the fuel
  that its own depth limit gives, so running out is the error the source reports.

  \<^bold>\<open>Not modelled\<close>

  \<^item> \<open>src/app.cpp\<close>, \<open>src/runtime.cpp\<close>, \<open>src/main.cpp\<close>: process set-up, signal handling and the wiring of
    RedisAdapter and PVXS objects; what they compute is in the components above.
  \<^item> \<open>src/grpc_bridge.cpp\<close>, \<open>src/rpc_pv.cpp\<close>: conversions between protobuf messages and PVXS values,
    both of which are libraries.
  \<^item> \<open>src/access_control.cpp\<close>: the forwarding of PVXS callbacks that carries no decision, and the
    layout of log lines and time stamps.
  \<^item> \<open>tools/\<close>: benchmarks and probes.
\<close>

end
